(* ===== verification/Go_Prelude.thy ===== *)
theory Go_Prelude
  imports Main
begin

text \<open>
  Shared ground of the development: Go strings as byte lists with the functions of the
  \<open>strings\<close> and \<open>strconv\<close> packages the program calls, 64-bit integer wrap-around, and
  the result type of a Go call that returns a value, returns an error or panics.
  Facts used by several components are collected here: \<open>go_result\<close> holds the rules that
  take a call's result apart, \<open>go_string\<close> those about prefixes, suffixes and searching.
\<close>

named_theorems go_result \<comment> \<open>what it means for a call to return, fail or panic\<close>
named_theorems go_string \<comment> \<open>prefixes, suffixes and searching in strings\<close>

section \<open>Bytes\<close>

abbreviation byte :: "char \<Rightarrow> nat" where
  "byte c \<equiv> of_char c"

definition is_digit :: "char \<Rightarrow> bool" where
  "is_digit c \<longleftrightarrow> 48 \<le> byte c \<and> byte c \<le> 57"

definition is_lower :: "char \<Rightarrow> bool" where
  "is_lower c \<longleftrightarrow> 97 \<le> byte c \<and> byte c \<le> 122"

definition is_upper :: "char \<Rightarrow> bool" where
  "is_upper c \<longleftrightarrow> 65 \<le> byte c \<and> byte c \<le> 90"

definition is_ascii :: "char \<Rightarrow> bool" where
  "is_ascii c \<longleftrightarrow> byte c < 128"

definition lower_char :: "char \<Rightarrow> char" where
  "lower_char c = (if is_upper c then char_of (byte c + 32) else c)"

definition ascii_lower :: "string \<Rightarrow> string" where
  "ascii_lower s = map lower_char s"

definition ToLower :: "(string \<Rightarrow> string) \<Rightarrow> string \<Rightarrow> string" where
  \<comment> \<open>strings.ToLower; on text that is not ASCII it uses the Unicode case tables, a parameter\<close>
  "ToLower unicode_lower s = (if list_all is_ascii s then ascii_lower s else unicode_lower s)"

lemma byte_lt_256 [simp]: "byte c < 256"
proof -
  have "byte c mod 256 = byte c" by simp
  then show ?thesis by (metis mod_less_divisor zero_less_numeral)
qed

lemma byte_div_16 [simp]: "byte c div 16 < 16"
  using byte_lt_256 [of c] by (simp add: less_mult_imp_div_less)

lemma lower_char_idem [simp]: "lower_char (lower_char c) = lower_char c"
  by (auto simp: lower_char_def is_upper_def)

lemma ascii_lower_idem [simp]: "ascii_lower (ascii_lower s) = ascii_lower s"
  by (simp add: ascii_lower_def)

lemma length_ascii_lower [simp]: "length (ascii_lower s) = length s"
  by (simp add: ascii_lower_def)

lemma ascii_lower_append [simp]: "ascii_lower (s @ t) = ascii_lower s @ ascii_lower t"
  by (simp add: ascii_lower_def)

lemma ascii_lower_drop: "ascii_lower (drop n s) = drop n (ascii_lower s)"
  by (simp add: ascii_lower_def drop_map)

lemma ascii_lower_take: "ascii_lower (take n s) = take n (ascii_lower s)"
  by (simp add: ascii_lower_def take_map)

lemma is_ascii_lower_char [simp]: "is_ascii (lower_char c) = is_ascii c"
  by (auto simp: is_ascii_def lower_char_def is_upper_def)

lemma ascii_lower_ascii [simp]: "list_all is_ascii (ascii_lower s) = list_all is_ascii s"
  by (induction s) (simp_all add: ascii_lower_def)

lemma ToLower_ascii [simp]: "list_all is_ascii s \<Longrightarrow> ToLower uni s = ascii_lower s"
  by (simp add: ToLower_def)

section \<open>The strings package\<close>

definition has_prefix :: "string \<Rightarrow> string \<Rightarrow> bool" where
  "has_prefix s p \<longleftrightarrow> take (length p) s = p"

definition has_suffix :: "string \<Rightarrow> string \<Rightarrow> bool" where
  "has_suffix s p \<longleftrightarrow> length p \<le> length s \<and> drop (length s - length p) s = p"

definition trim_prefix :: "string \<Rightarrow> string \<Rightarrow> string" where
  "trim_prefix s p = (if has_prefix s p then drop (length p) s else s)"

definition trim_suffix :: "string \<Rightarrow> string \<Rightarrow> string" where
  "trim_suffix s p = (if has_suffix s p then take (length s - length p) s else s)"

fun str_index :: "string \<Rightarrow> string \<Rightarrow> nat option" where
  \<comment> \<open>strings.Index, with None for -1\<close>
  "str_index [] p = (if p = [] then Some 0 else None)"
| "str_index (c # cs) p =
     (if has_prefix (c # cs) p then Some 0 else map_option Suc (str_index cs p))"

definition str_contains :: "string \<Rightarrow> string \<Rightarrow> bool" where
  "str_contains s p \<longleftrightarrow> str_index s p \<noteq> None"

fun split_at :: "char \<Rightarrow> string \<Rightarrow> string list" where
  \<comment> \<open>strings.Split by a one-byte separator\<close>
  "split_at d [] = [[]]"
| "split_at d (c # cs) =
     (if c = d then [] # split_at d cs
      else case split_at d cs of [] \<Rightarrow> [[c]] | w # ws \<Rightarrow> (c # w) # ws)"

fun join_with :: "string \<Rightarrow> string list \<Rightarrow> string" where
  \<comment> \<open>strings.Join\<close>
  "join_with sep [] = []"
| "join_with sep [w] = w"
| "join_with sep (w # v # ws) = w @ sep @ join_with sep (v # ws)"

definition trim_right_char :: "string \<Rightarrow> char \<Rightarrow> string" where
  \<comment> \<open>strings.TrimRight with a one-byte cutset\<close>
  "trim_right_char s d = rev (dropWhile (\<lambda>c. c = d) (rev s))"

definition trim_char :: "string \<Rightarrow> char \<Rightarrow> string" where
  \<comment> \<open>strings.Trim with a one-byte cutset\<close>
  "trim_char s d = trim_right_char (dropWhile (\<lambda>c. c = d) s) d"

definition cut_at :: "string \<Rightarrow> char \<Rightarrow> string \<times> string \<times> bool" where
  \<comment> \<open>strings.Cut at a one-byte separator: before, after, found\<close>
  "cut_at s d = (if d \<in> set s
      then (takeWhile (\<lambda>c. c \<noteq> d) s, tl (dropWhile (\<lambda>c. c \<noteq> d) s), True)
      else (s, [], False))"

definition cut_last :: "string \<Rightarrow> char \<Rightarrow> (string \<times> string) option" where
  \<comment> \<open>the two sides of the last occurrence of a byte (strings.LastIndex)\<close>
  "cut_last s d = (if d \<in> set s
      then Some (rev (tl (dropWhile (\<lambda>c. c \<noteq> d) (rev s))), rev (takeWhile (\<lambda>c. c \<noteq> d) (rev s)))
      else None)"

lemma has_prefix_iff [go_string]: "has_prefix s p \<longleftrightarrow> (\<exists>t. s = p @ t)"
  unfolding has_prefix_def by (metis append_eq_conv_conj append_take_drop_id)

lemma has_suffix_iff [go_string]: "has_suffix s p \<longleftrightarrow> (\<exists>t. s = t @ p)"
proof
  assume "has_suffix s p"
  then show "\<exists>t. s = t @ p"
    unfolding has_suffix_def by (metis append_take_drop_id)
qed (auto simp: has_suffix_def)

lemma has_prefix_append [simp]: "has_prefix (p @ t) p"
  by (simp add: has_prefix_def)

lemma has_prefix_Nil [simp]: "has_prefix s []"
  by (simp add: has_prefix_def)

lemma has_prefix_Cons [simp]:
  "has_prefix (c # cs) (d # ds) \<longleftrightarrow> c = d \<and> has_prefix cs ds"
  by (auto simp: has_prefix_def)

lemma has_prefix_Nil_left [simp]: "has_prefix [] p \<longleftrightarrow> p = []"
  by (auto simp: has_prefix_def)

lemma has_suffix_append [simp]: "has_suffix (t @ p) p"
  by (simp add: has_suffix_def)

lemma trim_prefix_append [simp]: "trim_prefix (p @ t) p = t"
  by (simp add: trim_prefix_def)

lemma trim_suffix_append [simp]: "trim_suffix (t @ p) p = t"
  by (simp add: trim_suffix_def)

lemma str_index_Some_iff:
  "str_index s p = Some i \<Longrightarrow> has_prefix (drop i s) p"
proof (induction s p arbitrary: i rule: str_index.induct)
  case (2 c cs p)
  then show ?case by (auto split: if_splits)
qed (auto split: if_splits)

lemma str_contains_iff [go_string]: "str_contains s p \<longleftrightarrow> (\<exists>u v. s = u @ p @ v)"
proof (induction s p rule: str_index.induct)
  case (1 p)
  then show ?case by (auto simp: str_contains_def)
next
  case (2 c cs p)
  show ?case
  proof (cases "has_prefix (c # cs) p")
    case True
    then obtain v where "c # cs = [] @ p @ v" by (auto simp: has_prefix_iff)
    then have "\<exists>u v. c # cs = u @ p @ v" by blast
    with True show ?thesis by (simp add: str_contains_def)
  next
    case False
    have "(\<exists>u v. c # cs = u @ p @ v) \<longleftrightarrow> (\<exists>u v. cs = u @ p @ v)"
    proof
      assume "\<exists>u v. c # cs = u @ p @ v"
      then obtain u v where uv: "c # cs = u @ p @ v" by blast
      with False have "u \<noteq> []" by (auto simp: has_prefix_iff)
      with uv show "\<exists>u v. cs = u @ p @ v" by (cases u) auto
    next
      assume "\<exists>u v. cs = u @ p @ v"
      then obtain u v where "c # cs = (c # u) @ p @ v" by auto
      then show "\<exists>u v. c # cs = u @ p @ v" by blast
    qed
    with 2 False show ?thesis by (simp add: str_contains_def)
  qed
qed

lemma str_contains_append:
  "str_contains s p \<Longrightarrow> str_contains (u @ s @ v) p"
  unfolding str_contains_iff by (metis append.assoc)

lemma split_at_not_Nil [simp]: "split_at d s \<noteq> []"
  by (induction s) (auto split: list.splits)

lemma join_split_at: "join_with [d] (split_at d s) = s"
proof (induction s)
  case (Cons c s)
  then show ?case
    by (cases "split_at d s"; cases "tl (split_at d s)") auto
qed simp

lemma split_at_no_sep: "w \<in> set (split_at d s) \<Longrightarrow> d \<notin> set w"
  by (induction s arbitrary: w) (auto split: if_splits list.splits)

lemma split_at_append:
  "d \<notin> set u \<Longrightarrow> split_at d (u @ d # v) = u # split_at d v"
  by (induction u) auto

lemma split_at_single: "d \<notin> set u \<Longrightarrow> split_at d u = [u]"
  by (induction u) auto

section \<open>Machine integers\<close>

text \<open>
  Go's \<open>int\<close> and \<open>int64\<close> are 64 bits wide. Values are kept as \<^typ>\<open>int\<close> and the
  wrap-around of an operation that can leave the range is written out with \<open>wrap64\<close>.
\<close>

definition max_int64 :: int where "max_int64 = 9223372036854775807"
definition min_int64 :: int where "min_int64 = - 9223372036854775808"

definition in_int64 :: "int \<Rightarrow> bool" where
  "in_int64 n \<longleftrightarrow> min_int64 \<le> n \<and> n \<le> max_int64"

definition wrap64 :: "int \<Rightarrow> int" where
  "wrap64 n = (n + 9223372036854775808) mod 18446744073709551616 - 9223372036854775808"

lemma wrap64_id: "in_int64 n \<Longrightarrow> wrap64 n = n"
  by (simp add: in_int64_def wrap64_def min_int64_def max_int64_def)

lemma wrap64_in: "in_int64 (wrap64 n)"
proof -
  have "0 \<le> (n + 9223372036854775808) mod 18446744073709551616"
    and "(n + 9223372036854775808) mod 18446744073709551616 < 18446744073709551616"
    by simp_all
  then show ?thesis
    unfolding in_int64_def wrap64_def min_int64_def max_int64_def by linarith
qed

section \<open>The strconv package\<close>

fun nat_of_digits :: "nat \<Rightarrow> string \<Rightarrow> nat" where
  "nat_of_digits acc [] = acc"
| "nat_of_digits acc (c # cs) = nat_of_digits (10 * acc + (byte c - 48)) cs"

definition Atoi :: "string \<Rightarrow> int option" where
  \<comment> \<open>optional sign, decimal digits only, in the 64-bit range; None is the error\<close>
  "Atoi s = (let (neg, ds) = (case s of
        [] \<Rightarrow> (False, [])
      | c # cs \<Rightarrow> if c = CHR ''-'' then (True, cs)
                  else if c = CHR ''+'' then (False, cs) else (False, s));
      n = (if neg then - int (nat_of_digits 0 ds) else int (nat_of_digits 0 ds))
    in if ds = [] \<or> \<not> list_all is_digit ds \<or> \<not> in_int64 n then None else Some n)"

definition hex_digit :: "nat \<Rightarrow> char" where
  "hex_digit n = (if n < 10 then char_of (48 + n) else char_of (87 + n))"

fun digits_of :: "nat \<Rightarrow> string" where
  "digits_of n = (if n < 10 then [char_of (48 + n)]
                  else digits_of (n div 10) @ [char_of (48 + n mod 10)])"

declare digits_of.simps [simp del]

definition Itoa :: "int \<Rightarrow> string" where
  "Itoa n = (if n < 0 then CHR ''-'' # digits_of (nat (- n)) else digits_of (nat n))"

lemma is_digit_char_of [simp]: "(n :: nat) < 10 \<Longrightarrow> is_digit (char_of (48 + n))"
  by (simp add: is_digit_def)

lemma digits_of_digits: "list_all is_digit (digits_of n)"
proof (induction n rule: digits_of.induct)
  case (1 n)
  then show ?case by (cases "n < 10") (simp_all add: digits_of.simps [of n])
qed

lemma digits_of_not_Nil [simp]: "digits_of n \<noteq> []"
  by (subst digits_of.simps) simp

lemma nat_of_digits_append:
  "nat_of_digits acc (s @ t) = nat_of_digits (nat_of_digits acc s) t"
  by (induction s arbitrary: acc) auto

lemma nat_of_digits_of: "nat_of_digits 0 (digits_of n) = n"
proof (induction n rule: digits_of.induct)
  case (1 n)
  then show ?case
    by (cases "n < 10") (simp_all add: digits_of.simps [of n] nat_of_digits_append)
qed

lemma Atoi_Itoa: "in_int64 n \<Longrightarrow> Atoi (Itoa n) = Some n"
proof (cases "n < 0")
  case True
  assume "in_int64 n"
  with True show ?thesis
    by (simp add: Atoi_def Itoa_def nat_of_digits_of digits_of_digits)
next
  case False
  assume n: "in_int64 n"
  obtain c cs where ds: "digits_of (nat n) = c # cs"
    by (cases "digits_of (nat n)") auto
  have "is_digit c" using digits_of_digits [of "nat n"] ds by simp
  then have "c \<noteq> CHR ''-''" "c \<noteq> CHR ''+''" by (auto simp: is_digit_def)
  with n False ds show ?thesis
    using nat_of_digits_of [of "nat n"] digits_of_digits [of "nat n"]
    by (simp add: Atoi_def Itoa_def)
qed

lemma Atoi_range: "Atoi s = Some n \<Longrightarrow> in_int64 n"
  by (auto simp: Atoi_def Let_def split: if_splits prod.splits)

end
