(* ===== verification/Domain_Model.thy ===== *)
theory Domain_Model
  imports Go_Prelude
begin

text \<open>
  Package \<open>internal/domain\<close>: documents and search results, the engine and search options,
  and the failure taxonomy. A Go \<open>error\<close> value is a \<open>go_error\<close>: one constructor for
  every concrete error type the program creates or inspects, \<open>EWrap\<close> for
  \<open>fmt.Errorf("...: %w", err)\<close>. \<open>errors.As\<close> and \<open>errors.Is\<close> walk the unwrap chain.
\<close>

section \<open>Documents and options (document.go, searcher.go)\<close>

record Document =
  PageContent :: string
  Metadata :: "string \<rightharpoonup> string"

record EngineOptions =
  RedditKeepDepth :: bool
  RedditKeepCreated :: bool
  RedditMaxRounds :: int
  RedditFormat :: string

record SearchResult =
  sr_Title :: string
  sr_URL :: string
  sr_Snippet :: string
  sr_Engine :: string
  sr_PublishedDate :: string

record SearchOptions =
  Limit :: int
  TimeRange :: string
  Language :: string

section \<open>Failure kinds and errors (errors.go)\<close>

datatype FailureKind =
    KindCaptcha
  | KindHTTP403
  | KindHTTP429
  | KindBotBlock
  | KindTimeout
  | KindUpstreamError
  | KindBadResponse
  | KindError

fun kind_label :: "FailureKind \<Rightarrow> string" where
  "kind_label KindCaptcha = ''captcha''"
| "kind_label KindHTTP403 = ''http_403''"
| "kind_label KindHTTP429 = ''http_429''"
| "kind_label KindBotBlock = ''bot_block''"
| "kind_label KindTimeout = ''timeout''"
| "kind_label KindUpstreamError = ''upstream_error''"
| "kind_label KindBadResponse = ''bad_response''"
| "kind_label KindError = ''error''"

datatype go_error =
    EText string
  | EWrap string go_error
  | FetchError (Kind: FailureKind) (StatusCode: int) (Marker: string) (Err: "go_error option")
  | StatusError int
  | DeadlineExceeded
  | Canceled
  | ParamError string

definition KindForStatus :: "int \<Rightarrow> FailureKind" where
  "KindForStatus code =
     (if code = 403 then KindHTTP403
      else if code = 429 then KindHTTP429
      else if code \<ge> 500 then KindUpstreamError
      else KindError)"

definition quote_char :: "char \<Rightarrow> string" where
  \<comment> \<open>one byte of strconv.Quote (the verb %q); bytes above ASCII are kept\<close>
  "quote_char c =
     (if c = CHR 0x22 then [CHR 0x5C, CHR 0x22]
      else if c = CHR 0x5C then [CHR 0x5C, CHR 0x5C]
      else if byte c = 7 then [CHR 0x5C, CHR ''a'']
      else if byte c = 8 then [CHR 0x5C, CHR ''b'']
      else if byte c = 12 then [CHR 0x5C, CHR ''f'']
      else if byte c = 10 then [CHR 0x5C, CHR ''n'']
      else if byte c = 13 then [CHR 0x5C, CHR ''r'']
      else if byte c = 9 then [CHR 0x5C, CHR ''t'']
      else if byte c = 11 then [CHR 0x5C, CHR ''v'']
      else if byte c < 32 \<or> byte c = 127
        then [CHR 0x5C, CHR ''x'', hex_digit (byte c div 16), hex_digit (byte c mod 16)]
      else [c])"

definition go_quote :: "string \<Rightarrow> string" where
  "go_quote s = CHR 0x22 # concat (map quote_char s) @ [CHR 0x22]"

fun Error :: "go_error \<Rightarrow> string" where
  "Error (EText s) = s"
| "Error (EWrap p e) = p @ '': '' @ Error e"
| "Error (FetchError k code m (Some e)) = kind_label k @ '': '' @ Error e"
| "Error (FetchError k code m None) =
     (if m \<noteq> [] then kind_label k @ '' (marker='' @ go_quote m @ '', status='' @ Itoa code @ '')''
      else kind_label k)"
| "Error (StatusError code) = ''upstream returned '' @ Itoa code"
| "Error DeadlineExceeded = ''context deadline exceeded''"
| "Error Canceled = ''context canceled''"
| "Error (ParamError m) = m"

fun Unwrap :: "go_error \<Rightarrow> go_error option" where
  "Unwrap (EWrap p e) = Some e"
| "Unwrap (FetchError k code m e) = e"
| "Unwrap e = None"

text \<open>
  \<open>errors.As(err, &target)\<close> for the three target types the program asks for, and
  \<open>errors.Is\<close> against the two context errors: the first match along the unwrap chain.
\<close>

fun As_FetchError :: "go_error \<Rightarrow> go_error option" where
  "As_FetchError (FetchError k code m e) = Some (FetchError k code m e)"
| "As_FetchError (EWrap p e) = As_FetchError e"
| "As_FetchError e = None"

fun As_StatusError :: "go_error \<Rightarrow> int option" where
  "As_StatusError (StatusError code) = Some code"
| "As_StatusError (EWrap p e) = As_StatusError e"
| "As_StatusError (FetchError k code m (Some e)) = As_StatusError e"
| "As_StatusError e = None"

fun As_ParamError :: "go_error \<Rightarrow> string option" where
  "As_ParamError (ParamError m) = Some m"
| "As_ParamError (EWrap p e) = As_ParamError e"
| "As_ParamError (FetchError k code m (Some e)) = As_ParamError e"
| "As_ParamError e = None"

fun Is_context_error :: "go_error \<Rightarrow> bool" where
  "Is_context_error DeadlineExceeded = True"
| "Is_context_error Canceled = True"
| "Is_context_error (EWrap p e) = Is_context_error e"
| "Is_context_error (FetchError k code m (Some e)) = Is_context_error e"
| "Is_context_error e = False"

section \<open>The result of a call\<close>

text \<open>
  A Go function returning \<open>(T, error)\<close> is an \<open>'a res\<close>: \<open>Ok\<close> when the error is nil,
  \<open>Fail\<close> when it is not, and \<open>Panic\<close> when the call panics (nil dereference, a standard
  library function that panics on its argument), which Go does not turn into an error.
\<close>

datatype 'a res = Ok 'a | Fail go_error | Panic string

fun wrap_err :: "string \<Rightarrow> 'a res \<Rightarrow> 'a res" where
  \<comment> \<open>if err != nil return fmt.Errorf("p: %w", err)\<close>
  "wrap_err p (Fail e) = Fail (EWrap p e)"
| "wrap_err p r = r"

lemma wrap_err_Ok [go_result, simp]: "wrap_err p r = Ok x \<longleftrightarrow> r = Ok x"
  by (cases r) auto

lemma wrap_err_Panic [go_result, simp]: "wrap_err p r = Panic m \<longleftrightarrow> r = Panic m"
  by (cases r) auto

lemma wrap_err_Fail [go_result]: "wrap_err p r = Fail e \<longleftrightarrow> (\<exists>e'. e = EWrap p e' \<and> r = Fail e')"
  by (cases r) auto

section \<open>Facts about the taxonomy\<close>

lemma kind_label_inj: "kind_label k = kind_label k' \<Longrightarrow> k = k'"
  by (cases k; cases k') auto

text \<open>The kinds can be enumerated, so a statement about all of them is decided by evaluation.\<close>

instantiation FailureKind :: enum
begin

definition enum_FailureKind :: "FailureKind list" where
  "enum_FailureKind = [KindCaptcha, KindHTTP403, KindHTTP429, KindBotBlock,
     KindTimeout, KindUpstreamError, KindBadResponse, KindError]"

definition enum_all_FailureKind :: "(FailureKind \<Rightarrow> bool) \<Rightarrow> bool" where
  "enum_all_FailureKind P \<longleftrightarrow> list_all P (enum_class.enum :: FailureKind list)"

definition enum_ex_FailureKind :: "(FailureKind \<Rightarrow> bool) \<Rightarrow> bool" where
  "enum_ex_FailureKind P \<longleftrightarrow> list_ex P (enum_class.enum :: FailureKind list)"

instance
proof
  have all: "k \<in> set enum_class.enum" for k :: FailureKind
    by (cases k) (simp_all add: enum_FailureKind_def)
  then show "(UNIV :: FailureKind set) = set enum_class.enum" by auto
  show "distinct (enum_class.enum :: FailureKind list)" by (simp add: enum_FailureKind_def)
  show "enum_class.enum_all P \<longleftrightarrow> Ball UNIV P" "enum_class.enum_ex P \<longleftrightarrow> Bex UNIV P" for P :: "FailureKind \<Rightarrow> bool"
    using all by (auto simp: enum_all_FailureKind_def enum_ex_FailureKind_def list_all_iff list_ex_iff)
qed

end

definition kind_labels :: "string list" where
  "kind_labels = map kind_label enum_class.enum"

lemma kind_label_in [simp]: "kind_label k \<in> set kind_labels"
  using enum_UNIV by (auto simp: kind_labels_def)

lemma distinct_kind_labels: "distinct kind_labels"
  by (simp add: kind_labels_def enum_FailureKind_def)

lemma kind_label_not_ok: "kind_label k \<noteq> ''ok''"
  by (cases k) auto

lemma As_FetchError_shape:
  "As_FetchError e = Some f \<Longrightarrow> \<exists>k code m i. f = FetchError k code m i"
  by (induction e rule: As_FetchError.induct) auto

lemma wrap_preserves_chain [simp]:
  "As_FetchError (EWrap p e) = As_FetchError e"
  "As_StatusError (EWrap p e) = As_StatusError e"
  "As_ParamError (EWrap p e) = As_ParamError e"
  "Is_context_error (EWrap p e) = Is_context_error e"
  by auto

lemma KindForStatus_cases:
  "KindForStatus code \<in> {KindHTTP403, KindHTTP429, KindUpstreamError, KindError}"
  by (simp add: KindForStatus_def)

end
