(* ===== verification/Go_Text.thy ===== *)
theory Go_Text
  imports Go_Prelude
begin

text \<open>
  Text encoding in the standard library: UTF-8 (\<open>unicode/utf8\<close>) over byte strings, and
  \<open>strings.TrimSpace\<close>, which removes the encodings of the Unicode white space characters
  at both ends.
\<close>

section \<open>UTF-8\<close>

definition is_cont :: "char \<Rightarrow> bool" where
  "is_cont c \<longleftrightarrow> 128 \<le> byte c \<and> byte c < 192"

definition second_ok :: "char \<Rightarrow> char \<Rightarrow> bool" where
  \<comment> \<open>the accept range of the second byte after a multi-byte lead\<close>
  "second_ok a b \<longleftrightarrow> is_cont b \<and>
     (byte a = 224 \<longrightarrow> 160 \<le> byte b) \<and> (byte a = 237 \<longrightarrow> byte b < 160) \<and>
     (byte a = 240 \<longrightarrow> 144 \<le> byte b) \<and> (byte a = 244 \<longrightarrow> byte b < 144)"

fun rune_len :: "string \<Rightarrow> nat" where
  \<comment> \<open>the width of the rune at the start, 0 where utf8.DecodeRune reports an encoding error\<close>
  "rune_len [] = 0"
| "rune_len (a # s) =
     (if byte a < 128 then 1
      else if 194 \<le> byte a \<and> byte a < 224 then
        (case s of b # _ \<Rightarrow> if is_cont b then 2 else 0 | _ \<Rightarrow> 0)
      else if 224 \<le> byte a \<and> byte a < 240 then
        (case s of b # c # _ \<Rightarrow> if second_ok a b \<and> is_cont c then 3 else 0 | _ \<Rightarrow> 0)
      else if 240 \<le> byte a \<and> byte a < 245 then
        (case s of b # c # d # _ \<Rightarrow> if second_ok a b \<and> is_cont c \<and> is_cont d then 4 else 0 | _ \<Rightarrow> 0)
      else 0)"

definition encode_rune :: "nat \<Rightarrow> string" where
  "encode_rune r =
     (if r < 128 then [char_of r]
      else if r < 2048 then [char_of (192 + r div 64), char_of (128 + r mod 64)]
      else if r < 65536 then
        [char_of (224 + r div 4096), char_of (128 + r div 64 mod 64), char_of (128 + r mod 64)]
      else [char_of (240 + r div 262144), char_of (128 + r div 4096 mod 64),
            char_of (128 + r div 64 mod 64), char_of (128 + r mod 64)])"

definition rune_error :: string where
  "rune_error = encode_rune 65533"

fun utf8_fuel :: "nat \<Rightarrow> string \<Rightarrow> bool" where
  "utf8_fuel n [] = True"
| "utf8_fuel 0 s = False"
| "utf8_fuel (Suc n) s = (rune_len s \<noteq> 0 \<and> utf8_fuel n (drop (rune_len s) s))"

definition valid_utf8 :: "string \<Rightarrow> bool" where
  "valid_utf8 s = utf8_fuel (length s) s"

lemma rune_len_le: "rune_len s \<le> length s"
  by (cases s) (auto split: list.splits)

lemma rune_len_ascii: "is_ascii c \<Longrightarrow> rune_len (c # s) = 1"
  by (simp add: is_ascii_def)

lemma rune_len_cases: "rune_len s \<in> {0, 1, 2, 3, 4}"
  by (cases s) (auto split: list.splits)

lemma rune_len_append: "rune_len s \<noteq> 0 \<Longrightarrow> rune_len (take (rune_len s) s @ t) = rune_len s"
  by (cases s) (auto split: list.splits if_splits)

lemma rune_len_1: "rune_len (a # s) = 1 \<Longrightarrow> is_ascii a"
  by (auto simp: is_ascii_def split: if_splits list.splits)

lemma utf8_fuel_mono: "utf8_fuel n s \<Longrightarrow> n \<le> m \<Longrightarrow> utf8_fuel m s"
proof (induction n s arbitrary: m rule: utf8_fuel.induct)
  case (3 n c s)
  then obtain k where "m = Suc k" by (cases m) auto
  with 3 show ?case by auto
qed simp_all

lemma utf8_fuel_enough: "utf8_fuel n s \<Longrightarrow> utf8_fuel (length s) s"
proof (induction n s rule: utf8_fuel.induct)
  case (3 n c s)
  let ?k = "rune_len (c # s)" and ?r = "drop (rune_len (c # s)) (c # s)"
  from 3 have "utf8_fuel (length ?r) ?r" by (simp del: rune_len.simps)
  moreover have "0 < ?k" using 3 by (simp del: rune_len.simps)
  then have "length ?r \<le> length s" unfolding length_drop length_Cons by arith
  ultimately have "utf8_fuel (length s) ?r" by (rule utf8_fuel_mono)
  with 3 show ?case by (simp del: rune_len.simps)
qed simp_all

lemma valid_utf8_Nil [simp]: "valid_utf8 []"
  by (simp add: valid_utf8_def)

lemma valid_utf8_step:
  "s \<noteq> [] \<Longrightarrow> valid_utf8 s \<longleftrightarrow> rune_len s \<noteq> 0 \<and> valid_utf8 (drop (rune_len s) s)"
proof (cases s)
  case (Cons c cs)
  show ?thesis
    unfolding valid_utf8_def Cons
    by (auto simp del: rune_len.simps dest: utf8_fuel_enough
        intro: utf8_fuel_mono [of "length (c # cs) - rune_len (c # cs)"])
qed simp

lemma valid_utf8_ascii: "list_all is_ascii s \<Longrightarrow> valid_utf8 s"
  by (induction s) (simp_all add: valid_utf8_step rune_len_ascii del: rune_len.simps)

section \<open>White space\<close>

definition unicode_spaces :: "string list" where
  \<comment> \<open>the UTF-8 encodings of the characters for which unicode.IsSpace holds\<close>
  "unicode_spaces = map encode_rune
     ([9, 10, 11, 12, 13, 32, 133, 160, 5760] @ [8192..<8203] @ [8232, 8233, 8239, 8287, 12288])"

function strip :: "string list \<Rightarrow> string \<Rightarrow> string" where
  \<comment> \<open>remove leading occurrences of the given words\<close>
  "strip ps s = (case find (\<lambda>p. p \<noteq> [] \<and> has_prefix s p) ps of
       None \<Rightarrow> s
     | Some p \<Rightarrow> strip ps (drop (length p) s))"
  by pat_completeness auto
termination
proof (relation "measure (\<lambda>(ps, s). length s)", goal_cases)
  case (2 ps s p)
  then have "p \<noteq> []" "has_prefix s p" by (auto simp: find_Some_iff)
  then have "s \<noteq> []" by auto
  with \<open>p \<noteq> []\<close> show ?case by simp
qed simp

declare strip.simps [simp del]

definition TrimSpace :: "string \<Rightarrow> string" where
  "TrimSpace s = rev (strip (map rev unicode_spaces) (rev (strip unicode_spaces s)))"

definition stripped :: "string list \<Rightarrow> string \<Rightarrow> bool" where
  "stripped ps s \<longleftrightarrow> (\<forall>p \<in> set ps. p \<noteq> [] \<longrightarrow> \<not> has_prefix s p)"

lemma stripped_iff: "stripped ps s \<longleftrightarrow> find (\<lambda>p. p \<noteq> [] \<and> has_prefix s p) ps = None"
  by (auto simp: stripped_def find_None_iff)

lemma strip_stripped: "stripped ps (strip ps s)"
proof (induction ps s rule: strip.induct)
  case (1 ps s)
  then show ?case
    by (cases "find (\<lambda>p. p \<noteq> [] \<and> has_prefix s p) ps")
       (simp_all add: strip.simps [of ps s] stripped_iff)
qed

lemma strip_id: "stripped ps s \<Longrightarrow> strip ps s = s"
  by (subst strip.simps) (simp add: stripped_iff)

lemma strip_suffix: "\<exists>w. s = w @ strip ps s"
proof (induction ps s rule: strip.induct)
  case (1 ps s)
  show ?case
  proof (cases "find (\<lambda>p. p \<noteq> [] \<and> has_prefix s p) ps")
    case (Some p)
    with 1 obtain w where "drop (length p) s = w @ strip ps (drop (length p) s)" by auto
    then have "s = (take (length p) s @ w) @ strip ps (drop (length p) s)"
      by (metis append.assoc append_take_drop_id)
    then have "\<exists>w. s = w @ strip ps (drop (length p) s)" ..
    with Some show ?thesis by (simp add: strip.simps [of ps s])
  qed (simp add: strip.simps [of ps s])
qed

lemma stripped_prefix: "stripped ps (u @ v) \<Longrightarrow> stripped ps u"
  by (auto simp: stripped_def has_prefix_iff)

text \<open>What is trimmed is an inner part, and nothing more can be trimmed from it.\<close>

lemma TrimSpace_infix: "\<exists>u v. s = u @ TrimSpace s @ v"
proof -
  obtain u where u: "s = u @ strip unicode_spaces s" using strip_suffix by blast
  obtain v where "rev (strip unicode_spaces s) = v @ strip (map rev unicode_spaces) (rev (strip unicode_spaces s))"
    using strip_suffix by blast
  then have "strip unicode_spaces s = TrimSpace s @ rev v"
    unfolding TrimSpace_def by (metis rev_append rev_rev_ident)
  with u show ?thesis by metis
qed

lemma TrimSpace_ends:
  "stripped unicode_spaces (TrimSpace s) \<and> stripped (map rev unicode_spaces) (rev (TrimSpace s))"
proof -
  obtain v where "rev (strip unicode_spaces s) = v @ strip (map rev unicode_spaces) (rev (strip unicode_spaces s))"
    using strip_suffix by blast
  then have "strip unicode_spaces s = TrimSpace s @ rev v"
    unfolding TrimSpace_def by (metis rev_append rev_rev_ident)
  then have "stripped unicode_spaces (TrimSpace s)"
    using strip_stripped [of unicode_spaces s] stripped_prefix by metis
  moreover have "stripped (map rev unicode_spaces) (rev (TrimSpace s))"
    by (simp add: TrimSpace_def strip_stripped)
  ultimately show ?thesis ..
qed

lemma TrimSpace_id:
  "stripped unicode_spaces s \<Longrightarrow> stripped (map rev unicode_spaces) (rev s) \<Longrightarrow> TrimSpace s = s"
  by (simp add: TrimSpace_def strip_id)

lemma TrimSpace_idem [simp]: "TrimSpace (TrimSpace s) = TrimSpace s"
  using TrimSpace_ends by (blast intro: TrimSpace_id)

text \<open>A text with an ordinary byte at both ends is not trimmed.\<close>

definition space_byte :: "char \<Rightarrow> bool" where
  "space_byte c \<longleftrightarrow> byte c \<in> {9, 10, 11, 12, 13, 32} \<or> 128 \<le> byte c"

lemma unicode_space_ends: "list_all (\<lambda>p. p \<noteq> [] \<and> space_byte (hd p) \<and> space_byte (last p)) unicode_spaces"
  by (simp add: unicode_spaces_def encode_rune_def space_byte_def upt_rec_numeral)

lemma TrimSpace_plain:
  assumes "\<not> space_byte (hd s)" "\<not> space_byte (last s)"
  shows "TrimSpace s = s"
proof (rule TrimSpace_id)
  have p: "p \<noteq> []" "space_byte (hd p)" "space_byte (last p)" if "p \<in> set unicode_spaces" for p
    using unicode_space_ends that by (simp_all add: list_all_iff)
  show "stripped unicode_spaces s"
    unfolding stripped_def
  proof (intro ballI impI notI)
    fix w assume w: "w \<in> set unicode_spaces" "w \<noteq> []" "has_prefix s w"
    then have "hd s = hd w" by (auto simp: has_prefix_iff)
    with p(2) [OF w(1)] assms(1) show False by simp
  qed
  show "stripped (map rev unicode_spaces) (rev s)"
    unfolding stripped_def
  proof (intro ballI impI notI)
    fix w assume w: "w \<in> set (map rev unicode_spaces)" "w \<noteq> []" "has_prefix (rev s) w"
    then obtain q where q: "q \<in> set unicode_spaces" "w = rev q" by auto
    from w(3) obtain t where "rev s = w @ t" by (auto simp: has_prefix_iff)
    then have "s = rev t @ rev w" by (metis rev_append rev_rev_ident)
    then have "last s = last q" using q p(1) [OF q(1)] by simp
    with p(3) [OF q(1)] assms(2) show False by simp
  qed
qed
end
