(* ===== verification/Go_Json.thy ===== *)
theory Go_Json
  imports Domain_Model Go_Text
begin

text \<open>
  \<open>encoding/json\<close>: the syntax accepted by the decoder (with its nesting limit), decoding into
  Go values, and the encoder with its HTML escaping. A parsed text is a \<open>json\<close>: numbers keep
  their literal, strings are unquoted (bytes that are not UTF-8 become the replacement
  character), objects keep order and duplicates. A \<open>json.RawMessage\<close> is the \<open>json\<close> of its
  text. Decoding stores into an existing Go value; \<open>None\<close> is a type error, after which every
  caller of the program drops the value.
\<close>

section \<open>Syntax\<close>

datatype json =
    JNull
  | JBool bool
  | JNum string
  | JStr string
  | JArr "json list"
  | JObj "(string \<times> json) list"

definition json_space :: "char \<Rightarrow> bool" where
  "json_space c \<longleftrightarrow> c = CHR '' '' \<or> c = CHR 0x09 \<or> c = CHR 0x0A \<or> c = CHR 0x0D"

abbreviation skip_space :: "string \<Rightarrow> string" where
  "skip_space \<equiv> dropWhile json_space"

definition hex_value :: "char \<Rightarrow> nat option" where
  "hex_value c =
     (if is_digit c then Some (byte c - 48)
      else if 97 \<le> byte c \<and> byte c \<le> 102 then Some (byte c - 87)
      else if 65 \<le> byte c \<and> byte c \<le> 70 then Some (byte c - 55)
      else None)"

fun hex4 :: "string \<Rightarrow> (nat \<times> string) option" where
  "hex4 (a # b # c # d # s) = (case (hex_value a, hex_value b, hex_value c, hex_value d) of
       (Some w, Some x, Some y, Some z) \<Rightarrow> Some (((w * 16 + x) * 16 + y) * 16 + z, s)
     | _ \<Rightarrow> None)"
| "hex4 s = None"

definition is_surrogate :: "nat \<Rightarrow> bool" where
  "is_surrogate r \<longleftrightarrow> 55296 \<le> r \<and> r < 57344"

definition decode_pair :: "nat \<Rightarrow> nat \<Rightarrow> nat option" where
  \<comment> \<open>utf16.DecodeRune\<close>
  "decode_pair r r1 =
     (if 55296 \<le> r \<and> r < 56320 \<and> 56320 \<le> r1 \<and> r1 < 57344
      then Some ((r - 55296) * 1024 + (r1 - 56320) + 65536) else None)"

definition unicode_escape :: "string \<Rightarrow> (string \<times> string) option" where
  \<comment> \<open>what follows \\u: the encoded character and the rest\<close>
  "unicode_escape s = (case hex4 s of
       None \<Rightarrow> None
     | Some (r, t) \<Rightarrow>
         if \<not> is_surrogate r then Some (encode_rune r, t)
         else case (if has_prefix t [CHR 0x5C, CHR ''u''] then hex4 (drop 2 t) else None) of
             None \<Rightarrow> Some (rune_error, t)
           | Some (r1, t1) \<Rightarrow> (case decode_pair r r1 of
                 Some p \<Rightarrow> Some (encode_rune p, t1)
               | None \<Rightarrow> Some (rune_error, t)))"

definition simple_escape :: "char \<Rightarrow> char option" where
  "simple_escape c =
     (if c = CHR 0x22 \<or> c = CHR 0x5C \<or> c = CHR ''/'' then Some c
      else if c = CHR ''b'' then Some (CHR 0x08)
      else if c = CHR ''f'' then Some (CHR 0x0C)
      else if c = CHR ''n'' then Some (CHR 0x0A)
      else if c = CHR ''r'' then Some (CHR 0x0D)
      else if c = CHR ''t'' then Some (CHR 0x09)
      else None)"

definition string_step :: "string \<Rightarrow> (string \<times> string) option" where
  \<comment> \<open>one element of a string literal: its decoded text and the rest\<close>
  "string_step s = (case s of
       [] \<Rightarrow> None
     | c # t \<Rightarrow>
         if c = CHR 0x5C then (case t of
             [] \<Rightarrow> None
           | e # u \<Rightarrow> if e = CHR ''u'' then unicode_escape u
                      else map_option (\<lambda>x. ([x], u)) (simple_escape e))
         else if byte c < 32 then None
         else if rune_len s = 0 then Some (rune_error, t)
         else Some (take (rune_len s) s, drop (rune_len s) s))"

lemma hex4_shorter: "hex4 s = Some (r, t) \<Longrightarrow> length t < length s"
  by (cases s rule: hex4.cases) (auto split: option.splits)

lemma unicode_escape_shorter: "unicode_escape s = Some (r, t) \<Longrightarrow> length t < length s"
  unfolding unicode_escape_def
  by (auto split: option.splits if_splits dest!: hex4_shorter)

lemma string_step_shorter: "string_step s = Some (r, t) \<Longrightarrow> length t < length s"
  unfolding string_step_def
  by (cases s) (auto split: option.splits if_splits list.splits dest!: unicode_escape_shorter
      simp del: rune_len.simps simp: length_drop)

function string_body :: "string \<Rightarrow> (string \<times> string) option" where
  \<comment> \<open>after the opening quote: the unquoted text and what follows the closing quote\<close>
  "string_body s =
     (if s \<noteq> [] \<and> hd s = CHR 0x22 then Some ([], tl s)
      else case string_step s of
          None \<Rightarrow> None
        | Some (w, t) \<Rightarrow> map_option (\<lambda>(v, u). (w @ v, u)) (string_body t))"
  by pat_completeness auto
termination
  by (relation "measure length") (auto dest: string_step_shorter)

declare string_body.simps [simp del]

definition digits1 :: "string \<Rightarrow> (string \<times> string) option" where
  \<comment> \<open>one or more digits, as many as there are\<close>
  "digits1 s = (if takeWhile is_digit s = [] then None
               else Some (takeWhile is_digit s, dropWhile is_digit s))"

definition number_int :: "string \<Rightarrow> (string \<times> string) option" where
  "number_int s = (case s of
       [] \<Rightarrow> None
     | c # t \<Rightarrow> if c = CHR ''0'' then Some ([c], t) else digits1 s)"

definition number_frac :: "string \<Rightarrow> (string \<times> string) option" where
  "number_frac s = (case s of
       c # t \<Rightarrow> if c = CHR ''.'' then map_option (\<lambda>(d, u). (c # d, u)) (digits1 t) else Some ([], s)
     | [] \<Rightarrow> Some ([], s))"

definition number_exp :: "string \<Rightarrow> (string \<times> string) option" where
  "number_exp s = (case s of
       c # t \<Rightarrow>
         if c = CHR ''e'' \<or> c = CHR ''E'' then
           (case t of
              d # u \<Rightarrow> if d = CHR ''+'' \<or> d = CHR ''-''
                       then map_option (\<lambda>(w, v). (c # d # w, v)) (digits1 u)
                       else map_option (\<lambda>(w, v). (c # w, v)) (digits1 t)
            | [] \<Rightarrow> None)
         else Some ([], s)
     | [] \<Rightarrow> Some ([], s))"

definition number :: "string \<Rightarrow> (string \<times> string) option" where
  "number s =
     (let (sign, s0) = (case s of c # t \<Rightarrow> if c = CHR ''-'' then ([c], t) else ([], s) | [] \<Rightarrow> ([], s))
      in case number_int s0 of
          None \<Rightarrow> None
        | Some (i, s1) \<Rightarrow> (case number_frac s1 of
              None \<Rightarrow> None
            | Some (f, s2) \<Rightarrow> (case number_exp s2 of
                  None \<Rightarrow> None
                | Some (e, s3) \<Rightarrow> Some (sign @ i @ f @ e, s3))))"

definition maxNestingDepth :: int where
  "maxNestingDepth = 10000"

definition head_is :: "char \<Rightarrow> string \<Rightarrow> bool" where
  "head_is c s \<longleftrightarrow> s \<noteq> [] \<and> hd s = c"

definition json_literals :: "(string \<times> json) list" where
  "json_literals = [(''null'', JNull), (''true'', JBool True), (''false'', JBool False)]"

definition scalar :: "string \<Rightarrow> (json \<times> string) option" where
  "scalar s =
     (if head_is (CHR 0x22) s then map_option (\<lambda>(v, u). (JStr v, u)) (string_body (tl s))
      else case find (\<lambda>(w, v). has_prefix s w) json_literals of
          Some (w, v) \<Rightarrow> Some (v, drop (length w) s)
        | None \<Rightarrow> map_option (\<lambda>(v, u). (JNum v, u)) (number s))"

lemma skip_space_length: "length (skip_space s) \<le> length s"
  by (rule length_dropWhile_le)

lemma skip_tl_shorter: "head_is c s \<Longrightarrow> length (skip_space (tl s)) < length s"
  using skip_space_length [of "tl s"] by (cases s) (simp_all add: head_is_def)

lemma skip_tl_skip_shorter:
  "head_is c (skip_space t) \<Longrightarrow> length (skip_space (tl (skip_space t))) < length t"
  using skip_tl_shorter [of c "skip_space t"] skip_space_length [of t] by linarith

text \<open>
  The three parsers are total: a nested call is made on a shorter text, which the tests on the
  lengths record.
\<close>

function json_value :: "int \<Rightarrow> string \<Rightarrow> (json \<times> string) option"
  and json_elements :: "int \<Rightarrow> string \<Rightarrow> (json list \<times> string) option"
  and json_members :: "int \<Rightarrow> string \<Rightarrow> ((string \<times> json) list \<times> string) option" where
  "json_value d s =
     (if head_is (CHR ''['') s then
        (if d \<le> 0 then None
         else if head_is (CHR '']'') (skip_space (tl s)) then Some (JArr [], tl (skip_space (tl s)))
         else map_option (\<lambda>(vs, u). (JArr vs, u)) (json_elements (d - 1) (skip_space (tl s))))
      else if head_is (CHR ''{'') s then
        (if d \<le> 0 then None
         else if head_is (CHR ''}'') (skip_space (tl s)) then Some (JObj [], tl (skip_space (tl s)))
         else map_option (\<lambda>(vs, u). (JObj vs, u)) (json_members (d - 1) (skip_space (tl s))))
      else scalar s)"
| "json_elements d s =
     (case json_value d s of
        None \<Rightarrow> None
      | Some (v, t) \<Rightarrow>
          if \<not> length t < length s then None
          else if head_is (CHR '']'') (skip_space t) then Some ([v], tl (skip_space t))
          else if head_is (CHR '','') (skip_space t)
            then map_option (\<lambda>(vs, u). (v # vs, u)) (json_elements d (skip_space (tl (skip_space t))))
          else None)"
| "json_members d s =
     (if \<not> head_is (CHR 0x22) s then None
      else case string_body (tl s) of
        None \<Rightarrow> None
      | Some (k, t) \<Rightarrow>
          if \<not> (length t < length s \<and> head_is (CHR '':'') (skip_space t)) then None
          else case json_value d (skip_space (tl (skip_space t))) of
            None \<Rightarrow> None
          | Some (v, u) \<Rightarrow>
              if \<not> length u < length s then None
              else if head_is (CHR ''}'') (skip_space u) then Some ([(k, v)], tl (skip_space u))
              else if head_is (CHR '','') (skip_space u)
                then map_option (\<lambda>(vs, w). ((k, v) # vs, w)) (json_members d (skip_space (tl (skip_space u))))
              else None)"
  by pat_completeness auto

termination
proof (relation "measure (\<lambda>x. case x of Inl (d, s) \<Rightarrow> 2 * length s
    | Inr (Inl (d, s)) \<Rightarrow> Suc (2 * length s) | Inr (Inr (d, s)) \<Rightarrow> Suc (2 * length s))", goal_cases)
  case (5 d s x2 v t)
  then show ?case using skip_tl_skip_shorter [of "CHR '',''" t] by simp
next
  case (6 d s x2 k t)
  then show ?case using skip_tl_skip_shorter [of "CHR '':''" t] by simp
next
  case (7 d s x2 k t x2a v u)
  then show ?case using skip_tl_skip_shorter [of "CHR '',''" u] by simp
qed (auto dest: skip_tl_shorter)

declare json_value.simps [simp del] json_elements.simps [simp del] json_members.simps [simp del]

definition json_parse :: "string \<Rightarrow> json option" where
  \<comment> \<open>one value with white space around it\<close>
  "json_parse s = (case json_value maxNestingDepth (skip_space s) of
       Some (v, t) \<Rightarrow> if skip_space t = [] then Some v else None
     | None \<Rightarrow> None)"

definition json_Valid :: "string \<Rightarrow> bool" where
  "json_Valid s \<longleftrightarrow> json_parse s \<noteq> None"

definition json_text :: "string \<Rightarrow> string" where
  \<comment> \<open>a JSON text written with back quotes for the double quotes\<close>
  "json_text s = map (\<lambda>c. if c = CHR 0x60 then CHR 0x22 else c) s"

section \<open>Decoding into Go values\<close>

type_synonym 'a decoder = "json \<Rightarrow> 'a \<Rightarrow> 'a option"

fun dec_string :: "string decoder" where
  "dec_string (JStr s) a = Some s"
| "dec_string JNull a = Some a"
| "dec_string j a = None"

fun dec_bool :: "bool decoder" where
  "dec_bool (JBool b) a = Some b"
| "dec_bool JNull a = Some a"
| "dec_bool j a = None"

fun dec_int :: "int decoder" where
  \<comment> \<open>an int field takes a literal that strconv.ParseInt reads: no fraction, no exponent, 64 bits\<close>
  "dec_int (JNum l) a = Atoi l"
| "dec_int JNull a = Some a"
| "dec_int j a = None"

fun dec_raw :: "json option decoder" where
  \<comment> \<open>json.RawMessage: None is the nil message of an absent field\<close>
  "dec_raw j a = Some (Some j)"

fun dec_list :: "'a decoder \<Rightarrow> 'a \<Rightarrow> json list \<Rightarrow> 'a list option" where
  "dec_list f z [] = Some []"
| "dec_list f z (j # js) = (case f j z of
       None \<Rightarrow> None
     | Some x \<Rightarrow> map_option ((#) x) (dec_list f z js))"

fun dec_slice :: "'a decoder \<Rightarrow> 'a \<Rightarrow> 'a list decoder" where
  "dec_slice f z (JArr js) a = dec_list f z js"
| "dec_slice f z JNull a = Some []"
| "dec_slice f z j a = None"

function fold_name :: "string \<Rightarrow> string" where
  \<comment> \<open>the case folding of member names: ASCII letters, and the two other characters (the Kelvin
     sign and the long s) that fold to an ASCII letter\<close>
  "fold_name s =
     (if s = [] then []
      else if has_prefix s (encode_rune 8490) then CHR ''k'' # fold_name (drop 3 s)
      else if has_prefix s (encode_rune 383) then CHR ''s'' # fold_name (drop 2 s)
      else lower_char (hd s) # fold_name (tl s))"
  by pat_completeness auto
termination
  by (relation "measure length") auto

declare fold_name.simps [simp del]

lemma fold_name_ascii: "list_all is_ascii s \<Longrightarrow> fold_name s = ascii_lower s"
proof (induction s)
  case Nil
  show ?case by (subst fold_name.simps) (simp add: ascii_lower_def)
next
  case (Cons c s)
  have "\<not> has_prefix (c # s) (encode_rune 8490)" "\<not> has_prefix (c # s) (encode_rune 383)"
    using Cons.prems by (auto simp: encode_rune_def is_ascii_def)
  with Cons show ?case by (subst fold_name.simps) (simp add: ascii_lower_def)
qed

lemmas fold_eval = fold_name_ascii ascii_lower_def lower_char_def is_upper_def is_ascii_def

type_synonym 'a fields = "(string \<times> 'a decoder) list"

definition find_field :: "'a fields \<Rightarrow> string \<Rightarrow> 'a decoder option" where
  \<comment> \<open>an exact match of the name wins over a match up to case\<close>
  "find_field fs k = (case map_of fs k of
       Some f \<Rightarrow> Some f
     | None \<Rightarrow> map_option snd (find (\<lambda>(n, f). fold_name n = fold_name k) fs))"

fun dec_members :: "'a fields \<Rightarrow> (string \<times> json) list \<Rightarrow> 'a \<Rightarrow> 'a option" where
  "dec_members fs [] a = Some a"
| "dec_members fs ((k, v) # kvs) a = (case find_field fs k of
       None \<Rightarrow> dec_members fs kvs a
     | Some f \<Rightarrow> (case f v a of
           None \<Rightarrow> None
         | Some b \<Rightarrow> dec_members fs kvs b))"

fun dec_struct :: "'a fields \<Rightarrow> 'a decoder" where
  "dec_struct fs (JObj kvs) a = dec_members fs kvs a"
| "dec_struct fs JNull a = Some a"
| "dec_struct fs j a = None"

definition into :: "('r \<Rightarrow> 'a) \<Rightarrow> (('a \<Rightarrow> 'a) \<Rightarrow> 'r \<Rightarrow> 'r) \<Rightarrow> 'a decoder \<Rightarrow> 'r decoder" where
  \<comment> \<open>decode into one field of a struct, given by its selector and its update\<close>
  "into get upd f = (\<lambda>j r. map_option (\<lambda>x. upd (\<lambda>_. x) r) (f j (get r)))"

definition json_error :: go_error where
  \<comment> \<open>an error of encoding/json; its text is not modelled\<close>
  "json_error = EText ''json''"

definition json_Unmarshal :: "'a decoder \<Rightarrow> string \<Rightarrow> 'a \<Rightarrow> 'a option" where
  "json_Unmarshal f text a = (case json_parse text of None \<Rightarrow> None | Some j \<Rightarrow> f j a)"

text \<open>What every member keeps holds of the decoded struct.\<close>

lemma dec_members_inv:
  assumes "dec_members fs kvs a = Some b" "Q a"
    and "\<And>k v f x y. (k, v) \<in> set kvs \<Longrightarrow> f \<in> snd ` set fs \<Longrightarrow> Q x \<Longrightarrow> f v x = Some y \<Longrightarrow> Q y"
  shows "Q b"
  using assms
proof (induction kvs arbitrary: a)
  case (Cons kv kvs)
  obtain k v where kv: "kv = (k, v)" by (cases kv)
  have rest: "Q y" if "(k, v) \<in> set kvs" "f \<in> snd ` set fs" "Q x" "f v x = Some y" for k v f x y
    using Cons.prems(3) that by (meson list.set_intros(2))
  show ?case
  proof (cases "find_field fs k")
    case None
    with Cons.prems(1) kv have "dec_members fs kvs a = Some b" by simp
    from this Cons.prems(2) rest show ?thesis by (rule Cons.IH)
  next
    case (Some f)
    have f: "f \<in> snd ` set fs"
      using Some unfolding find_field_def
      by (cases "map_of fs k") (force simp: find_Some_iff dest: map_of_SomeD nth_mem)+
    from Cons.prems(1) Some kv obtain x where x: "f v a = Some x" "dec_members fs kvs x = Some b"
      by (auto split: option.splits)
    from Cons.prems(3) [of k v f a x] f x(1) Cons.prems(2) kv have "Q x" by simp
    from x(2) this rest show ?thesis by (rule Cons.IH)
  qed
qed simp

section \<open>Encoding\<close>

definition u_escape :: "nat \<Rightarrow> string" where
  "u_escape r = [CHR 0x5C, CHR ''u'', hex_digit (r div 4096), hex_digit (r div 256 mod 16),
     hex_digit (r div 16 mod 16), hex_digit (r mod 16)]"

definition escape_ascii :: "char \<Rightarrow> string" where
  "escape_ascii c =
     (if c = CHR 0x22 \<or> c = CHR 0x5C then [CHR 0x5C, c]
      else if c = CHR 0x08 then [CHR 0x5C, CHR ''b'']
      else if c = CHR 0x0C then [CHR 0x5C, CHR ''f'']
      else if c = CHR 0x0A then [CHR 0x5C, CHR ''n'']
      else if c = CHR 0x0D then [CHR 0x5C, CHR ''r'']
      else if c = CHR 0x09 then [CHR 0x5C, CHR ''t'']
      else if byte c < 32 \<or> c = CHR ''<'' \<or> c = CHR ''>'' \<or> c = CHR ''&'' then u_escape (byte c)
      else [c])"

function encode_body :: "string \<Rightarrow> string" where
  "encode_body [] = []"
| "encode_body (c # s) =
     (if is_ascii c then escape_ascii c @ encode_body s
      else if rune_len (c # s) = 0 then u_escape 65533 @ encode_body s
      else (let w = take (rune_len (c # s)) (c # s)
            in if w = encode_rune 8232 then u_escape 8232
               else if w = encode_rune 8233 then u_escape 8233 else w)
           @ encode_body (drop (rune_len (c # s)) (c # s)))"
  by pat_completeness auto
termination
  by (relation "measure length") (auto simp del: rune_len.simps)

declare encode_body.simps(2) [simp del]

definition encode_string :: "string \<Rightarrow> string" where
  "encode_string s = CHR 0x22 # encode_body s @ [CHR 0x22]"

fun Marshal :: "json \<Rightarrow> string" where
  "Marshal JNull = ''null''"
| "Marshal (JBool b) = (if b then ''true'' else ''false'')"
| "Marshal (JNum l) = l"
| "Marshal (JStr s) = encode_string s"
| "Marshal (JArr vs) = ''['' @ join_with '','' (map Marshal vs) @ '']''"
| "Marshal (JObj kvs) = ''{'' @ join_with '',''
     (map (\<lambda>(k, v). encode_string k @ '':'' @ Marshal v) kvs) @ ''}''"

section \<open>The elements of a string literal are read back\<close>

declare rune_len.simps(2) [simp del]

lemma hex_value_digit: "n < 16 \<Longrightarrow> hex_value (hex_digit n) = Some n"
  by (auto simp: hex_value_def hex_digit_def is_digit_def)

lemma hex4_u_escape:
  assumes "r < 65536"
  shows "hex4 (drop 2 (u_escape r @ t)) = Some (r, t)"
proof -
  have "((r div 4096 * 16 + r div 256 mod 16) * 16 + r div 16 mod 16) * 16 + r mod 16 = r"
  proof -
    have "r div 256 = r div 16 div 16" "r div 4096 = r div 16 div 16 div 16"
      by (simp_all add: div_mult2_eq [symmetric])
    then show ?thesis by presburger
  qed
  then show ?thesis using assms
    by (simp add: u_escape_def hex_value_digit less_mult_imp_div_less)
qed

lemma string_step_u_escape:
  assumes "r < 65536" "\<not> is_surrogate r"
  shows "string_step (u_escape r @ t) = Some (encode_rune r, t)"
proof -
  have "string_step (u_escape r @ t) = unicode_escape (drop 2 (u_escape r @ t))"
    by (simp add: string_step_def u_escape_def)
  then show ?thesis using assms
    by (simp add: unicode_escape_def hex4_u_escape del: drop_append)
qed

lemma string_step_ascii:
  assumes "is_ascii c"
  shows "string_step (escape_ascii c @ t) = Some ([c], t)"
proof -
  have c: "encode_rune (byte c) = [c]" "byte c < 65536" "\<not> is_surrogate (byte c)"
    using assms by (simp_all add: encode_rune_def is_ascii_def is_surrogate_def)
  have "string_step (c # t) = Some ([c], t)" if "32 \<le> byte c" "c \<noteq> CHR 0x5C"
    using that rune_len_ascii [OF assms] by (simp add: string_step_def)
  then show ?thesis
    using string_step_u_escape [of "byte c" t] c
    by (auto simp: escape_ascii_def string_step_def simple_escape_def)
qed

lemma string_step_rune:
  assumes "rune_len (c # s) \<noteq> 0" "\<not> is_ascii c"
  shows "string_step (take (rune_len (c # s)) (c # s) @ t) = Some (take (rune_len (c # s)) (c # s), t)"
proof -
  obtain k where k: "rune_len (c # s) = Suc k" using assms(1) by (cases "rune_len (c # s)") auto
  have len: "length (take k s) = k" using rune_len_le [of "c # s"] k by simp
  have "rune_len (take (Suc k) (c # s) @ t) = Suc k" using rune_len_append [OF assms(1)] k by metis
  then have "rune_len (c # take k s @ t) = Suc k" by simp
  moreover have "c \<noteq> CHR 0x5C" "\<not> byte c < 32" using assms(2) by (auto simp: is_ascii_def)
  ultimately show ?thesis
    using len unfolding string_step_def k by (simp del: length_take)
qed

lemma hd_encoded:
  "escape_ascii c \<noteq> []" "hd (escape_ascii c) \<noteq> CHR 0x22"
  "u_escape r \<noteq> []" "hd (u_escape r) \<noteq> CHR 0x22"
  by (auto simp: escape_ascii_def u_escape_def)

lemma string_body_step:
  assumes "w \<noteq> []" "hd w \<noteq> CHR 0x22" "string_step (w @ t) = Some (v, t)"
  shows "string_body (w @ t) = map_option (\<lambda>(x, u). (v @ x, u)) (string_body t)"
  using assms by (subst string_body.simps) simp

end
