(* ===== verification/Go_Float.thy ===== *)
theory Go_Float
  imports Go_Json
begin

text \<open>
  \<open>float64\<close> as far as the program uses it: reading a JSON number literal with the correct
  rounding (to nearest, ties to even, subnormals, overflow is an error), converting to an
  integer, and writing the shortest decimal that reads back. A finite value is a mantissa and a binary exponent; the sign of
  zero is not kept. Converting a float outside the 64-bit range is implementation-defined in
  Go: a field of the \<open>platform\<close> record, next to the case tables of \<open>strings.ToLower\<close>.
\<close>

datatype float64 = F64 (mant: int) (expo: int)

function bitlen :: "int \<Rightarrow> int" where
  "bitlen n = (if n \<le> 0 then 0 else 1 + bitlen (n div 2))"
  by pat_completeness auto
termination
  by (relation "measure nat") auto

declare bitlen.simps [simp del]

definition half_even :: "int \<Rightarrow> int \<Rightarrow> int" where
  \<comment> \<open>n / d rounded to the nearest integer, ties to even\<close>
  "half_even n d =
     (let q = n div d; r = n mod d
      in if 2 * r < d then q else if d < 2 * r then q + 1 else if even q then q else q + 1)"

definition scale_num :: "int \<Rightarrow> int \<Rightarrow> int" where "scale_num n e = (if e < 0 then n * 2 ^ nat (- e) else n)"
definition scale_den :: "int \<Rightarrow> int \<Rightarrow> int" where "scale_den d e = (if e < 0 then d else d * 2 ^ nat e)"

definition round_f64 :: "int \<Rightarrow> int \<Rightarrow> float64 option" where
  \<comment> \<open>the nearest double of n / d for positive n and d, None on overflow\<close>
  "round_f64 n d =
     (let e0 = max (-1074) (bitlen n - bitlen d - 53);
          e = (if 2 ^ 53 * scale_den d e0 \<le> scale_num n e0 then e0 + 1 else e0);
          m = half_even (scale_num n e) (scale_den d e)
      in if m = 0 then Some (F64 0 0)
         else if 0 < e \<and> 1024 < bitlen m + e then None
         else Some (F64 m e))"

definition literal_parts :: "string \<Rightarrow> bool \<times> string \<times> string \<times> int" where
  \<comment> \<open>sign, integer digits, fraction digits, exponent of a JSON number literal\<close>
  "literal_parts l =
     (let (neg, s) = (case l of c # t \<Rightarrow> if c = CHR ''-'' then (True, t) else (False, l) | [] \<Rightarrow> (False, []));
          i = takeWhile is_digit s; s1 = dropWhile is_digit s;
          f = (if head_is (CHR ''.'') s1 then takeWhile is_digit (tl s1) else []);
          s2 = (if head_is (CHR ''.'') s1 then dropWhile is_digit (tl s1) else s1);
          s3 = tl s2;
          x = int (nat_of_digits 0 (dropWhile (\<lambda>c. \<not> is_digit c) s3))
      in (neg, i, f, if head_is (CHR ''-'') s3 then - x else x))"

definition ParseFloat :: "string \<Rightarrow> float64 option" where
  "ParseFloat l =
     (let (neg, i, f, x) = literal_parts l;
          n = int (nat_of_digits 0 (i @ f)); k = x - int (length f);
          sg = (if neg then -1 else 1)
      in if n = 0 then Some (F64 0 0)
         else if 310 < k then None
         else if k + int (length (i @ f)) < -330 then Some (F64 0 0)
         else map_option (\<lambda>y. F64 (sg * mant y) (expo y))
           (if 0 \<le> k then round_f64 (n * 10 ^ nat k) 1 else round_f64 n (10 ^ nat (- k))))"

fun dec_float :: "float64 decoder" where
  "dec_float (JNum l) a = ParseFloat l"
| "dec_float JNull a = Some a"
| "dec_float j a = None"

definition trunc_f64 :: "float64 \<Rightarrow> int" where
  \<comment> \<open>toward zero\<close>
  "trunc_f64 x =
     (if 0 \<le> expo x then mant x * 2 ^ nat (expo x)
      else sgn (mant x) * (abs (mant x) div 2 ^ nat (- expo x)))"

record platform =
  pl_lower :: "string \<Rightarrow> string"        \<comment> \<open>strings.ToLower on text that is not ASCII\<close>
  pl_int_of_float :: "float64 \<Rightarrow> int"   \<comment> \<open>int(x) for x outside the 64-bit range\<close>

definition int_of_float :: "platform \<Rightarrow> float64 \<Rightarrow> int" where
  "int_of_float P x = (if in_int64 (trunc_f64 x) then trunc_f64 x else pl_int_of_float P x)"

definition amd64 :: platform where
  \<comment> \<open>the platform of the witnesses: CVTTSD2SI yields the smallest integer out of range\<close>
  "amd64 = \<lparr>pl_lower = ascii_lower, pl_int_of_float = (\<lambda>_. min_int64)\<rparr>"

lemmas float_eval = ParseFloat_def literal_parts_def is_digit_def Let_def head_is_def round_f64_def
  half_even_def scale_num_def scale_den_def bitlen.simps trunc_f64_def

lemma ParseFloat_half: "ParseFloat ''0.5'' = Some (F64 4503599627370496 (-53))"
  by (simp add: float_eval)

section \<open>Writing a float64\<close>

definition f64_num :: "float64 \<Rightarrow> int" where
  "f64_num x = (if 0 \<le> expo x then abs (mant x) * 2 ^ nat (expo x) else abs (mant x))"

definition f64_den :: "float64 \<Rightarrow> int" where
  "f64_den x = (if 0 \<le> expo x then 1 else 2 ^ nat (- expo x))"

definition scale10 :: "int \<Rightarrow> int \<Rightarrow> int" where
  "scale10 n k = (if 0 < k then n * 10 ^ nat k else n)"

fun magnitude :: "nat \<Rightarrow> int \<Rightarrow> int \<Rightarrow> int \<Rightarrow> int" where
  \<comment> \<open>the k for which 10^(k-1) <= n/d < 10^k, searched from a start value\<close>
  "magnitude 0 n d k = k"
| "magnitude (Suc fuel) n d k =
     (if scale10 d k \<le> scale10 n (- k) then magnitude fuel n d (k + 1)
      else if scale10 n (1 - k) < scale10 d (k - 1) then magnitude fuel n d (k - 1)
      else k)"

definition round_digits :: "int \<Rightarrow> int \<Rightarrow> int \<Rightarrow> int \<Rightarrow> int" where
  \<comment> \<open>n/d to p significant digits, as an integer of p digits (or 10^p)\<close>
  "round_digits n d k p = half_even (scale10 n (p - k)) (scale10 d (k - p))"

definition reads_as :: "float64 \<Rightarrow> int \<Rightarrow> int \<Rightarrow> bool" where
  \<comment> \<open>whether the decimal q * 10^x rounds to the float\<close>
  "reads_as y q x = (case round_f64 (scale10 q x) (scale10 1 (- x)) of
       None \<Rightarrow> False
     | Some z \<Rightarrow> f64_num z * f64_den y = f64_num y * f64_den z)"

definition shortest :: "float64 \<Rightarrow> int \<times> int" where
  \<comment> \<open>the digits and the decimal exponent of the shortest decimal that reads back as the float\<close>
  "shortest y =
     (let n = f64_num y; d = f64_den y; k = magnitude 800 n d 0;
          p = (case find (\<lambda>p. reads_as y (round_digits n d k p) (k - p)) [1..17] of Some p \<Rightarrow> p | None \<Rightarrow> 17)
      in (round_digits n d k p, k - p))"

definition format_f64 :: "float64 \<Rightarrow> string" where
  \<comment> \<open>the encoding of encoding/json: plain between 1e-6 and 1e21, otherwise with an exponent\<close>
  "format_f64 y =
     (if mant y = 0 then ''0''
      else
       (let (q, x) = shortest y; ds0 = digits_of (nat q);
            ds = rev (dropWhile (\<lambda>c. c = CHR ''0'') (rev ds0));
            pt = int (length ds0) + x;
            sign = (if mant y < 0 then ''-'' else '''') in
        if pt < -5 \<or> 21 < pt then
          sign @ [hd ds] @ (if tl ds = [] then [] else CHR ''.'' # tl ds) @ ''e'' @
            (if 0 < pt then ''+'' else ''-'') @ digits_of (nat (abs (pt - 1)))
        else if pt \<le> 0 then sign @ ''0.'' @ replicate (nat (- pt)) (CHR ''0'') @ ds
        else if int (length ds) \<le> pt then sign @ ds @ replicate (nat pt - length ds) (CHR ''0'')
        else sign @ take (nat pt) ds @ ''.'' @ drop (nat pt) ds))"

end
