(* ===== verification/Config.thy ===== *)
theory Config
  imports Go_Float
begin

text \<open>
  \<open>internal/config/config.go\<close>: the configuration read from the \<open>OMNIFEED_*\<close> variables, with
  \<open>strconv.ParseBool\<close>, \<open>strconv.Atoi\<close> and \<open>time.ParseDuration\<close> as the standard library has
  them.  The environment is a function from names to values, empty when a variable is not set.
  Durations are nanoseconds.
\<close>

section \<open>Parsing booleans and durations\<close>

definition ParseBool :: "string \<Rightarrow> bool option" where
  "ParseBool s =
     (if s \<in> {''1'', ''t'', ''T'', ''TRUE'', ''true'', ''True''} then Some True
      else if s \<in> {''0'', ''f'', ''F'', ''FALSE'', ''false'', ''False''} then Some False
      else None)"

definition two63 :: int where "two63 = 9223372036854775808"

fun leadingInt :: "int \<Rightarrow> string \<Rightarrow> (int \<times> string) option" where
  \<comment> \<open>the digits at the start, None when they exceed 2^63\<close>
  "leadingInt x [] = Some (x, [])"
| "leadingInt x (c # s) =
     (if \<not> is_digit c then Some (x, c # s)
      else if two63 div 10 < x then None
      else let y = x * 10 + int (byte c - 48) in if two63 < y then None else leadingInt y s)"

fun leadingFraction :: "int \<Rightarrow> int \<Rightarrow> bool \<Rightarrow> string \<Rightarrow> int \<times> int \<times> string" where
  \<comment> \<open>the digits of a fraction and its power of ten; digits that do not fit are skipped\<close>
  "leadingFraction x scale overflow [] = (x, scale, [])"
| "leadingFraction x scale overflow (c # s) =
     (if \<not> is_digit c then (x, scale, c # s)
      else if overflow \<or> max_int64 div 10 < x then leadingFraction x scale True s
      else let y = x * 10 + int (byte c - 48)
           in if two63 < y then leadingFraction x scale True s
              else leadingFraction y (scale * 10) False s)"

definition unitMap :: "(string \<times> int) list" where
  "unitMap = [(''ns'', 1), (''us'', 1000), ([CHR 0xC2, CHR 0xB5, CHR ''s''], 1000),
     ([CHR 0xCE, CHR 0xBC, CHR ''s''], 1000), (''ms'', 1000000), (''s'', 1000000000),
     (''m'', 60000000000), (''h'', 3600000000000)]"

definition fraction_ns :: "int \<Rightarrow> int \<Rightarrow> int \<Rightarrow> int" where
  \<comment> \<open>uint64(float64(f) * (float64(unit) / scale)), every operation rounded\<close>
  "fraction_ns f unit scale = (case (round_f64 f 1, round_f64 unit scale) of
       (Some a, Some b) \<Rightarrow> (case round_f64 (f64_num a * f64_num b) (f64_den a * f64_den b) of
           Some c \<Rightarrow> trunc_f64 c
         | None \<Rightarrow> 0)
     | _ \<Rightarrow> 0)"

definition number_or_dot :: "char \<Rightarrow> bool" where
  "number_or_dot c \<longleftrightarrow> c = CHR ''.'' \<or> is_digit c"

definition duration_part :: "string \<Rightarrow> (int \<times> string) option" where
  \<comment> \<open>one number with its unit: its nanoseconds and the rest\<close>
  "duration_part s =
     (if s = [] \<or> \<not> number_or_dot (hd s) then None
      else case leadingInt 0 s of
        None \<Rightarrow> None
      | Some (v, s1) \<Rightarrow>
         (let dot = head_is (CHR ''.'') s1;
              (f, scale, s2) = (if dot then leadingFraction 0 1 False (tl s1) else (0, 1, s1));
              pre = (length s1 \<noteq> length s);
              post = (dot \<and> length s2 \<noteq> length (tl s1));
              u = takeWhile (\<lambda>c. \<not> number_or_dot c) s2;
              s3 = dropWhile (\<lambda>c. \<not> number_or_dot c) s2
          in if \<not> pre \<and> \<not> post \<or> u = [] then None
             else case map_of unitMap u of
                 None \<Rightarrow> None
               | Some unit \<Rightarrow>
                  (if two63 div unit < v then None
                   else let v1 = v * unit + (if 0 < f then fraction_ns f unit scale else 0)
                        in if two63 < v1 then None else Some (v1, s3))))"

function duration_sum :: "int \<Rightarrow> string \<Rightarrow> int option" where
  "duration_sum d s =
     (if s = [] then Some d
      else case duration_part s of
        None \<Rightarrow> None
      | Some (v, t) \<Rightarrow> if \<not> length t < length s then None
          else if two63 < d + v then None else duration_sum (d + v) t)"
  by pat_completeness auto
termination
  by (relation "measure (\<lambda>(d, s). length s)") auto

declare duration_sum.simps [simp del]

definition ParseDuration :: "string \<Rightarrow> int option" where
  "ParseDuration s0 =
     (let neg = head_is (CHR ''-'') s0;
          s = (if neg \<or> head_is (CHR ''+'') s0 then tl s0 else s0)
      in if s = ''0'' then Some 0
         else if s = [] then None
         else case duration_sum 0 s of
             None \<Rightarrow> None
           | Some d \<Rightarrow> if neg then Some (- d) else if max_int64 < d then None else Some d)"

section \<open>The configuration\<close>

record Config =
  ListenAddr :: string
  MCPListenAddr :: string
  MCPStdio :: bool
  MetricsAddr :: string
  LogLevel :: string
  LogFormat :: string
  EnablePprof :: bool
  APIKey :: string
  AllowNoAuth :: bool
  Crawl4AIURL :: string
  Crawl4AITimeout :: int
  SearXNGURL :: string
  SearXNGTimeout :: int
  SearchMaxResults :: int
  RedditTimeout :: int
  RedditMaxRounds :: int
  RedditFormatCfg :: string
  MaxURLsPerRequest :: int
  PerDomainConcurrency :: int
  PerDomainDelay :: int
  BlockPrivateIPsCfg :: bool

definition env :: "(string \<Rightarrow> string) \<Rightarrow> string \<Rightarrow> string \<Rightarrow> string" where
  "env getenv key fallback = (let v = getenv key in if v \<noteq> [] then v else fallback)"

definition parsed :: "(string \<Rightarrow> 'a option) \<Rightarrow> (string \<Rightarrow> string) \<Rightarrow> string \<Rightarrow> 'a \<Rightarrow> 'a res" where
  \<comment> \<open>the common shape of the three typed lookups; the text of the parser's error is not modelled\<close>
  "parsed parse getenv key fallback =
     (let v = getenv key in
      if v = [] then Ok fallback
      else case parse v of
          None \<Rightarrow> Fail (EWrap (''env '' @ key) (EText ''invalid syntax''))
        | Some x \<Rightarrow> Ok x)"

definition envBool :: "(string \<Rightarrow> string) \<Rightarrow> string \<Rightarrow> bool \<Rightarrow> bool res" where
  "envBool = parsed ParseBool"

definition envInt :: "(string \<Rightarrow> string) \<Rightarrow> string \<Rightarrow> int \<Rightarrow> int res" where
  "envInt = parsed Atoi"

definition envDuration :: "(string \<Rightarrow> string) \<Rightarrow> string \<Rightarrow> int \<Rightarrow> int res" where
  "envDuration = parsed ParseDuration"

fun or_return :: "'a res \<Rightarrow> ('a \<Rightarrow> 'b res) \<Rightarrow> 'b res" where
  \<comment> \<open>if x, err = ...; err != nil return c, err\<close>
  "or_return (Ok x) k = k x"
| "or_return (Fail e) k = Fail e"
| "or_return (Panic m) k = Panic m"

definition validate :: "platform \<Rightarrow> Config \<Rightarrow> Config res" where
  "validate P c0 =
     (let c = c0\<lparr>RedditFormatCfg := ToLower (pl_lower P) (RedditFormatCfg c0)\<rparr> in
      if RedditFormatCfg c \<noteq> ''toon'' \<and> RedditFormatCfg c \<noteq> ''json'' then
        Fail (EText (''OMNIFEED_REDDIT_FORMAT must be '' @ [CHR 0x27] @ ''toon'' @ [CHR 0x27] @ '' or '' @ [CHR 0x27] @
          ''json'' @ [CHR 0x27] @ '', got '' @ go_quote (RedditFormatCfg c)))
      else if SearchMaxResults c < 1 \<or> SearchMaxResults c > 100 then
        Fail (EText (''OMNIFEED_SEARCH_MAX_RESULTS must be between 1 and 100, got '' @ Itoa (SearchMaxResults c)))
      else if Crawl4AIURL c = [] then
        Fail (EText ''OMNIFEED_CRAWL4AI_URL is required: every engine (Reddit and the generic fallback) fetches through crawl4ai'')
      else Ok c)"

definition Load :: "platform \<Rightarrow> (string \<Rightarrow> string) \<Rightarrow> Config res" where
  "Load P getenv =
     or_return (envBool getenv ''OMNIFEED_MCP_STDIO'' False) (\<lambda>stdio.
     or_return (envBool getenv ''OMNIFEED_ENABLE_PPROF'' False) (\<lambda>pprof.
     or_return (envBool getenv ''OMNIFEED_DEV_NO_AUTH'' False) (\<lambda>noauth.
     or_return (envBool getenv ''OMNIFEED_BLOCK_PRIVATE_IPS'' True) (\<lambda>block.
     or_return (envDuration getenv ''OMNIFEED_CRAWL4AI_TIMEOUT'' 90000000000) (\<lambda>ctimeout.
     or_return (envDuration getenv ''OMNIFEED_SEARXNG_TIMEOUT'' 15000000000) (\<lambda>stimeout.
     or_return (envInt getenv ''OMNIFEED_SEARCH_MAX_RESULTS'' 25) (\<lambda>maxresults.
     or_return (envDuration getenv ''OMNIFEED_REDDIT_TIMEOUT'' 240000000000) (\<lambda>rtimeout.
     or_return (envInt getenv ''OMNIFEED_REDDIT_MAX_ROUNDS'' 3) (\<lambda>rounds.
     or_return (envInt getenv ''OMNIFEED_MAX_URLS_PER_REQUEST'' 30) (\<lambda>maxurls.
     or_return (envInt getenv ''OMNIFEED_PER_DOMAIN_CONCURRENCY'' 2) (\<lambda>concurrency.
     or_return (envDuration getenv ''OMNIFEED_PER_DOMAIN_DELAY'' 1500000000) (\<lambda>delay.
       validate P \<lparr>ListenAddr = env getenv ''OMNIFEED_LISTEN_ADDR'' '':8080'',
         MCPListenAddr = env getenv ''OMNIFEED_MCP_LISTEN_ADDR'' '':8081'',
         MCPStdio = stdio,
         MetricsAddr = env getenv ''OMNIFEED_METRICS_ADDR'' '':9090'',
         LogLevel = env getenv ''OMNIFEED_LOG_LEVEL'' ''info'',
         LogFormat = env getenv ''OMNIFEED_LOG_FORMAT'' ''json'',
         EnablePprof = pprof,
         APIKey = getenv ''OMNIFEED_API_KEY'',
         AllowNoAuth = noauth,
         Crawl4AIURL = env getenv ''OMNIFEED_CRAWL4AI_URL'' [],
         Crawl4AITimeout = ctimeout,
         SearXNGURL = env getenv ''OMNIFEED_SEARXNG_URL'' [],
         SearXNGTimeout = stimeout,
         SearchMaxResults = maxresults,
         RedditTimeout = rtimeout,
         RedditMaxRounds = rounds,
         RedditFormatCfg = env getenv ''OMNIFEED_REDDIT_FORMAT'' ''toon'',
         MaxURLsPerRequest = maxurls,
         PerDomainConcurrency = concurrency,
         PerDomainDelay = delay,
         BlockPrivateIPsCfg = block\<rparr>))))))))))))"

section \<open>Lemmas\<close>

lemma nat_of_digits_mono: "k \<le> nat_of_digits k ds"
proof (induction ds arbitrary: k)
  case (Cons c ds)
  have "k \<le> 10 * k + (byte c - 48)" by simp
  also have "\<dots> \<le> nat_of_digits (10 * k + (byte c - 48)) ds" by (rule Cons.IH)
  finally show ?case by simp
qed simp

lemma leadingInt_digits:
  "list_all is_digit ds \<Longrightarrow> \<not> is_digit c \<Longrightarrow> int (nat_of_digits k ds) \<le> two63 \<Longrightarrow>
     leadingInt (int k) (ds @ c # s) = Some (int (nat_of_digits k ds), c # s)"
proof (induction ds arbitrary: k)
  case (Cons d ds)
  let ?k = "10 * k + (byte d - 48)"
  have "?k \<le> nat_of_digits ?k ds" by (rule nat_of_digits_mono)
  with Cons.prems(3) have k: "int ?k \<le> two63" by simp
  moreover from k have "\<not> two63 div 10 < int k" by (simp add: two63_def)
  ultimately show ?case
    using Cons.prems Cons.IH [of ?k] by (simp add: Let_def mult.commute)
qed simp

lemma leadingInt_nonneg: "leadingInt x s = Some (v, t) \<Longrightarrow> 0 \<le> x \<Longrightarrow> 0 \<le> v"
  by (induction x s rule: leadingInt.induct) (auto simp: Let_def split: if_splits)

lemma duration_sum_range:
  "duration_sum d s = Some n \<Longrightarrow> d \<le> two63 \<Longrightarrow> 0 \<le> d \<Longrightarrow>
     (\<And>u v t. duration_part u = Some (v, t) \<Longrightarrow> 0 \<le> v) \<Longrightarrow> 0 \<le> n \<and> n \<le> two63"
proof (induction d s rule: duration_sum.induct)
  case (1 d s)
  from 1(2) show ?case
    by (subst (asm) duration_sum.simps)
       (use 1 in \<open>auto split: if_splits option.splits prod.splits\<close>)
qed

lemma half_even_nonneg: "0 \<le> n \<Longrightarrow> 0 < d \<Longrightarrow> 0 \<le> half_even n d"
  by (auto simp: half_even_def Let_def pos_imp_zdiv_nonneg_iff)

lemma round_f64_nonneg: "round_f64 n d = Some y \<Longrightarrow> 0 \<le> n \<Longrightarrow> 0 < d \<Longrightarrow> 0 \<le> mant y"
proof -
  assume r: "round_f64 n d = Some y" "0 \<le> n" "0 < d"
  then have "0 \<le> half_even (scale_num n e) (scale_den d e)" for e
    by (intro half_even_nonneg) (simp_all add: scale_num_def scale_den_def)
  with r(1) show ?thesis by (auto simp: round_f64_def Let_def split: if_splits)
qed

lemma trunc_nonneg: "0 \<le> mant x \<Longrightarrow> 0 \<le> trunc_f64 x"
  by (auto simp: trunc_f64_def sgn_if pos_imp_zdiv_nonneg_iff)

lemma f64_pos: "0 \<le> f64_num x" "0 < f64_den x"
  by (simp_all add: f64_num_def f64_den_def)

lemma fraction_ns_nonneg: "0 \<le> f \<Longrightarrow> 0 \<le> unit \<Longrightarrow> 0 < scale \<Longrightarrow> 0 \<le> fraction_ns f unit scale"
  using f64_pos
  by (auto simp: fraction_ns_def split: option.splits
      intro!: trunc_nonneg round_f64_nonneg mult_nonneg_nonneg mult_pos_pos)

lemma leadingFraction_pos: "leadingFraction x scale ov s = (f, sc, t) \<Longrightarrow> 0 < scale \<Longrightarrow> 0 < sc"
  by (induction x scale ov s rule: leadingFraction.induct) (auto simp: Let_def split: if_splits)

lemma unitMap_pos: "map_of unitMap u = Some n \<Longrightarrow> 0 < n"
  by (auto simp: unitMap_def split: if_splits)

lemma duration_part_nonneg: "duration_part s = Some (v, t) \<Longrightarrow> 0 \<le> v"
proof -
  assume d: "duration_part s = Some (v, t)"
  then obtain v0 s1 where l: "leadingInt 0 s = Some (v0, s1)"
    by (auto simp: duration_part_def split: if_splits option.splits)
  obtain f scale s2 where
    f: "(if head_is (CHR ''.'') s1 then leadingFraction 0 1 False (tl s1) else (0, 1, s1)) = (f, scale, s2)"
    by (metis prod_cases3)
  then have "0 < scale" by (auto split: if_splits dest: leadingFraction_pos)
  moreover have "0 \<le> v0" using leadingInt_nonneg [OF l] by simp
  moreover obtain unit where "map_of unitMap (takeWhile (\<lambda>c. \<not> number_or_dot c) s2) = Some unit"
    "v = v0 * unit + (if 0 < f then fraction_ns f unit scale else 0)"
    using d l f by (auto simp: duration_part_def Let_def split: if_splits option.splits)
  ultimately show ?thesis
    by (auto dest!: unitMap_pos intro!: add_nonneg_nonneg mult_nonneg_nonneg fraction_ns_nonneg)
qed

lemma ParseDuration_range: "ParseDuration s = Some d \<Longrightarrow> in_int64 d"
proof -
  assume p: "ParseDuration s = Some d"
  show ?thesis
  proof (cases "d = 0")
    case False
    with p obtain n t where n: "duration_sum 0 t = Some n" "d = - n \<or> (d = n \<and> n \<le> max_int64)"
      by (auto simp: ParseDuration_def Let_def split: if_splits option.splits)
    have "0 \<le> n \<and> n \<le> two63"
      by (rule duration_sum_range [OF n(1)]) (auto simp: two63_def dest: duration_part_nonneg)
    with n(2) show ?thesis by (auto simp: in_int64_def two63_def min_int64_def max_int64_def)
  qed (simp add: in_int64_def min_int64_def max_int64_def)
qed

lemma or_return_Ok [go_result]: "or_return r k = Ok y \<longleftrightarrow> (\<exists>x. r = Ok x \<and> k x = Ok y)"
  by (cases r) auto

lemma parsed_Ok [go_result]:
  "parsed parse getenv key fb = Ok x \<longleftrightarrow> (if getenv key = [] then x = fb else parse (getenv key) = Some x)"
  by (auto simp: parsed_def Let_def split: option.splits)

lemma validate_Ok:
  "validate P c0 = Ok c \<Longrightarrow> c = c0\<lparr>RedditFormatCfg := RedditFormatCfg c\<rparr> \<and>
     RedditFormatCfg c \<in> {''toon'', ''json''} \<and> 1 \<le> SearchMaxResults c \<and> SearchMaxResults c \<le> 100 \<and>
     Crawl4AIURL c \<noteq> []"
  by (auto simp: validate_def Let_def split: if_splits)

lemma ParseBool_Nil: "ParseBool [] = None"
  by (simp add: ParseBool_def)

lemma unit_names: "list_all (\<lambda>(u, unit). u \<noteq> [] \<and> list_all (\<lambda>c. \<not> number_or_dot c) u) unitMap"
  by code_simp

lemma distinct_units: "distinct (map fst unitMap)" "list_all (\<lambda>(u, unit). 1 \<le> unit) unitMap"
  by code_simp+

lemma Load_facts:
  assumes "Load P getenv = Ok c"
  shows "Crawl4AIURL c = getenv ''OMNIFEED_CRAWL4AI_URL'' \<and> Crawl4AIURL c \<noteq> [] \<and>
    RedditFormatCfg c \<in> {''toon'', ''json''} \<and> SearchMaxResults c \<in> {1..100} \<and>
    in_int64 (RedditTimeout c) \<and> in_int64 (Crawl4AITimeout c) \<and> in_int64 (PerDomainDelay c) \<and>
    (AllowNoAuth c \<longleftrightarrow> ParseBool (getenv ''OMNIFEED_DEV_NO_AUTH'') = Some True) \<and>
    (BlockPrivateIPsCfg c \<longleftrightarrow> ParseBool (getenv ''OMNIFEED_BLOCK_PRIVATE_IPS'') \<noteq> Some False) \<and>
    APIKey c = getenv ''OMNIFEED_API_KEY''"
proof -
  obtain c0 where v: "validate P c0 = Ok c" "APIKey c0 = getenv ''OMNIFEED_API_KEY''"
    "Crawl4AIURL c0 = getenv ''OMNIFEED_CRAWL4AI_URL''"
    "envBool getenv ''OMNIFEED_DEV_NO_AUTH'' False = Ok (AllowNoAuth c0)"
    "envBool getenv ''OMNIFEED_BLOCK_PRIVATE_IPS'' True = Ok (BlockPrivateIPsCfg c0)"
    "envDuration getenv ''OMNIFEED_REDDIT_TIMEOUT'' 240000000000 = Ok (RedditTimeout c0)"
    "envDuration getenv ''OMNIFEED_CRAWL4AI_TIMEOUT'' 90000000000 = Ok (Crawl4AITimeout c0)"
    "envDuration getenv ''OMNIFEED_PER_DOMAIN_DELAY'' 1500000000 = Ok (PerDomainDelay c0)"
    using assms unfolding Load_def or_return_Ok by (elim exE conjE) (auto simp: env_def Let_def)
  from validate_Ok [OF v(1)] have c: "c = c0\<lparr>RedditFormatCfg := RedditFormatCfg c\<rparr>"
    "RedditFormatCfg c \<in> {''toon'', ''json''}" "1 \<le> SearchMaxResults c" "SearchMaxResults c \<le> 100"
    "Crawl4AIURL c \<noteq> []" by blast+
  have same: "APIKey c = APIKey c0" "Crawl4AIURL c = Crawl4AIURL c0" "AllowNoAuth c = AllowNoAuth c0"
    "BlockPrivateIPsCfg c = BlockPrivateIPsCfg c0" "RedditTimeout c = RedditTimeout c0"
    "Crawl4AITimeout c = Crawl4AITimeout c0" "PerDomainDelay c = PerDomainDelay c0"
    by (subst c(1), simp)+
  have "in_int64 240000000000" "in_int64 90000000000" "in_int64 1500000000"
    by (simp_all add: in_int64_def min_int64_def max_int64_def)
  with v(6-8) have "in_int64 (RedditTimeout c0)" "in_int64 (Crawl4AITimeout c0)" "in_int64 (PerDomainDelay c0)"
    unfolding envDuration_def parsed_Ok by (auto dest: ParseDuration_range split: if_splits)
  moreover have "AllowNoAuth c0 \<longleftrightarrow> ParseBool (getenv ''OMNIFEED_DEV_NO_AUTH'') = Some True"
    "BlockPrivateIPsCfg c0 \<longleftrightarrow> ParseBool (getenv ''OMNIFEED_BLOCK_PRIVATE_IPS'') \<noteq> Some False"
    using v(4,5) ParseBool_Nil unfolding envBool_def parsed_Ok by (auto split: if_splits)
  ultimately show ?thesis using c v(2,3) by (simp add: same)
qed

section \<open>Properties\<close>


definition minimal_env :: "string \<Rightarrow> string" where
  "minimal_env key = (if key = ''OMNIFEED_CRAWL4AI_URL'' then ''http://c:11235/crawl'' else [])"


text \<open>
  A whole number of any unit is read exactly, in decimal and without overflow: printing a
  count and appending the unit's name reads back as the count times the unit.
\<close>

theorem ParseDuration_whole:
  assumes "(u, unit) \<in> set unitMap" "int n * unit \<le> max_int64"
  shows "ParseDuration (digits_of n @ u) = Some (int n * unit)"
proof -
  obtain c u' where u: "u = c # u'" "\<not> number_or_dot c" "list_all (\<lambda>c. \<not> number_or_dot c) u'"
    using assms(1) unit_names by (cases u) (auto simp: list_all_iff)
  have unit: "map_of unitMap u = Some unit" "1 \<le> unit"
    using assms(1) distinct_units by (auto simp: list_all_iff)
  have "int n * 1 \<le> int n * unit" using unit(2) by (intro mult_left_mono) simp_all
  then have n: "int n \<le> max_int64" using assms(2) by simp
  have ds: "list_all is_digit (digits_of n)" "digits_of n \<noteq> []" by (simp_all add: digits_of_digits)
  then obtain d ds' where d: "digits_of n = d # ds'" "is_digit d" by (cases "digits_of n") auto
  have nd: "\<not> is_digit c" "c \<noteq> CHR ''.''" using u(2) by (simp_all add: number_or_dot_def)
  have int: "leadingInt 0 (digits_of n @ u) = Some (int n, u)"
    using leadingInt_digits [OF ds(1) nd(1), of 0 u'] n
    by (simp add: u(1) nat_of_digits_of two63_def max_int64_def)
  have name: "takeWhile (\<lambda>c. \<not> number_or_dot c) u = u" "dropWhile (\<lambda>c. \<not> number_or_dot c) u = []"
    using u by (simp_all add: list_all_iff takeWhile_eq_all_conv)
  have fits: "\<not> two63 div unit < int n"
  proof -
    have "int n * unit div unit \<le> two63 div unit"
      using assms(2) unit(2) by (intro zdiv_mono1) (simp_all add: two63_def max_int64_def)
    then show ?thesis using unit(2) by simp
  qed
  have start: "number_or_dot (hd (digits_of n @ u))" "\<not> head_is (CHR ''.'') u" "u \<noteq> []"
    using d u(1) nd(2) by (simp_all add: number_or_dot_def head_is_def)
  have part: "duration_part (digits_of n @ u) = Some (int n * unit, [])"
    using start fits ds(2) assms(2)
    by (simp add: duration_part_def Let_def int name unit(1)) (simp add: two63_def max_int64_def)
  have "duration_sum 0 (digits_of n @ u) = Some (int n * unit)"
    by (subst duration_sum.simps) (use part d assms(2) in \<open>simp add: duration_sum.simps [of _ "[]"] two63_def max_int64_def\<close>)
  moreover have "d \<noteq> CHR ''-''" "d \<noteq> CHR ''+''" using d(2) by (auto simp: is_digit_def)
  moreover have "digits_of n @ u \<noteq> ''0''" using d(1) u(1) by simp
  ultimately show ?thesis
    using d assms(2) u(1) by (simp add: ParseDuration_def head_is_def Let_def)
qed

theorem ParseDuration_whole_witness: "ParseDuration (digits_of 90 @ ''s'') = Some 90000000000"
  using ParseDuration_whole [of "''s''" 1000000000 90] by (simp add: unitMap_def max_int64_def)

end
