(* ===== verification/Go_Net.thy ===== *)
theory Go_Net
  imports Go_Prelude "HOL-Library.Word"
begin

unbundle bit_operations_syntax

text \<open>
  The parts of the standard library's \<open>net\<close> package the SSRF guard relies on: IP addresses
  as byte slices of length 4 or 16, the textual parser behind \<open>net.ParseIP\<close>, and the
  address predicates (\<open>IsLoopback\<close>, \<open>IsPrivate\<close>, ...).
\<close>

type_synonym IP = "8 word list"

section \<open>Textual addresses\<close>

definition v4_field :: "string \<Rightarrow> 8 word option" where
  \<comment> \<open>one dotted-decimal field: 0 to 255 and no leading zero\<close>
  "v4_field f =
     (if f = [] \<or> \<not> list_all is_digit f then None
      else if 1 < length f \<and> hd f = CHR ''0'' then None
      else if 255 < nat_of_digits 0 f then None
      else Some (word_of_nat (nat_of_digits 0 f)))"

definition parseIPv4 :: "string \<Rightarrow> IP option" where
  "parseIPv4 s = (case map v4_field (split_at CHR ''.'' s) of
       [Some a, Some b, Some c, Some d] \<Rightarrow> Some [a, b, c, d]
     | _ \<Rightarrow> None)"

definition is_hex :: "char \<Rightarrow> bool" where
  "is_hex c \<longleftrightarrow> is_digit c \<or> (97 \<le> byte c \<and> byte c \<le> 102) \<or> (65 \<le> byte c \<and> byte c \<le> 70)"

definition unhex :: "char \<Rightarrow> nat" where
  "unhex c = (if is_digit c then byte c - 48
              else if 97 \<le> byte c then byte c - 87 else byte c - 55)"

definition hex_value :: "string \<Rightarrow> nat" where
  "hex_value s = foldl (\<lambda>n c. 16 * n + unhex c) 0 s"

text \<open>
  The loop of \<open>netip.parseIPv6\<close> over the hexadecimal groups: \<open>n\<close> groups are still free,
  \<open>acc\<close> holds the bytes read, \<open>ell\<close> where the ellipsis \<open>::\<close> stood. It returns the unread
  rest of the string, the bytes and the ellipsis.
\<close>

fun v6_groups :: "nat \<Rightarrow> string \<Rightarrow> IP \<Rightarrow> nat option \<Rightarrow> (string \<times> IP \<times> nat option) option" where
  "v6_groups 0 s acc ell = Some (s, acc, ell)"
| "v6_groups (Suc n) s acc ell =
     (let g = takeWhile is_hex s; r = drop (length g) s in
      if g = [] \<or> 4 < length g then None
      else if r \<noteq> [] \<and> hd r = CHR ''.'' then
        (if (ell = None \<and> length acc \<noteq> 12) \<or> 16 < length acc + 4 then None
         else case parseIPv4 s of
             None \<Rightarrow> None
           | Some q \<Rightarrow> Some ([], acc @ q, ell))
      else
        (let acc' = acc @ [word_of_nat (hex_value g div 256), word_of_nat (hex_value g mod 256)] in
         case r of
           [] \<Rightarrow> Some ([], acc', ell)
         | c # r1 \<Rightarrow>
             if c \<noteq> CHR '':'' \<or> r1 = [] then None
             else if hd r1 = CHR '':'' then
               (if ell \<noteq> None then None
                else if tl r1 = [] then Some ([], acc', Some (length acc'))
                else v6_groups n (tl r1) acc' (Some (length acc')))
             else v6_groups n r1 acc' ell))"

definition parseIPv6 :: "string \<Rightarrow> (IP \<times> string) option" where
  \<comment> \<open>the address and its zone\<close>
  "parseIPv6 s0 =
     (let (s1, zone, has_zone) = cut_at s0 CHR ''%'' in
      if has_zone \<and> zone = [] then None
      else
       (let lead = has_prefix s1 ''::''; s = (if lead then drop 2 s1 else s1) in
        if lead \<and> s = [] then Some (replicate 16 0, zone)
        else case v6_groups 8 s [] (if lead then Some 0 else None) of
            None \<Rightarrow> None
          | Some (rest, acc, ell) \<Rightarrow>
              if rest \<noteq> [] then None
              else if length acc < 16 then
                (case ell of
                   None \<Rightarrow> None
                 | Some e \<Rightarrow> Some (take e acc @ replicate (16 - length acc) 0 @ drop e acc, zone))
              else if ell \<noteq> None then None
              else Some (acc, zone)))"

definition ParseAddr :: "string \<Rightarrow> (IP \<times> string) option" where
  \<comment> \<open>netip.ParseAddr: the first of dot, colon and percent decides\<close>
  "ParseAddr s = (case dropWhile (\<lambda>c. c \<notin> {CHR ''.'', CHR '':'', CHR ''%''}) s of
       [] \<Rightarrow> None
     | c # _ \<Rightarrow> if c = CHR ''.'' then map_option (\<lambda>a. (a, [])) (parseIPv4 s)
                else if c = CHR '':'' then parseIPv6 s
                else None)"

definition v4_in_v6 :: "IP \<Rightarrow> IP" where
  "v4_in_v6 ip = (if length ip = 4 then replicate 10 0 @ [255, 255] @ ip else ip)"

definition ParseIP :: "string \<Rightarrow> IP option" where
  \<comment> \<open>net.ParseIP: the 16-byte form; an address with a zone is refused\<close>
  "ParseIP s = (case ParseAddr s of
       None \<Rightarrow> None
     | Some (a, zone) \<Rightarrow> if zone \<noteq> [] then None else Some (v4_in_v6 a))"

section \<open>Address predicates\<close>

definition To4 :: "IP \<Rightarrow> IP option" where
  "To4 ip =
     (if length ip = 4 then Some ip
      else if length ip = 16 \<and> take 10 ip = replicate 10 0 \<and> ip ! 10 = 255 \<and> ip ! 11 = 255
        then Some (drop 12 ip)
      else None)"

definition IPv6loopback :: IP where
  "IPv6loopback = replicate 15 0 @ [1]"

definition ip_equal :: "IP \<Rightarrow> IP \<Rightarrow> bool" where
  \<comment> \<open>IP.Equal: an IPv4 address equals its IPv6-mapped form\<close>
  "ip_equal a b \<longleftrightarrow> (length a = length b \<and> a = b) \<or>
     (length a \<noteq> length b \<and> length a \<in> {4, 16} \<and> length b \<in> {4, 16} \<and> v4_in_v6 a = v4_in_v6 b)"

definition IsUnspecified :: "IP \<Rightarrow> bool" where
  "IsUnspecified ip \<longleftrightarrow> ip_equal ip (v4_in_v6 [0, 0, 0, 0]) \<or> ip_equal ip (replicate 16 0)"

definition IsLoopback :: "IP \<Rightarrow> bool" where
  "IsLoopback ip = (case To4 ip of
       Some ip4 \<Rightarrow> ip4 ! 0 = 127
     | None \<Rightarrow> ip_equal ip IPv6loopback)"

definition IsPrivate :: "IP \<Rightarrow> bool" where
  "IsPrivate ip = (case To4 ip of
       Some ip4 \<Rightarrow> ip4 ! 0 = 10 \<or> (ip4 ! 0 = 172 \<and> ip4 ! 1 AND 240 = 16) \<or>
                   (ip4 ! 0 = 192 \<and> ip4 ! 1 = 168)
     | None \<Rightarrow> length ip = 16 \<and> ip ! 0 AND 254 = 252)"

definition IsMulticast :: "IP \<Rightarrow> bool" where
  "IsMulticast ip = (case To4 ip of
       Some ip4 \<Rightarrow> ip4 ! 0 AND 240 = 224
     | None \<Rightarrow> length ip = 16 \<and> ip ! 0 = 255)"

definition IsLinkLocalMulticast :: "IP \<Rightarrow> bool" where
  "IsLinkLocalMulticast ip = (case To4 ip of
       Some ip4 \<Rightarrow> ip4 ! 0 = 224 \<and> ip4 ! 1 = 0 \<and> ip4 ! 2 = 0
     | None \<Rightarrow> length ip = 16 \<and> ip ! 0 = 255 \<and> ip ! 1 AND 15 = 2)"

definition IsLinkLocalUnicast :: "IP \<Rightarrow> bool" where
  "IsLinkLocalUnicast ip = (case To4 ip of
       Some ip4 \<Rightarrow> ip4 ! 0 = 169 \<and> ip4 ! 1 = 254
     | None \<Rightarrow> length ip = 16 \<and> ip ! 0 = 254 \<and> ip ! 1 AND 192 = 128)"

lemmas ip_predicates = IsUnspecified_def IsLoopback_def IsPrivate_def IsMulticast_def
  IsLinkLocalMulticast_def IsLinkLocalUnicast_def

section \<open>Printing\<close>

fun hex_of :: "nat \<Rightarrow> string" where
  \<comment> \<open>in lower case and without leading zeros\<close>
  "hex_of n = (if n < 16 then [hex_digit n] else hex_of (n div 16) @ [hex_digit (n mod 16)])"

declare hex_of.simps [simp del]

definition v6_text :: "IP \<Rightarrow> string" where
  \<comment> \<open>the first of the longest runs of at least two zero groups is left out\<close>
  "v6_text ip =
     (let gs = map (\<lambda>i. 256 * unat (ip ! (2 * i)) + unat (ip ! (2 * i + 1))) [0..<8];
          (start, len) = foldl (\<lambda>(s, n) i. let l = length (takeWhile (\<lambda>g. g = 0) (drop i gs)) in
            if 2 \<le> l \<and> n < l then (i, l) else (s, n)) (0, 0) [0..<8]
      in if len = 0 then join_with '':'' (map hex_of gs)
         else join_with '':'' (map hex_of (take start gs)) @ ''::'' @ join_with '':'' (map hex_of (drop (start + len) gs)))"

definition ip_String :: "IP \<Rightarrow> string" where
  "ip_String ip =
     (if ip = [] then ''<nil>''
      else case To4 ip of
        Some ip4 \<Rightarrow> join_with ''.'' (map (\<lambda>b. digits_of (unat b)) ip4)
      | None \<Rightarrow> if length ip = 16 then v6_text ip
          else CHR ''?'' # concat (map (\<lambda>b. [hex_digit (unat b div 16), hex_digit (unat b mod 16)]) ip))"

section \<open>Facts\<close>

lemma ip_String_v4: "ip_String [127, 0, 0, 1] = ''127.0.0.1''"
  by code_simp

lemma ip_String_loopback: "ip_String IPv6loopback = ''::1''"
  by code_simp

lemma To4_v4 [simp]: "To4 [a, b, c, d] = Some [a, b, c, d]"
  by (simp add: To4_def)

lemma To4_mapped [simp]: "To4 (v4_in_v6 [a, b, c, d]) = Some [a, b, c, d]"
  by (simp add: To4_def v4_in_v6_def numeral_eq_Suc nth_append)

lemma length_v4_in_v6 [simp]: "length ip = 4 \<Longrightarrow> length (v4_in_v6 ip) = 16"
  by (simp add: v4_in_v6_def)

lemma length_parseIPv4: "parseIPv4 s = Some ip \<Longrightarrow> length ip = 4"
  by (auto simp: parseIPv4_def split: list.splits option.splits)

text \<open>Masked bytes as ranges, decided over the 256 values of a byte.\<close>

lemma byte_word_cases:
  assumes "\<forall>n \<in> set [0..<256]. P (word_of_nat n :: 8 word)"
  shows "P x"
proof -
  have "unat x \<in> set [0..<256]" using unsigned_less [of x] by simp
  with assms have "P (word_of_nat (unat x))" by blast
  then show ?thesis by simp
qed

lemma mask_240: "(x :: 8 word) AND 240 = 16 \<longleftrightarrow> 16 \<le> unat x \<and> unat x < 32"
  by (rule byte_word_cases [where x = x]) code_simp

lemma mask_240_multicast: "(x :: 8 word) AND 240 = 224 \<longleftrightarrow> 224 \<le> unat x \<and> unat x < 240"
  by (rule byte_word_cases [where x = x]) code_simp

lemma mask_254: "(x :: 8 word) AND 254 = 252 \<longleftrightarrow> unat x = 252 \<or> unat x = 253"
  by (rule byte_word_cases [where x = x]) code_simp

lemma mask_192: "(x :: 8 word) AND 192 = 128 \<longleftrightarrow> 128 \<le> unat x \<and> unat x < 192"
  by (rule byte_word_cases [where x = x]) code_simp

end
