(* ===== verification/Go_World.thy ===== *)
theory Go_World
  imports Domain_Model Go_Net
begin

text \<open>
  What the program asks of the outside: one HTTP exchange, waiting on a timer or the
  context, a random number, a DNS lookup, the per-domain limiter and the metric counters.
  An environment is a \<open>'w sys\<close>, a record of these operations over an arbitrary state
  \<open>'w\<close> which every call threads; the theorems hold for every environment. \<open>logged\<close>
  instruments an environment with the list of calls made, for the theorems about which
  calls a component makes, how many and in which order.
\<close>

datatype ctx =
    Background
  | RequestCtx
  | WithTimeout ctx int   \<comment> \<open>context.WithTimeout(ctx, d), d in nanoseconds\<close>

record http_request =
  req_method :: string
  req_url :: string
  req_body :: "string option"
  req_headers :: "(string \<times> string) list"

text \<open>
  The body of a response is the bytes the stream delivers, then either EOF or a read error.
\<close>

record http_response =
  resp_status :: int
  resp_retry_after :: string
  resp_body :: string
  resp_read_err :: "go_error option"

definition read_all_limit :: "nat \<Rightarrow> http_response \<Rightarrow> string res" where
  \<comment> \<open>io.ReadAll(io.LimitReader(resp.Body, n))\<close>
  "read_all_limit n r =
     (if n \<le> length (resp_body r) then Ok (take n (resp_body r))
      else case resp_read_err r of None \<Rightarrow> Ok (resp_body r) | Some e \<Rightarrow> Fail e)"

datatype metric =
    CrawlMetric string string string string     \<comment> \<open>engine, tenant, status, reason\<close>
  | SearchMetric string string                  \<comment> \<open>searcher, status\<close>

record 'w sys =
  sys_http :: "ctx \<Rightarrow> http_request \<Rightarrow> 'w \<Rightarrow> (go_error + http_response) \<times> 'w"
  sys_wait :: "ctx \<Rightarrow> int \<Rightarrow> 'w \<Rightarrow> go_error option \<times> 'w"
  sys_rand :: "int \<Rightarrow> 'w \<Rightarrow> int \<times> 'w"
  sys_lookup :: "string \<Rightarrow> 'w \<Rightarrow> IP list option \<times> 'w"
  sys_acquire :: "string \<Rightarrow> 'w \<Rightarrow> 'w"
  sys_release :: "string \<Rightarrow> 'w \<Rightarrow> 'w"
  sys_observe :: "metric \<Rightarrow> 'w \<Rightarrow> 'w"

text \<open>
  \<open>rand.Int63n(n)\<close> returns a number in \<open>[0, n)\<close>: the documented behaviour of the
  generator, as a hypothesis on the environment where a theorem needs it.
\<close>

definition rand_in_range :: "'w sys \<Rightarrow> bool" where
  "rand_in_range S \<longleftrightarrow> (\<forall>n w. 0 < n \<longrightarrow> 0 \<le> fst (sys_rand S n w) \<and> fst (sys_rand S n w) < n)"

definition answers :: "'w sys \<Rightarrow> ctx \<Rightarrow> http_request \<Rightarrow> http_response \<Rightarrow> bool" where
  \<comment> \<open>in some state the outside answers this request with this response\<close>
  "answers S c q resp \<longleftrightarrow> (\<exists>w. fst (sys_http S c q w) = Inr resp)"

text \<open>Sequencing: continue with the value, or return the error or the panic.\<close>

fun andThen :: "'a res \<times> 'w \<Rightarrow> ('a \<Rightarrow> 'w \<Rightarrow> 'b res \<times> 'w) \<Rightarrow> 'b res \<times> 'w" where
  "andThen (Ok x, w) k = k x w"
| "andThen (Fail e, w) k = (Fail e, w)"
| "andThen (Panic m, w) k = (Panic m, w)"

lemma andThen_Ok [go_result]:
  "fst (andThen r k) = Ok y \<longleftrightarrow> (\<exists>x. fst r = Ok x \<and> fst (k x (snd r)) = Ok y)"
  by (cases r; cases "fst r") auto

section \<open>The instrumented environment\<close>

datatype event =
    EvHttp ctx http_request
  | EvWait int
  | EvRand int
  | EvLookup string
  | EvAcquire string
  | EvRelease string
  | EvMetric metric

definition logged :: "'w sys \<Rightarrow> ('w \<times> event list) sys" where
  "logged S = \<lparr>
     sys_http = (\<lambda>c q (w, l). case sys_http S c q w of (r, w') \<Rightarrow> (r, (w', l @ [EvHttp c q]))),
     sys_wait = (\<lambda>c d (w, l). case sys_wait S c d w of (r, w') \<Rightarrow> (r, (w', l @ [EvWait d]))),
     sys_rand = (\<lambda>n (w, l). case sys_rand S n w of (r, w') \<Rightarrow> (r, (w', l @ [EvRand n]))),
     sys_lookup = (\<lambda>h (w, l). case sys_lookup S h w of (r, w') \<Rightarrow> (r, (w', l @ [EvLookup h]))),
     sys_acquire = (\<lambda>h (w, l). (sys_acquire S h w, l @ [EvAcquire h])),
     sys_release = (\<lambda>h (w, l). (sys_release S h w, l @ [EvRelease h])),
     sys_observe = (\<lambda>m (w, l). (sys_observe S m w, l @ [EvMetric m])) \<rparr>"

lemma logged_simps [simp]:
  "sys_http (logged S) c q (w, l) = (fst (sys_http S c q w), (snd (sys_http S c q w), l @ [EvHttp c q]))"
  "sys_wait (logged S) c d (w, l) = (fst (sys_wait S c d w), (snd (sys_wait S c d w), l @ [EvWait d]))"
  "sys_rand (logged S) n (w, l) = (fst (sys_rand S n w), (snd (sys_rand S n w), l @ [EvRand n]))"
  "sys_lookup (logged S) h (w, l) = (fst (sys_lookup S h w), (snd (sys_lookup S h w), l @ [EvLookup h]))"
  "sys_acquire (logged S) h (w, l) = (sys_acquire S h w, l @ [EvAcquire h])"
  "sys_release (logged S) h (w, l) = (sys_release S h w, l @ [EvRelease h])"
  "sys_observe (logged S) m (w, l) = (sys_observe S m w, l @ [EvMetric m])"
  by (simp_all add: logged_def split: prod.splits)

text \<open>What a computation adds to the log.\<close>

definition emits :: "(event list \<Rightarrow> bool) \<Rightarrow> 'a \<times> 'w \<times> event list \<Rightarrow> event list \<Rightarrow> bool" where
  "emits Q r l \<longleftrightarrow> (\<exists>ls. snd (snd r) = l @ ls \<and> Q ls)"

lemma emits_nothing: "Q [] \<Longrightarrow> emits Q (r, (w, l)) l"
  by (auto simp: emits_def)

lemma emits_weaken: "emits Q r l \<Longrightarrow> (\<And>ls. Q ls \<Longrightarrow> R ls) \<Longrightarrow> emits R r l"
  by (auto simp: emits_def)

lemma emits_andThen:
  assumes "emits Q r l" "\<And>x w l'. fst r = Ok x \<Longrightarrow> emits R (k x (w, l')) l'"
    and "\<And>a b. Q a \<Longrightarrow> R b \<Longrightarrow> T (a @ b)" "\<And>a. Q a \<Longrightarrow> T a"
  shows "emits T (andThen r k) l"
proof -
  obtain x w ls where r: "r = (x, (w, l @ ls))" "Q ls"
    using assms(1) by (cases r) (auto simp: emits_def)
  show ?thesis
  proof (cases x)
    case (Ok y)
    with assms(2) r obtain ls' where "snd (snd (k y (w, l @ ls))) = (l @ ls) @ ls'" "R ls'"
      unfolding emits_def by (metis fst_conv)
    with Ok r assms(3) show ?thesis by (auto simp: emits_def)
  qed (use r assms(4) in \<open>auto simp: emits_def\<close>)
qed

lemma rand_in_range_logged [simp]: "rand_in_range S \<Longrightarrow> rand_in_range (logged S)"
  by (simp add: rand_in_range_def)

fun is_http :: "event \<Rightarrow> bool" where
  "is_http (EvHttp c q) = True"
| "is_http e = False"

fun is_limiter :: "event \<Rightarrow> bool" where
  "is_limiter (EvAcquire h) = True"
| "is_limiter (EvRelease h) = True"
| "is_limiter e = False"

fun http_urls :: "event list \<Rightarrow> string list" where
  "http_urls [] = []"
| "http_urls (EvHttp c q # es) = req_url q # http_urls es"
| "http_urls (e # es) = http_urls es"

lemma http_urls_append [simp]: "http_urls (l @ l') = http_urls l @ http_urls l'"
  by (induction l rule: http_urls.induct) auto

text \<open>
  A concrete environment for the witnesses: the replies of the upstream in order, the
  names the resolver knows, no jitter and no cancellation.
\<close>

definition scripted :: "(string \<Rightarrow> IP list option) \<Rightarrow> (go_error + http_response) list sys" where
  "scripted dns = \<lparr>
     sys_http = (\<lambda>c q w. case w of [] \<Rightarrow> (Inl (EText ''connection refused''), []) | r # rs \<Rightarrow> (r, rs)),
     sys_wait = (\<lambda>c d w. (None, w)),
     sys_rand = (\<lambda>n w. (0, w)),
     sys_lookup = (\<lambda>h w. (dns h, w)),
     sys_acquire = (\<lambda>h w. w),
     sys_release = (\<lambda>h w. w),
     sys_observe = (\<lambda>m w. w) \<rparr>"

lemma scripted_simps [simp]:
  "sys_http (scripted dns) c q [] = (Inl (EText ''connection refused''), [])"
  "sys_http (scripted dns) c q (r # rs) = (r, rs)"
  "sys_wait (scripted dns) c d w = (None, w)"
  "sys_rand (scripted dns) n w = (0, w)"
  "sys_lookup (scripted dns) h w = (dns h, w)"
  "sys_acquire (scripted dns) h w = w"
  "sys_release (scripted dns) h w = w"
  "sys_observe (scripted dns) m w = w"
  by (simp_all add: scripted_def)

lemma rand_in_range_scripted [simp]: "rand_in_range (scripted dns)"
  by (simp add: rand_in_range_def)

definition reply :: "int \<Rightarrow> string \<Rightarrow> go_error + http_response" where
  "reply code body = Inr \<lparr>resp_status = code, resp_retry_after = [], resp_body = body, resp_read_err = None\<rparr>"

definition steady :: "(go_error + http_response) \<Rightarrow> unit sys" where
  \<comment> \<open>an upstream that always answers the same way\<close>
  "steady r = \<lparr>
     sys_http = (\<lambda>c q w. (r, w)), sys_wait = (\<lambda>c d w. (None, w)), sys_rand = (\<lambda>n w. (0, w)),
     sys_lookup = (\<lambda>h w. (None, w)), sys_acquire = (\<lambda>h w. w), sys_release = (\<lambda>h w. w),
     sys_observe = (\<lambda>m w. w) \<rparr>"

lemma steady_simps [simp]:
  "sys_http (steady r) c q w = (r, w)" "sys_wait (steady r) c d w = (None, w)"
  "sys_rand (steady r) n w = (0, w)" "sys_lookup (steady r) h w = (None, w)"
  "sys_acquire (steady r) h w = w" "sys_release (steady r) h w = w" "sys_observe (steady r) m w = w"
  by (simp_all add: steady_def)

lemma rand_in_range_steady [simp]: "rand_in_range (steady r)"
  by (simp add: rand_in_range_def)

end
