(* ===== verification/Go_Url.thy ===== *)
theory Go_Url
  imports Go_Net
begin

text \<open>
  The parts of the standard library's \<open>net/url\<close> the program uses: \<open>url.Parse\<close> with the
  fields \<open>Scheme\<close>, \<open>Host\<close>, \<open>Path\<close> and \<open>RawQuery\<close>, \<open>URL.Hostname\<close>, query escaping and
  \<open>url.Values.Encode\<close>. The parser follows the algorithm of Go 1.26 (the version of
  \<open>go.mod\<close>): a bracketed host must be an IPv6 literal, a host without brackets holds at
  most one colon. User information is checked and dropped, the program never reads it.
\<close>

record URL =
  Scheme :: string
  Opaque :: string
  Host :: string
  Path :: string
  RawQuery :: string

datatype encoding = encodePath | encodeUserPassword | encodeHost | encodeZone
  | encodeQueryComponent | encodeFragment

definition is_alnum :: "char \<Rightarrow> bool" where
  "is_alnum c \<longleftrightarrow> is_digit c \<or> is_lower c \<or> is_upper c"

definition shouldEscape :: "char \<Rightarrow> encoding \<Rightarrow> bool" where
  "shouldEscape c mode =
     (if is_alnum c then False
      else if mode \<in> {encodeHost, encodeZone} \<and> c \<in> set ''!$&()*+,;=:[]<>'' \<union> {CHR 0x27, CHR 0x22} then False
      else if c \<in> set ''-_.~'' then False
      else if c \<in> set ''$&+,/:;=?@'' then
        (case mode of
           encodePath \<Rightarrow> c = CHR ''?''
         | encodeUserPassword \<Rightarrow> c \<in> set ''@/?:''
         | encodeFragment \<Rightarrow> False
         | _ \<Rightarrow> True)
      else if mode = encodeFragment \<and> c \<in> set ''!()*'' then False
      else True)"

definition pct_byte :: "char \<Rightarrow> char \<Rightarrow> char" where
  "pct_byte a b = char_of (16 * unhex a + unhex b)"

definition pct_allowed :: "encoding \<Rightarrow> char \<Rightarrow> char \<Rightarrow> bool" where
  \<comment> \<open>whether the escape %ab may appear in this component\<close>
  "pct_allowed mode a b =
     (if mode = encodeHost then \<not> (unhex a < 8 \<and> [a, b] \<noteq> ''25'')
      else if mode = encodeZone then
        [a, b] = ''25'' \<or> pct_byte a b = CHR '' '' \<or> \<not> shouldEscape (pct_byte a b) encodeHost
      else True)"

fun unescape :: "encoding \<Rightarrow> string \<Rightarrow> string option" where
  "unescape mode [] = Some []"
| "unescape mode (c # cs) =
     (if c = CHR ''%'' then
        (case cs of
           a # b # rest \<Rightarrow>
             if is_hex a \<and> is_hex b \<and> pct_allowed mode a b
             then map_option (Cons (pct_byte a b)) (unescape mode rest) else None
         | _ \<Rightarrow> None)
      else if mode \<in> {encodeHost, encodeZone} \<and> is_ascii c \<and> shouldEscape c mode then None
      else map_option (Cons (if c = CHR ''+'' \<and> mode = encodeQueryComponent then CHR '' '' else c))
             (unescape mode cs))"

fun getScheme_loop :: "string \<Rightarrow> string \<Rightarrow> (string \<times> string) option" where
  \<comment> \<open>the scheme characters read so far (reversed) and the rest; None is an error\<close>
  "getScheme_loop raw acc = (case raw of
       [] \<Rightarrow> Some ([], rev acc)
     | c # cs \<Rightarrow>
         if is_lower c \<or> is_upper c then getScheme_loop cs (c # acc)
         else if is_digit c \<or> c \<in> set ''+-.'' then
           (if acc = [] then Some ([], raw) else getScheme_loop cs (c # acc))
         else if c = CHR '':'' then (if acc = [] then None else Some (rev acc, cs))
         else Some ([], rev acc @ raw))"

definition getScheme :: "string \<Rightarrow> (string \<times> string) option" where
  "getScheme raw = getScheme_loop raw []"

definition validOptionalPort :: "string \<Rightarrow> bool" where
  "validOptionalPort p = (case p of [] \<Rightarrow> True | c # ds \<Rightarrow> c = CHR '':'' \<and> list_all is_digit ds)"

definition validUserinfo :: "string \<Rightarrow> bool" where
  "validUserinfo s = list_all (\<lambda>c. is_alnum c \<or> c \<in> set ''-._:~!$&()*+,;=%@'' \<union> {CHR 0x27}) s"

definition parse_bracket_host :: "string \<Rightarrow> string option" where
  "parse_bracket_host host = (case cut_last host CHR '']'' of
       None \<Rightarrow> None
     | Some (inner0, colonPort) \<Rightarrow>
        (let hostname = tl inner0 in
         if \<not> validOptionalPort colonPort then None
         else
          (let name = (case str_index hostname ''%25'' of
               Some i \<Rightarrow> (case (unescape encodeHost (take i hostname), unescape encodeZone (drop i hostname)) of
                   (Some h, Some z) \<Rightarrow> Some (h @ z) | _ \<Rightarrow> None)
             | None \<Rightarrow> unescape encodeHost hostname) in
           case (name, unescape encodeHost colonPort) of
             (Some n, Some p) \<Rightarrow>
               (case ParseAddr n of
                  None \<Rightarrow> None
                | Some (a, _) \<Rightarrow> if length a = 4 then None else Some (''['' @ n @ '']'' @ p))
           | _ \<Rightarrow> None)))"

definition parseHost :: "string \<Rightarrow> string option" where
  "parseHost host =
     (if CHR ''['' \<in> set host then
        (if hd host = CHR ''['' \<and> CHR ''['' \<notin> set (tl host) then parse_bracket_host host else None)
      else if validOptionalPort (dropWhile (\<lambda>c. c \<noteq> CHR '':'') host)
        then unescape encodeHost host else None)"

definition parseAuthority :: "string \<Rightarrow> string option" where
  "parseAuthority auth = (case cut_last auth CHR ''@'' of
       None \<Rightarrow> parseHost auth
     | Some (userinfo, host) \<Rightarrow>
        (case parseHost host of
           None \<Rightarrow> None
         | Some h \<Rightarrow>
            (if \<not> validUserinfo userinfo then None
             else let (user, pass, _) = cut_at userinfo CHR '':'' in
               (case (unescape encodeUserPassword user, unescape encodeUserPassword pass) of
                  (Some _, Some _) \<Rightarrow> Some h
                | _ \<Rightarrow> None))))"

definition has_ctl_byte :: "string \<Rightarrow> bool" where
  "has_ctl_byte s = list_ex (\<lambda>c. byte c < 32 \<or> byte c = 127) s"

definition parse_rest :: "string \<Rightarrow> string \<Rightarrow> string \<Rightarrow> URL option" where
  \<comment> \<open>what follows the scheme and precedes the query\<close>
  "parse_rest scheme rest query =
     (if \<not> has_prefix rest ''/'' \<and> scheme \<noteq> [] then
        Some \<lparr>Scheme = scheme, Opaque = rest, Host = [], Path = [], RawQuery = query\<rparr>
      else if \<not> has_prefix rest ''/'' \<and> CHR '':'' \<in> set (fst (cut_at rest CHR ''/'')) then None
      else
       (let auth = (scheme \<noteq> [] \<or> \<not> has_prefix rest ''///'') \<and> has_prefix rest ''//'';
            authority = takeWhile (\<lambda>c. c \<noteq> CHR ''/'') (drop 2 rest);
            path = (if auth then dropWhile (\<lambda>c. c \<noteq> CHR ''/'') (drop 2 rest) else rest) in
        case (if auth then parseAuthority authority else Some []) of
          None \<Rightarrow> None
        | Some host \<Rightarrow> map_option
            (\<lambda>p. \<lparr>Scheme = scheme, Opaque = [], Host = host, Path = p, RawQuery = query\<rparr>)
            (unescape encodePath path)))"

definition parse_nofrag :: "string \<Rightarrow> URL option" where
  "parse_nofrag raw =
     (if has_ctl_byte raw then None
      else if raw = ''*'' then Some \<lparr>Scheme = [], Opaque = [], Host = [], Path = ''*'', RawQuery = []\<rparr>
      else case getScheme raw of
          None \<Rightarrow> None
        | Some (scheme, rest0) \<Rightarrow>
            (let (rest, query, _) = cut_at rest0 CHR ''?'' in
             parse_rest (ascii_lower scheme) rest query))"

definition url_Parse :: "string \<Rightarrow> URL option" where
  "url_Parse rawURL =
     (let (u, frag, _) = cut_at rawURL CHR ''#'' in
      case parse_nofrag u of
        None \<Rightarrow> None
      | Some url \<Rightarrow> if unescape encodeFragment frag = None then None else Some url)"

definition Hostname :: "URL \<Rightarrow> string" where
  \<comment> \<open>the host without a valid port and without the brackets of an IPv6 literal\<close>
  "Hostname u =
     (let h = (case cut_last (Host u) CHR '':'' of
           Some (h0, port) \<Rightarrow> if validOptionalPort (CHR '':'' # port) then h0 else Host u
         | None \<Rightarrow> Host u) in
      if has_prefix h ''['' \<and> has_suffix h '']'' then butlast (tl h) else h)"

section \<open>Query strings\<close>

definition upper_hex :: "nat \<Rightarrow> char" where
  "upper_hex n = (if n < 10 then char_of (48 + n) else char_of (55 + n))"

definition escape_byte :: "char \<Rightarrow> string" where
  "escape_byte c =
     (if c = CHR '' '' then ''+''
      else if shouldEscape c encodeQueryComponent
        then [CHR ''%'', upper_hex (byte c div 16), upper_hex (byte c mod 16)]
      else [c])"

definition QueryEscape :: "string \<Rightarrow> string" where
  "QueryEscape s = concat (map escape_byte s)"

definition Values_Encode :: "(string \<times> string) list \<Rightarrow> string" where
  \<comment> \<open>url.Values.Encode for single-valued keys, given in the order of the keys\<close>
  "Values_Encode kvs = join_with ''&'' (map (\<lambda>(k, v). QueryEscape k @ ''='' @ QueryEscape v) kvs)"

section \<open>Facts\<close>

lemma unescape_plain:
  assumes "CHR ''%'' \<notin> set s"
  shows "unescape encodePath s = Some s"
  using assms by (induction s) auto

lemma unescape_bad_escape:
  assumes "mode \<noteq> encodeHost" "mode \<noteq> encodeZone" "CHR ''%'' \<notin> set u"
    and "\<not> (\<exists>a b t. v = a # b # t \<and> is_hex a \<and> is_hex b)"
  shows "unescape mode (u @ CHR ''%'' # v) = None"
  using assms by (induction u) (auto split: list.splits)

lemma hex_digits_escape: "n < 16 \<Longrightarrow> is_hex (upper_hex n) \<and> unhex (upper_hex n) = n"
  by (auto simp: upper_hex_def is_hex_def unhex_def is_digit_def)

lemma unescape_escape_byte:
  "unescape encodeQueryComponent (escape_byte c @ s)
     = map_option (Cons c) (unescape encodeQueryComponent s)"
proof -
  have div: "byte c div 16 < 16" and mod: "byte c mod 16 < 16"
    by simp_all
  have eq: "16 * (byte c div 16) + byte c mod 16 = byte c" by simp
  consider "c = CHR '' ''" | "c \<noteq> CHR '' ''" "shouldEscape c encodeQueryComponent"
    | "c \<noteq> CHR '' ''" "\<not> shouldEscape c encodeQueryComponent" by blast
  then show ?thesis
  proof cases
    case 2
    then show ?thesis
      using hex_digits_escape [OF div] hex_digits_escape [OF mod]
      by (simp add: escape_byte_def pct_allowed_def pct_byte_def eq)
  next
    case 3
    moreover from 3 have "c \<noteq> CHR ''%''" "c \<noteq> CHR ''+''"
      by (auto simp: shouldEscape_def is_alnum_def is_digit_def is_lower_def is_upper_def)
    ultimately show ?thesis by (simp add: escape_byte_def)
  qed (simp add: escape_byte_def)
qed

lemma unescape_QueryEscape: "unescape encodeQueryComponent (QueryEscape s) = Some s"
  by (induction s) (simp_all add: QueryEscape_def unescape_escape_byte)

lemma QueryEscape_safe: "c \<in> set (QueryEscape s) \<Longrightarrow> c \<notin> set ''&=#?/ ''"
proof -
  assume "c \<in> set (QueryEscape s)"
  then obtain d where d: "c \<in> set (escape_byte d)" by (auto simp: QueryEscape_def)
  have div: "byte d div 16 < 16" and mod: "byte d mod 16 < 16"
    by simp_all
  have hex: "n < 16 \<Longrightarrow> upper_hex n \<notin> set ''&=#?/ ''" for n
    using hex_digits_escape [of n] by (auto simp: is_hex_def is_digit_def)
  from d consider "c = CHR ''+''" | "c = CHR ''%''" | "c = upper_hex (byte d div 16)"
    | "c = upper_hex (byte d mod 16)" | "c = d" "d \<noteq> CHR '' ''" "\<not> shouldEscape d encodeQueryComponent"
    by (auto simp: escape_byte_def split: if_splits)
  then show ?thesis
  proof cases
    case 5
    then show ?thesis
      by (auto simp: shouldEscape_def is_alnum_def is_digit_def is_lower_def is_upper_def)
  qed (use hex [OF div] hex [OF mod] in auto)
qed

end
