(* ===== verification/Ssrf.thy ===== *)
theory Ssrf
  imports Go_World Go_Url
begin

text \<open>
  \<open>internal/httpx/ssrf.go\<close>: the outbound-request guard. \<open>ValidateURL\<close> threads the
  environment because it may ask the resolver; an accepted URL is the result \<open>None\<close>.
  The messages keep the code's text, with the format verb of an address left unexpanded.
\<close>

section \<open>The guard\<close>

definition isReservedIP :: "IP \<Rightarrow> bool" where
  "isReservedIP ip \<longleftrightarrow> IsLoopback ip \<or> IsPrivate ip \<or> IsLinkLocalUnicast ip \<or>
     IsLinkLocalMulticast ip \<or> IsMulticast ip \<or> IsUnspecified ip"

definition isNumericHost :: "string \<Rightarrow> bool" where
  "isNumericHost host \<longleftrightarrow> list_all (\<lambda>c. is_digit c \<or> c = CHR ''.'') host"

definition errReserved :: "IP \<Rightarrow> go_error" where
  "errReserved ip = EText (''private/reserved IP '' @ ip_String ip @ '' not allowed'')"

definition ValidateURL :: "'w sys \<Rightarrow> string \<Rightarrow> bool \<Rightarrow> 'w \<Rightarrow> go_error option \<times> 'w" where
  "ValidateURL S rawURL blockPrivate w = (case url_Parse rawURL of
       None \<Rightarrow> (Some (EWrap ''parse error'' (EText ''invalid URL'')), w)
     | Some u \<Rightarrow>
        if Scheme u \<noteq> ''http'' \<and> Scheme u \<noteq> ''https'' then
          (Some (EText (''scheme '' @ go_quote (Scheme u) @ '' not allowed (http/https only)'')), w)
        else
         (let host = Hostname u in
          if host = [] then (Some (EText ''empty hostname''), w)
          else if \<not> blockPrivate then (None, w)
          else case ParseIP host of
              Some ip \<Rightarrow> if isReservedIP ip then (Some (errReserved ip), w) else (None, w)
            | None \<Rightarrow>
                if isNumericHost host then
                  (Some (EText (''ambiguous numeric host '' @ go_quote host @
                     '' not allowed (use a canonical IP or a hostname)'')), w)
                else case sys_lookup S host w of
                    (None, w') \<Rightarrow> (None, w')
                  | (Some ips, w') \<Rightarrow>
                      (map_option errReserved (find isReservedIP ips), w')))"

section \<open>What is accepted\<close>

definition safe_target :: "(string \<Rightarrow> IP list option) \<Rightarrow> string \<Rightarrow> bool" where
  \<comment> \<open>the contract of the guard, given what the resolver answers for each name\<close>
  "safe_target dns rawURL = (case url_Parse rawURL of
       None \<Rightarrow> False
     | Some u \<Rightarrow> Scheme u \<in> {''http'', ''https''} \<and> Hostname u \<noteq> [] \<and>
         (case ParseIP (Hostname u) of
            Some ip \<Rightarrow> \<not> isReservedIP ip
          | None \<Rightarrow> \<not> isNumericHost (Hostname u) \<and>
              (case dns (Hostname u) of
                 None \<Rightarrow> True
               | Some ips \<Rightarrow> \<forall>ip \<in> set ips. \<not> isReservedIP ip)))"

definition well_formed_target :: "string \<Rightarrow> bool" where
  "well_formed_target rawURL = (case url_Parse rawURL of
       None \<Rightarrow> False
     | Some u \<Rightarrow> Scheme u \<in> {''http'', ''https''} \<and> Hostname u \<noteq> [])"

lemma ValidateURL_block_iff:
  "fst (ValidateURL S rawURL True w) = None \<longleftrightarrow> safe_target (\<lambda>h. fst (sys_lookup S h w)) rawURL"
  by (auto simp: ValidateURL_def safe_target_def Let_def find_None_iff
      split: option.splits prod.splits)

lemma ValidateURL_open_iff:
  "fst (ValidateURL S rawURL False w) = None \<longleftrightarrow> well_formed_target rawURL"
  by (auto simp: ValidateURL_def well_formed_target_def Let_def split: option.splits)

lemma safe_target_well_formed: "safe_target dns rawURL \<Longrightarrow> well_formed_target rawURL"
  by (auto simp: safe_target_def well_formed_target_def split: option.splits)

lemma ValidateURL_well_formed:
  "fst (ValidateURL S rawURL b w) = None \<Longrightarrow> well_formed_target rawURL"
  by (cases b) (auto simp: ValidateURL_block_iff ValidateURL_open_iff intro: safe_target_well_formed)

text \<open>The guard asks the resolver at most once, and only about the URL's own host name.\<close>

lemma ValidateURL_log:
  "\<exists>w' ls. snd (ValidateURL (logged S) rawURL b (w, l)) = (w', l @ ls) \<and>
     (ls = [] \<or> (b \<and> (\<exists>u. url_Parse rawURL = Some u \<and> ls = [EvLookup (Hostname u)]
        \<and> ParseIP (Hostname u) = None \<and> \<not> isNumericHost (Hostname u))))"
  by (auto simp: ValidateURL_def Let_def split: option.splits prod.splits)

lemma ValidateURL_numeric_rejected:
  assumes "url_Parse rawURL = Some u" "isNumericHost (Hostname u)" "ParseIP (Hostname u) = None"
  shows "fst (ValidateURL S rawURL True w) \<noteq> None \<and> snd (ValidateURL S rawURL True w) = w"
  using assms by (auto simp: ValidateURL_def Let_def)

section \<open>The reserved ranges\<close>

text \<open>
  The byte tests of the address predicates, read as the address blocks the guard
  documents: an IPv4 address is a number below \<open>2 ^ 32\<close>, an IPv6 address one below
  \<open>2 ^ 128\<close>.
\<close>

definition ip_value :: "IP \<Rightarrow> nat" where
  "ip_value ip = foldl (\<lambda>n b. 256 * n + unat b) 0 ip"

definition in_block :: "nat \<Rightarrow> nat \<Rightarrow> nat \<Rightarrow> bool" where
  \<comment> \<open>the block of the addresses from base on, of the given size\<close>
  "in_block base len v \<longleftrightarrow> base \<le> v \<and> v < base + len"

definition reserved_v4 :: "nat \<Rightarrow> bool" where
  "reserved_v4 v \<longleftrightarrow>
     in_block (127 * 2 ^ 24) (2 ^ 24) v \<or>                     \<comment> \<open>127.0.0.0/8\<close>
     in_block (10 * 2 ^ 24) (2 ^ 24) v \<or>                      \<comment> \<open>10.0.0.0/8\<close>
     in_block (172 * 2 ^ 24 + 16 * 2 ^ 16) (2 ^ 20) v \<or>       \<comment> \<open>172.16.0.0/12\<close>
     in_block (192 * 2 ^ 24 + 168 * 2 ^ 16) (2 ^ 16) v \<or>      \<comment> \<open>192.168.0.0/16\<close>
     in_block (169 * 2 ^ 24 + 254 * 2 ^ 16) (2 ^ 16) v \<or>      \<comment> \<open>169.254.0.0/16\<close>
     in_block (224 * 2 ^ 24) (2 ^ 28) v \<or>                     \<comment> \<open>224.0.0.0/4\<close>
     v = 0"

definition reserved_v6 :: "nat \<Rightarrow> bool" where
  "reserved_v6 v \<longleftrightarrow>
     v = 0 \<or> v = 1 \<or>                                          \<comment> \<open>:: and ::1\<close>
     in_block (252 * 2 ^ 120) (2 ^ 121) v \<or>                   \<comment> \<open>fc00::/7\<close>
     in_block (254 * 2 ^ 120 + 128 * 2 ^ 112) (2 ^ 118) v \<or>   \<comment> \<open>fe80::/10\<close>
     in_block (255 * 2 ^ 120) (2 ^ 120) v                     \<comment> \<open>ff00::/8\<close>"

lemma unat_byte_less [simp]: "unat (b :: 8 word) < 256"
  using unsigned_less [of b] by simp

lemma ip_value_Cons: "ip_value (b # bs) = unat b * 256 ^ length bs + ip_value bs"
proof -
  have "foldl (\<lambda>n b. 256 * n + unat b) a bs = a * 256 ^ length bs + ip_value bs" for a and bs :: IP
  proof (induction bs arbitrary: a)
    case (Cons x bs)
    show ?case using Cons [of "256 * a + unat x"] Cons [of "unat x"]
      by (simp add: ip_value_def algebra_simps)
  qed (simp add: ip_value_def)
  from this [of "unat b" bs] show ?thesis by (simp add: ip_value_def)
qed

lemma ip_value_Nil [simp]: "ip_value [] = 0"
  by (simp add: ip_value_def)

lemma ip_value_less: "ip_value ip < 256 ^ length ip"
proof (induction ip)
  case (Cons b bs)
  have "unat b \<le> 255" using unat_byte_less [of b] by linarith
  then have "unat b * 256 ^ length bs \<le> 255 * 256 ^ length bs" by (rule mult_le_mono1)
  with Cons have "ip_value (b # bs) < 255 * 256 ^ length bs + 256 ^ length bs"
    unfolding ip_value_Cons by linarith
  then show ?case by simp
qed simp

lemma ip_value_v4:
  "ip_value [a, b, c, d] = unat a * 2 ^ 24 + unat b * 2 ^ 16 + unat c * 2 ^ 8 + unat d"
  by (simp add: ip_value_def)

lemma byte_is: "n < 256 \<Longrightarrow> (b :: 8 word) = word_of_nat n \<longleftrightarrow> unat b = n"
  using unat_of_nat [of n, where ?'a = 8] by (auto simp: take_bit_eq_mod)

lemmas byte_values = byte_is [of 10, simplified] byte_is [of 127, simplified]
  byte_is [of 168, simplified] byte_is [of 169, simplified] byte_is [of 172, simplified]
  byte_is [of 192, simplified] byte_is [of 254, simplified]
  byte_is [of 255, simplified]

lemma isReservedIP_v4_bytes:
  "isReservedIP [a, b, c, d] \<longleftrightarrow>
     unat a = 127 \<or> unat a = 10 \<or> (unat a = 172 \<and> 16 \<le> unat b \<and> unat b < 32) \<or>
     (unat a = 192 \<and> unat b = 168) \<or> (unat a = 169 \<and> unat b = 254) \<or>
     (224 \<le> unat a \<and> unat a < 240) \<or> (unat a = 0 \<and> unat b = 0 \<and> unat c = 0 \<and> unat d = 0)"
proof -
  have "v4_in_v6 [a, b, c, d] ! 10 = 255"
    by (simp add: v4_in_v6_def nth_append)
  then have "v4_in_v6 [a, b, c, d] \<noteq> replicate 16 0" by auto
  then have unspec: "IsUnspecified [a, b, c, d] \<longleftrightarrow> a = 0 \<and> b = 0 \<and> c = 0 \<and> d = 0"
    by (auto simp: IsUnspecified_def ip_equal_def v4_in_v6_def)
  have "IsLinkLocalMulticast [a, b, c, d] \<Longrightarrow> IsMulticast [a, b, c, d]"
    by (simp add: IsLinkLocalMulticast_def IsMulticast_def)
  then show ?thesis
    unfolding isReservedIP_def unspec unat_eq_0
    by (simp add: IsLoopback_def IsPrivate_def IsMulticast_def
        IsLinkLocalUnicast_def mask_240 mask_240_multicast byte_values) blast
qed

lemma isReservedIP_v4: "isReservedIP [a, b, c, d] \<longleftrightarrow> reserved_v4 (ip_value [a, b, c, d])"
proof -
  define A B C D where abcd: "A = unat a" "B = unat b" "C = unat c" "D = unat d"
  have less: "A < 256" "B < 256" "C < 256" "D < 256" by (simp_all add: abcd)
  define v where "v = A * 16777216 + B * 65536 + C * 256 + D"
  have v: "ip_value [a, b, c, d] = v" by (simp add: ip_value_v4 abcd v_def)
  have top: "A = n \<longleftrightarrow> n * 16777216 \<le> v \<and> v < n * 16777216 + 16777216" for n
    using less unfolding v_def by auto
  have "A = 172 \<and> 16 \<le> B \<and> B < 32 \<longleftrightarrow> in_block (172 * 2 ^ 24 + 16 * 2 ^ 16) (2 ^ 20) v"
    using less top [of 172] unfolding in_block_def v_def by auto
  moreover have "A = 192 \<and> B = 168 \<longleftrightarrow> in_block (192 * 2 ^ 24 + 168 * 2 ^ 16) (2 ^ 16) v"
    using less top [of 192] unfolding in_block_def v_def by auto
  moreover have "A = 169 \<and> B = 254 \<longleftrightarrow> in_block (169 * 2 ^ 24 + 254 * 2 ^ 16) (2 ^ 16) v"
    using less top [of 169] unfolding in_block_def v_def by auto
  moreover have "224 \<le> A \<and> A < 240 \<longleftrightarrow> in_block (224 * 2 ^ 24) (2 ^ 28) v"
    using less unfolding in_block_def v_def by auto
  moreover have "A = 0 \<and> B = 0 \<and> C = 0 \<and> D = 0 \<longleftrightarrow> v = 0"
    unfolding v_def by auto
  ultimately show ?thesis
    using top [of 127] top [of 10]
    unfolding isReservedIP_v4_bytes v reserved_v4_def abcd [symmetric]
    by (simp add: in_block_def)
qed

lemma ip_value_inj:
  "length a = length b \<Longrightarrow> ip_value a = ip_value b \<Longrightarrow> a = b"
proof (induction a b rule: list_induct2)
  case (Cons x a y b)
  let ?m = "256 ^ length b"
  have div: "(unat z * ?m + ip_value c) div ?m = unat z" and mod: "(unat z * ?m + ip_value c) mod ?m = ip_value c"
    if "length c = length b" for z :: "8 word" and c
    using ip_value_less [of c] that by simp_all
  have eq: "unat x * ?m + ip_value a = unat y * ?m + ip_value b"
    using Cons.prems Cons.hyps by (simp add: ip_value_Cons)
  from arg_cong [OF eq, of "\<lambda>n. n div ?m"] have "unat x = unat y"
    unfolding div [OF Cons.hyps] div [OF refl] .
  moreover from arg_cong [OF eq, of "\<lambda>n. n mod ?m"] have "ip_value a = ip_value b"
    unfolding mod [OF Cons.hyps] mod [OF refl] .
  ultimately show ?case using Cons.IH by (simp add: word_unat_eq_iff)
qed simp

lemma ip_value_replicate_0 [simp]: "ip_value (replicate n 0) = 0"
  by (induction n) (simp_all add: ip_value_Cons)

lemma ip_value_loopback: "ip_value IPv6loopback = 1"
  by (simp add: IPv6loopback_def ip_value_def numeral_eq_Suc)

lemma mapped_not_v6: "length ip = 16 \<Longrightarrow> To4 ip = None \<Longrightarrow> ip \<noteq> v4_in_v6 [a, b, c, d]"
  by (metis To4_mapped option.distinct(1))

lemma isReservedIP_v6:
  assumes len: "length ip = 16" and v6: "To4 ip = None"
  shows "isReservedIP ip \<longleftrightarrow> reserved_v6 (ip_value ip)"
proof -
  obtain x y r where ip: "ip = x # y # r" "length r = 14"
    using len by (auto simp: numeral_eq_Suc length_Suc_conv)
  define X Y R where XYR: "X = unat x" "Y = unat y" "R = ip_value r"
  have less: "X < 256" "Y < 256" "R < 5192296858534827628530496329220096"
    using ip_value_less [of r] ip by (simp_all add: XYR)
  define v where "v = X * 1329227995784915872903807060280344576
    + Y * 5192296858534827628530496329220096 + R"
  have v: "ip_value ip = v" using ip by (simp add: ip_value_Cons XYR v_def)
  have top: "X = 254 \<longleftrightarrow> 337623910929368631717566993311207522304 \<le> v
      \<and> v < 338953138925153547590470800371487866880"
    using less unfolding v_def by auto
  have bytes: "ip ! 0 = x" "ip ! Suc 0 = y" using ip by simp_all
  have "IsUnspecified ip \<longleftrightarrow> ip = replicate 16 0"
    using len mapped_not_v6 [OF len v6] by (auto simp: IsUnspecified_def ip_equal_def)
  also have "\<dots> \<longleftrightarrow> v = 0"
    using len ip_value_inj [of ip "replicate 16 0"] unfolding v [symmetric] by auto
  finally have unspec: "IsUnspecified ip \<longleftrightarrow> v = 0" .
  have "IsLoopback ip \<longleftrightarrow> ip = IPv6loopback"
    using len v6 by (auto simp: IsLoopback_def ip_equal_def IPv6loopback_def)
  also have "\<dots> \<longleftrightarrow> v = 1"
    using len ip_value_inj [of ip IPv6loopback] ip_value_loopback
    unfolding v [symmetric] by (auto simp: IPv6loopback_def)
  finally have loop: "IsLoopback ip \<longleftrightarrow> v = 1" .
  have "IsPrivate ip \<longleftrightarrow> X = 252 \<or> X = 253"
    using len v6 by (simp add: IsPrivate_def bytes mask_254 XYR)
  also have "\<dots> \<longleftrightarrow> in_block (252 * 2 ^ 120) (2 ^ 121) v"
    using less unfolding in_block_def v_def by auto
  finally have priv: "IsPrivate ip \<longleftrightarrow> in_block (252 * 2 ^ 120) (2 ^ 121) v" .
  have "IsLinkLocalUnicast ip \<longleftrightarrow> X = 254 \<and> 128 \<le> Y \<and> Y < 192"
    using len v6 by (simp add: IsLinkLocalUnicast_def bytes mask_192 byte_values XYR)
  also have "\<dots> \<longleftrightarrow> in_block (254 * 2 ^ 120 + 128 * 2 ^ 112) (2 ^ 118) v"
    using less top unfolding in_block_def v_def by auto
  finally have ll: "IsLinkLocalUnicast ip \<longleftrightarrow> in_block (254 * 2 ^ 120 + 128 * 2 ^ 112) (2 ^ 118) v" .
  have "IsMulticast ip \<longleftrightarrow> X = 255"
    using len v6 by (simp add: IsMulticast_def bytes byte_values XYR)
  also have "\<dots> \<longleftrightarrow> in_block (255 * 2 ^ 120) (2 ^ 120) v"
    using less unfolding in_block_def v_def by auto
  finally have multi: "IsMulticast ip \<longleftrightarrow> in_block (255 * 2 ^ 120) (2 ^ 120) v" .
  have "IsLinkLocalMulticast ip \<Longrightarrow> IsMulticast ip"
    using len v6 by (simp add: IsLinkLocalMulticast_def IsMulticast_def)
  then show ?thesis
    unfolding isReservedIP_def reserved_v6_def v using unspec loop priv ll multi by blast
qed

lemma To4_16:
  assumes "length ip = 16" "To4 ip = Some q"
  shows "ip = v4_in_v6 q \<and> length q = 4"
proof -
  from assms have q: "q = drop 12 ip" and ips: "take 10 ip = replicate 10 0" "ip ! 10 = 255" "ip ! 11 = 255"
    by (auto simp: To4_def split: if_splits)
  have "ip = take 10 ip @ ip ! 10 # ip ! 11 # drop 12 ip"
    using assms(1) id_take_nth_drop [of 10 ip] Cons_nth_drop_Suc [of 11 ip] by simp
  with ips q assms(1) show ?thesis by (simp add: v4_in_v6_def)
qed

lemma isReservedIP_mapped:
  assumes "length q = 4"
  shows "isReservedIP (v4_in_v6 q) = isReservedIP q"
proof -
  obtain a b c d where q: "q = [a, b, c, d]"
    using assms by (auto simp: numeral_eq_Suc length_Suc_conv)
  have inj: "v4_in_v6 p = v4_in_v6 p' \<longleftrightarrow> p = p'" if "length p = 4" "length p' = 4" for p p'
    using that by (simp add: v4_in_v6_def)
  have "v4_in_v6 [a, b, c, d] ! 10 = 255" by (simp add: v4_in_v6_def nth_append)
  then have zero: "v4_in_v6 [a, b, c, d] \<noteq> replicate 16 0" by auto
  have len: "length (v4_in_v6 [a, b, c, d]) = 16" by simp
  have "IsUnspecified (v4_in_v6 [a, b, c, d]) = IsUnspecified [a, b, c, d]"
    using zero len inj [of "[a, b, c, d]" "[0, 0, 0, 0]"]
    by (auto simp: IsUnspecified_def ip_equal_def) (simp_all add: v4_in_v6_def)
  then show ?thesis
    by (simp add: q isReservedIP_def IsLoopback_def IsPrivate_def IsLinkLocalUnicast_def
        IsLinkLocalMulticast_def IsMulticast_def)
qed

definition reserved_block :: "IP \<Rightarrow> bool" where
  "reserved_block ip = (case To4 ip of
       Some q \<Rightarrow> reserved_v4 (ip_value q)
     | None \<Rightarrow> reserved_v6 (ip_value ip))"

section \<open>Properties\<close>

text \<open>
  C2: With the private-address check on, \<open>ValidateURL\<close> accepts a URL exactly when it parses,
  its scheme is http or https, its host is not empty, and the host is a canonical IP literal
  outside the reserved ranges, or a name (not an all-numeric host) that the resolver either
  does not know or maps to unreserved addresses only.
\<close>

theorem ValidateURL_accepts_iff:
  "fst (ValidateURL S rawURL True w) = None \<longleftrightarrow> safe_target (\<lambda>h. fst (sys_lookup S h w)) rawURL"
  by (rule ValidateURL_block_iff)

text \<open>
  C3: The byte tests of \<open>isReservedIP\<close> decide exactly membership in the documented address
  blocks: 127/8, 10/8, 172.16/12, 192.168/16, 169.254/16, 224/4 and 0.0.0.0 for an IPv4
  address (plain or IPv4-mapped), ::, ::1, fc00::/7, fe80::/10 and ff00::/8 for IPv6.
\<close>

theorem isReservedIP_blocks:
  assumes "length ip = 4 \<or> length ip = 16"
  shows "isReservedIP ip \<longleftrightarrow> reserved_block ip"
proof (cases "To4 ip")
  case None
  with assms have "length ip = 16" by (auto simp: To4_def)
  with None show ?thesis by (simp add: reserved_block_def isReservedIP_v6)
next
  case (Some q)
  have q: "length q = 4" "isReservedIP ip = isReservedIP q"
    using assms Some To4_16 [of ip q] isReservedIP_mapped [of q]
    by (auto simp: To4_def split: if_splits)
  then obtain a b c d where "q = [a, b, c, d]" by (auto simp: numeral_eq_Suc length_Suc_conv)
  with q Some show ?thesis by (simp add: reserved_block_def isReservedIP_v4)
qed

theorem isReservedIP_blocks_witness:
  "isReservedIP [172, 31, 0, 1] = reserved_block [172, 31, 0, 1]"
  by (rule isReservedIP_blocks) simp

text \<open>
  An all-numeric host that is not a canonical IP literal (leading-zero octal, short or
  decimal IPv4 forms) is refused outright when private addresses are blocked, without the
  resolver being asked.
\<close>

theorem ValidateURL_rejects_obfuscated:
  assumes "url_Parse rawURL = Some u" "isNumericHost (Hostname u)" "ParseIP (Hostname u) = None"
  shows "fst (ValidateURL (logged S) rawURL True (w, l)) \<noteq> None \<and>
    snd (ValidateURL (logged S) rawURL True (w, l)) = (w, l)"
  by (rule ValidateURL_numeric_rejected [OF assms])

theorem ValidateURL_rejects_obfuscated_witness:
  "fst (ValidateURL (logged (scripted (\<lambda>_. None))) ''http://0177.0.0.1/'' True ([], [])) \<noteq> None"
proof -
  have p: "url_Parse ''http://0177.0.0.1/'' =
      Some \<lparr>Scheme = ''http'', Opaque = [], Host = ''0177.0.0.1'', Path = ''/'', RawQuery = []\<rparr>"
    by code_simp
  have h: "Hostname \<lparr>Scheme = ''http'', Opaque = [], Host = ''0177.0.0.1'', Path = ''/'', RawQuery = []\<rparr>
      = ''0177.0.0.1''" by code_simp
  have h2: "isNumericHost ''0177.0.0.1''" by code_simp
  have h3: "ParseIP ''0177.0.0.1'' = None" by code_simp
  show ?thesis
    by (rule ValidateURL_rejects_obfuscated [OF p, THEN conjunct1])
      (simp_all only: h h2 h3)
qed

text \<open>
  The guard does not cover the hexadecimal spelling of an IPv4 address: such a host has a
  letter, so it is treated as a name, and a name the resolver does not know is let through.
\<close>

lemma ValidateURL_accepts_hex_loopback:
  "fst (ValidateURL (scripted (\<lambda>_. None)) ''http://0x7f000001/'' True w) = None"
proof -
  have p: "url_Parse ''http://0x7f000001/'' =
      Some \<lparr>Scheme = ''http'', Opaque = [], Host = ''0x7f000001'', Path = ''/'', RawQuery = []\<rparr>"
    by code_simp
  show ?thesis
    by (simp add: ValidateURL_block_iff safe_target_def p Hostname_def cut_last_def
        isNumericHost_def is_digit_def has_prefix_def ParseIP_def ParseAddr_def)
qed

end
