(* ===== verification/Retry.thy ===== *)
theory Retry
  imports Go_World Go_Url
begin

text \<open>
  \<open>internal/httpx/retry.go\<close>: the retrying HTTP client. Durations are 64-bit nanosecond
  counts; the multiplication of a \<open>Retry-After\<close> value is the wrapping one of the code.
  \<open>DoRetry\<close> returns \<open>Ok None\<close> where the code returns \<open>(nil, nil)\<close>, which happens only for
  a configuration with a negative number of attempts.
\<close>

section \<open>Configuration and backoff\<close>

record RetryConfig =
  MaxAttempts :: int
  BaseDelay :: int
  MaxDelay :: int

definition second :: int where "second = 1000000000"
definition millisecond :: int where "millisecond = 1000000"

definition no_config :: RetryConfig where
  \<comment> \<open>RetryConfig{}\<close>
  "no_config = \<lparr>MaxAttempts = 0, BaseDelay = 0, MaxDelay = 0\<rparr>"

definition retry_defaults :: "RetryConfig \<Rightarrow> RetryConfig" where
  "retry_defaults c = \<lparr>
     MaxAttempts = (if MaxAttempts c = 0 then 3 else MaxAttempts c),
     BaseDelay = (if BaseDelay c = 0 then 500 * millisecond else BaseDelay c),
     MaxDelay = (if MaxDelay c = 0 then 4 * second else MaxDelay c) \<rparr>"

definition nextBackoff :: "int \<Rightarrow> int \<Rightarrow> int" where
  "nextBackoff d maxDelay = (let d' = wrap64 (d * 2) in if d' > maxDelay then maxDelay else d')"

definition parseRetryAfter :: "string \<Rightarrow> int option" where
  "parseRetryAfter s =
     (if s = [] then None
      else case Atoi s of
          None \<Rightarrow> None
        | Some secs \<Rightarrow> if secs < 0 then None else Some secs)"

definition nextDelay :: "string \<Rightarrow> int \<Rightarrow> int \<Rightarrow> int" where
  \<comment> \<open>the delay scheduled after a retryable response with this Retry-After header\<close>
  "nextDelay retryAfter delay maxDelay = (case parseRetryAfter retryAfter of
       Some secs \<Rightarrow> (let d = wrap64 (secs * second) in if d > maxDelay then maxDelay else d)
     | None \<Rightarrow> nextBackoff delay maxDelay)"

definition retryable_status :: "int \<Rightarrow> bool" where
  "retryable_status code \<longleftrightarrow> \<not> (code < 500 \<and> code \<noteq> 429)"

section \<open>The retry loop\<close>

definition Int63n :: "'w sys \<Rightarrow> int \<Rightarrow> 'w \<Rightarrow> int res \<times> 'w" where
  \<comment> \<open>math/rand panics on an argument that is not positive\<close>
  "Int63n S n w = (if n \<le> 0 then (Panic ''invalid argument to Int63n'', w)
     else case sys_rand S n w of (k, w') \<Rightarrow> (Ok k, w'))"

definition pause :: "'w sys \<Rightarrow> ctx \<Rightarrow> int \<Rightarrow> 'w \<Rightarrow> unit res \<times> 'w" where
  \<comment> \<open>the jittered wait before an attempt that is not the first\<close>
  "pause S c delay w = (case Int63n S (wrap64 (delay + 1)) w of
       (Ok jittered, w1) \<Rightarrow>
         (case sys_wait S c jittered w1 of
            (None, w2) \<Rightarrow> (Ok (), w2)
          | (Some e, w2) \<Rightarrow> (Fail e, w2))
     | (Fail e, w1) \<Rightarrow> (Fail e, w1)
     | (Panic m, w1) \<Rightarrow> (Panic m, w1))"

datatype attempt =
    Done "http_response option res"    \<comment> \<open>the loop returns\<close>
  | Again int go_error                 \<comment> \<open>continue: the next delay and lastErr\<close>

definition try_once :: "'w sys \<Rightarrow> ctx \<Rightarrow> http_request \<Rightarrow> int \<Rightarrow> bool \<Rightarrow> int \<Rightarrow> 'w \<Rightarrow> attempt \<times> 'w" where
  \<comment> \<open>the body of the loop; the boolean tells the first attempt\<close>
  "try_once S c q maxDelay first delay w =
     (case (if first then (Ok (), w) else pause S c delay w) of
        (Fail e, w1) \<Rightarrow> (Done (Fail e), w1)
      | (Panic m, w1) \<Rightarrow> (Done (Panic m), w1)
      | (Ok _, w1) \<Rightarrow>
          if url_Parse (req_url q) = None then (Done (Fail (EText ''invalid request URL'')), w1)
          else case sys_http S c q w1 of
              (Inl err, w2) \<Rightarrow>
                (if Is_context_error err then Done (Fail err)
                 else Again (nextBackoff delay maxDelay) err, w2)
            | (Inr resp, w2) \<Rightarrow>
                (if resp_status resp < 500 \<and> resp_status resp \<noteq> 429 then Done (Ok (Some resp))
                 else Again (nextDelay (resp_retry_after resp) delay maxDelay)
                        (StatusError (resp_status resp)), w2))"

fun retry_loop :: "'w sys \<Rightarrow> ctx \<Rightarrow> http_request \<Rightarrow> int \<Rightarrow> nat \<Rightarrow> bool \<Rightarrow> int \<Rightarrow> go_error option
    \<Rightarrow> 'w \<Rightarrow> http_response option res \<times> 'w" where
  \<comment> \<open>attempts left, whether the next one is the first, current delay, lastErr\<close>
  "retry_loop S c q maxDelay 0 first delay lastErr w =
     ((case lastErr of None \<Rightarrow> Ok None | Some e \<Rightarrow> Fail e), w)"
| "retry_loop S c q maxDelay (Suc n) first delay lastErr w =
     (case try_once S c q maxDelay first delay w of
        (Done r, w1) \<Rightarrow> (r, w1)
      | (Again d e, w1) \<Rightarrow> retry_loop S c q maxDelay n False d (Some e) w1)"

definition DoRetry :: "'w sys \<Rightarrow> ctx \<Rightarrow> string \<Rightarrow> string \<Rightarrow> string option \<Rightarrow> (string \<times> string) list
    \<Rightarrow> RetryConfig \<Rightarrow> 'w \<Rightarrow> http_response option res \<times> 'w" where
  "DoRetry S c method url body headers cfg0 w =
     (let cfg = retry_defaults cfg0;
          q = \<lparr>req_method = method, req_url = url, req_body = body, req_headers = headers\<rparr>
      in retry_loop S c q (MaxDelay cfg) (nat (MaxAttempts cfg)) True (BaseDelay cfg) None w)"

section \<open>Classification of client errors\<close>

definition ClassifyClientError :: "go_error option \<Rightarrow> FailureKind \<Rightarrow> go_error option" where
  "ClassifyClientError err0 fallback = (case err0 of
       None \<Rightarrow> None
     | Some err \<Rightarrow> (case As_StatusError err of
           Some code \<Rightarrow>
             Some (FetchError (if code \<ge> 500 then fallback else KindForStatus code) code [] (Some err))
         | None \<Rightarrow>
             if Is_context_error err then Some (FetchError KindTimeout 0 [] (Some err))
             else Some (FetchError fallback 0 [] (Some err))))"

section \<open>Lemmas\<close>

lemma retry_defaults_simps [simp]:
  "MaxAttempts (retry_defaults no_config) = 3"
  "BaseDelay (retry_defaults no_config) = 500000000"
  "MaxDelay (retry_defaults no_config) = 4000000000"
  by (simp_all add: retry_defaults_def no_config_def second_def millisecond_def)

text \<open>One attempt: what it returns.\<close>

lemma try_once_Done:
  "try_once S c q md f d w = (Done r, w') \<Longrightarrow>
     r \<noteq> Ok None \<and> (\<forall>resp. r = Ok (Some resp) \<longrightarrow> \<not> retryable_status (resp_status resp))"
  by (auto simp: try_once_def retryable_status_def
      split: res.splits prod.splits sum.splits if_splits)

text \<open>The loop: every response it hands out is one the code does not retry.\<close>

lemma retry_loop_result:
  assumes "fst (retry_loop S c q md n f d e w) = r"
  shows "(r = Ok None \<longrightarrow> n = 0 \<and> e = None) \<and>
    (\<forall>resp. r = Ok (Some resp) \<longrightarrow> \<not> retryable_status (resp_status resp))"
  using assms
proof (induction n arbitrary: f d e w)
  case (Suc n)
  show ?case
  proof (cases "try_once S c q md f d w")
    case (Pair a w1)
    with Suc show ?thesis by (cases a) (auto dest: try_once_Done)
  qed
qed (auto split: option.splits)

text \<open>Every response it hands out is one the server gave to the request.\<close>

lemma try_once_source: "try_once S c q md f d w = (Done (Ok (Some resp)), w') \<Longrightarrow> answers S c q resp"
  by (auto simp: try_once_def answers_def split: res.splits prod.splits sum.splits if_splits) (metis fst_conv)+

lemma retry_loop_source:
  "fst (retry_loop S c q md n f d e w) = Ok (Some resp) \<Longrightarrow> answers S c q resp"
proof (induction n arbitrary: f d e w)
  case (Suc n)
  show ?case
  proof (cases "try_once S c q md f d w")
    case (Pair a w1)
    with Suc show ?thesis by (cases a) (auto dest: try_once_source)
  qed
qed (auto split: option.splits)

lemma DoRetry_source:
  "fst (DoRetry S c m u b h cfg w) = Ok (Some resp) \<Longrightarrow>
     answers S c \<lparr>req_method = m, req_url = u, req_body = b, req_headers = h\<rparr> resp"
  by (auto simp: DoRetry_def Let_def dest: retry_loop_source)

text \<open>The calls it makes.\<close>

fun retry_event :: "ctx \<Rightarrow> http_request \<Rightarrow> event \<Rightarrow> bool" where
  "retry_event c q (EvHttp c' q') \<longleftrightarrow> c' = c \<and> q' = q"
| "retry_event c q (EvWait d) \<longleftrightarrow> True"
| "retry_event c q (EvRand n) \<longleftrightarrow> True"
| "retry_event c q e \<longleftrightarrow> False"

definition retry_events :: "ctx \<Rightarrow> http_request \<Rightarrow> nat \<Rightarrow> event list \<Rightarrow> bool" where
  \<comment> \<open>at most n sendings of the one request, with jittered waits\<close>
  "retry_events c q n ls \<longleftrightarrow> length (filter is_http ls) \<le> n \<and> list_all (retry_event c q) ls"

lemma retry_event_http: "is_http e \<Longrightarrow> retry_event c q e \<Longrightarrow> e = EvHttp c q"
  by (cases e) auto

lemma pause_events:
  "emits (\<lambda>ls. filter is_http ls = [] \<and> list_all (retry_event c q) ls) (pause (logged S) c d (w, l)) l"
  by (auto simp: emits_def pause_def Int63n_def split: res.splits option.splits)

lemma try_once_events:
  "emits (retry_events c q 1) (try_once (logged S) c q md f d (w, l)) l"
proof (cases f)
  case True
  then show ?thesis
    by (auto simp: emits_def retry_events_def try_once_def split: sum.splits)
next
  case False
  obtain r w1 ls where p: "pause (logged S) c d (w, l) = (r, (w1, l @ ls))"
    "filter is_http ls = []" "list_all (retry_event c q) ls"
    using pause_events [of c q S d w l] by (cases "pause (logged S) c d (w, l)") (auto simp: emits_def)
  with False show ?thesis
    by (cases r) (auto simp: emits_def retry_events_def try_once_def split: sum.splits)
qed

lemma retry_loop_events:
  "emits (retry_events c q n) (retry_loop (logged S) c q md n f d e (w, l)) l"
proof (induction n arbitrary: f d e w l)
  case 0
  show ?case by (simp add: emits_def retry_events_def)
next
  case (Suc n)
  obtain r w1 ls where t: "try_once (logged S) c q md f d (w, l) = (r, (w1, l @ ls))" "retry_events c q 1 ls"
    using try_once_events [of c q S md f d w l]
    by (cases "try_once (logged S) c q md f d (w, l)") (auto simp: emits_def)
  show ?case
  proof (cases r)
    case (Again d' e')
    from Suc.IH [of False d' "Some e'" w1 "l @ ls"] t Again show ?thesis
      by (auto simp: emits_def retry_events_def)
  qed (use t in \<open>auto simp: emits_def retry_events_def\<close>)
qed

lemma DoRetry_events:
  "emits (retry_events c \<lparr>req_method = m, req_url = u, req_body = b, req_headers = h\<rparr>
      (nat (MaxAttempts (retry_defaults cfg)))) (DoRetry (logged S) c m u b h cfg (w, l)) l"
  unfolding DoRetry_def Let_def by (rule retry_loop_events)

lemma retry_loop_log:
  "\<exists>ls k. snd (snd (retry_loop (logged S) c q md n f d e (w, l))) = l @ ls \<and>
     filter is_http ls = replicate k (EvHttp c q) \<and> k \<le> n"
proof -
  obtain ls where ls: "snd (snd (retry_loop (logged S) c q md n f d e (w, l))) = l @ ls" "retry_events c q n ls"
    using retry_loop_events [of c q n S md f d e w l] unfolding emits_def by blast
  from ls(2) have "filter is_http ls = replicate (length (filter is_http ls)) (EvHttp c q)"
    by (auto simp: retry_events_def list_all_iff retry_event_http intro!: replicate_eqI)
  with ls show ?thesis unfolding retry_events_def by blast
qed

section \<open>Delays\<close>

definition waits_within :: "int \<Rightarrow> event list \<Rightarrow> bool" where
  "waits_within md l \<longleftrightarrow> (\<forall>x. EvWait x \<in> set l \<longrightarrow> 0 \<le> x \<and> x \<le> md)"

lemma waits_within_append [simp]:
  "waits_within md (l @ l') \<longleftrightarrow> waits_within md l \<and> waits_within md l'"
  by (auto simp: waits_within_def)

definition delay_ok :: "int \<Rightarrow> int \<Rightarrow> bool" where
  "delay_ok md d \<longleftrightarrow> 0 \<le> d \<and> d \<le> md \<and> md < 4611686018427387904"

text \<open>
  A \<open>Retry-After\<close> value whose nanosecond count fits into 64 bits; larger values make the
  multiplication wrap.
\<close>

definition sane_headers :: "'w sys \<Rightarrow> bool" where
  "sane_headers S \<longleftrightarrow> (\<forall>c q w resp secs. fst (sys_http S c q w) = Inr resp \<longrightarrow>
     parseRetryAfter (resp_retry_after resp) = Some secs \<longrightarrow> secs \<le> 9223372036)"

lemma parseRetryAfter_nonneg: "parseRetryAfter s = Some secs \<Longrightarrow> 0 \<le> secs \<and> secs \<le> max_int64"
  by (auto simp: parseRetryAfter_def in_int64_def dest: Atoi_range split: if_splits option.splits)

lemma nextBackoff_ok: "delay_ok md d \<Longrightarrow> delay_ok md (nextBackoff d md)"
  by (auto simp: nextBackoff_def delay_ok_def Let_def wrap64_id in_int64_def min_int64_def max_int64_def)

lemma nextDelay_ok:
  assumes "delay_ok md d" and "\<And>secs. parseRetryAfter h = Some secs \<Longrightarrow> secs \<le> 9223372036"
  shows "delay_ok md (nextDelay h d md)"
proof (cases "parseRetryAfter h")
  case None
  with assms show ?thesis by (simp add: nextDelay_def nextBackoff_ok)
next
  case (Some secs)
  with assms(2) parseRetryAfter_nonneg have "0 \<le> secs" "secs \<le> 9223372036" by blast+
  then have "wrap64 (secs * second) = secs * second"
    by (intro wrap64_id) (simp add: in_int64_def second_def min_int64_def max_int64_def)
  with Some assms(1) \<open>0 \<le> secs\<close> show ?thesis
    by (simp add: nextDelay_def delay_ok_def second_def Let_def)
qed

lemma pause_waits:
  assumes "rand_in_range S" "delay_ok md d"
  obtains r ls w' where "pause (logged S) c d (w, l) = (r, (w', l @ ls))"
    "waits_within md ls" "\<And>m. r \<noteq> Panic m"
proof -
  have d: "wrap64 (d + 1) = d + 1" "0 < d + 1" "d \<le> md"
    using assms(2) by (auto simp: delay_ok_def wrap64_id in_int64_def min_int64_def max_int64_def)
  define k w1 where "k = fst (sys_rand S (d + 1) w)" and "w1 = snd (sys_rand S (d + 1) w)"
  have k: "0 \<le> k" "k \<le> md"
    using assms(1) d unfolding rand_in_range_def k_def by (auto dest!: spec [of _ "d + 1"] spec [of _ w])
  have "pause (logged S) c d (w, l) =
      ((case fst (sys_wait S c k w1) of None \<Rightarrow> Ok () | Some e \<Rightarrow> Fail e),
       (snd (sys_wait S c k w1), l @ [EvRand (d + 1), EvWait k]))"
    using d by (simp add: pause_def Int63n_def k_def w1_def split: option.splits)
  then show thesis
    by (rule that) (use k in \<open>auto simp: waits_within_def split: option.splits\<close>)
qed

lemma try_once_waits:
  assumes "rand_in_range S" "sane_headers S" "delay_ok md d"
  obtains a ls w' where "try_once (logged S) c q md f d (w, l) = (a, (w', l @ ls))"
    "waits_within md ls" "\<And>m. a \<noteq> Done (Panic m)" "\<And>d' e. a = Again d' e \<Longrightarrow> delay_ok md d'"
proof -
  obtain r0 l0 w1 where p: "(if f then (Ok (), (w, l)) else pause (logged S) c d (w, l)) = (r0, (w1, l @ l0))"
    and l0: "waits_within md l0" and r0: "\<And>m. r0 \<noteq> Panic m"
  proof (cases f)
    case True
    then show ?thesis using that [of "Ok ()" w "[]"] by (simp add: waits_within_def)
  next
    case False
    with pause_waits [OF assms(1,3)] that show ?thesis by (metis (full_types))
  qed
  obtain o2 w2 where h: "sys_http S c q w1 = (o2, w2)" by (cases "sys_http S c q w1")
  have sane: "o2 = Inr resp \<Longrightarrow> delay_ok md (nextDelay (resp_retry_after resp) d md)" for resp
    using assms(2,3) h unfolding sane_headers_def by (intro nextDelay_ok) (metis fst_conv)+
  have "waits_within md (l0 @ [EvHttp c q])" using l0 by (auto simp: waits_within_def)
  then show thesis
    using p h r0 l0 sane nextBackoff_ok [OF assms(3)]
    by (cases r0; cases o2; cases "url_Parse (req_url q) = None")
       (auto simp: try_once_def intro!: that split: if_splits)
qed

lemma retry_loop_waits:
  assumes "rand_in_range S" "sane_headers S" "delay_ok md d"
  shows "\<exists>ls. snd (snd (retry_loop (logged S) c q md n f d e (w, l))) = l @ ls \<and> waits_within md ls \<and>
    (\<forall>m. fst (retry_loop (logged S) c q md n f d e (w, l)) \<noteq> Panic m)"
  using assms(3)
proof (induction n arbitrary: f d e w l)
  case 0
  show ?case by (auto simp: waits_within_def intro!: exI [of _ "[]"] split: option.splits)
next
  case (Suc n)
  obtain a l1 w1 where a: "try_once (logged S) c q md f d (w, l) = (a, (w1, l @ l1))"
    "waits_within md l1" "\<And>m. a \<noteq> Done (Panic m)" "\<And>d' e. a = Again d' e \<Longrightarrow> delay_ok md d'"
    by (rule try_once_waits [OF assms(1,2) Suc.prems, of c q f w l]) blast
  show ?case
  proof (cases a)
    case (Done r)
    with a show ?thesis by auto
  next
    case (Again d' e')
    with a Suc.IH [of d' False "Some e'" w1 "l @ l1"] show ?thesis by auto
  qed
qed

section \<open>Errors\<close>

text \<open>
  The errors of the HTTP client and of the context are not \<open>StatusError\<close> values: that type
  is the program's own.
\<close>

definition plain_errors :: "'w sys \<Rightarrow> bool" where
  "plain_errors S \<longleftrightarrow>
     (\<forall>c q w e. fst (sys_http S c q w) = Inl e \<longrightarrow> As_StatusError e = None) \<and>
     (\<forall>c d w e. fst (sys_wait S c d w) = Some e \<longrightarrow> As_StatusError e = None)"

definition client_error :: "go_error \<Rightarrow> bool" where
  "client_error e \<longleftrightarrow> (case As_StatusError e of None \<Rightarrow> True | Some code \<Rightarrow> retryable_status code)"

lemma try_once_errors:
  assumes "plain_errors S" "try_once S c q md f d w = (a, w')"
  shows "(\<forall>e. a = Done (Fail e) \<longrightarrow> client_error e) \<and> (\<forall>d' e. a = Again d' e \<longrightarrow> client_error e)"
proof -
  obtain r0 w1 where p: "(if f then (Ok (), w) else pause S c d w) = (r0, w1)"
    by (cases "if f then (Ok (), w) else pause S c d w")
  have wait: "r0 = Fail e \<Longrightarrow> As_StatusError e = None" for e
  proof -
    assume e: "r0 = Fail e"
    obtain k w2 where w2: "sys_rand S (wrap64 (d + 1)) w = (k, w2)" by (cases "sys_rand S (wrap64 (d + 1)) w")
    from p e w2 have "fst (sys_wait S c k w2) = Some e"
      by (auto simp: pause_def Int63n_def split: if_splits option.splits prod.splits)
    with assms(1) show ?thesis by (auto simp: plain_errors_def)
  qed
  obtain o2 w2 where h: "sys_http S c q w1 = (o2, w2)" by (cases "sys_http S c q w1")
  have http: "o2 = Inl e \<Longrightarrow> As_StatusError e = None" for e
    using assms(1) h unfolding plain_errors_def by (metis fst_conv)
  show ?thesis
    using assms(2) p h wait http
    by (cases r0; cases o2; cases "url_Parse (req_url q) = None")
       (auto simp: try_once_def client_error_def retryable_status_def split: if_splits option.splits)
qed

lemma retry_loop_errors:
  assumes "plain_errors S" "fst (retry_loop S c q md n f d lastErr w) = Fail e"
    and "\<And>e0. lastErr = Some e0 \<Longrightarrow> client_error e0"
  shows "client_error e"
  using assms(2,3)
proof (induction n arbitrary: f d lastErr w)
  case (Suc n)
  obtain a w1 where a: "try_once S c q md f d w = (a, w1)" by (cases "try_once S c q md f d w")
  from try_once_errors [OF assms(1) a] Suc a show ?case by (cases a) auto
qed (auto split: option.splits)

lemma ClassifyClientError_kind:
  assumes "client_error e" "ClassifyClientError (Some e) fb = Some fe"
  shows "Kind fe \<in> {fb, KindHTTP429, KindTimeout}"
  using assms
  by (auto simp: ClassifyClientError_def client_error_def retryable_status_def KindForStatus_def
      split: option.splits if_splits)

section \<open>The reference: the first final reply\<close>

text \<open>
  Without the delays, \<open>DoRetry\<close> is a search: it takes the first of the replies that is not to be
  retried, and gives up with the cause of the last one it was allowed to see.
\<close>

fun final :: "go_error + http_response \<Rightarrow> bool" where
  "final (Inl e) = Is_context_error e"
| "final (Inr resp) = (\<not> retryable_status (resp_status resp))"

fun settled :: "go_error + http_response \<Rightarrow> http_response option res" where
  "settled (Inl e) = Fail e"
| "settled (Inr resp) = Ok (Some resp)"

fun cause :: "go_error + http_response \<Rightarrow> go_error" where
  "cause (Inl e) = e"
| "cause (Inr resp) = StatusError (resp_status resp)"

fun sane_reply :: "go_error + http_response \<Rightarrow> bool" where
  \<comment> \<open>a Retry-After value whose nanosecond count fits into 64 bits\<close>
  "sane_reply (Inl e) = True"
| "sane_reply (Inr resp) = (case parseRetryAfter (resp_retry_after resp) of Some secs \<Rightarrow> secs \<le> 9223372036 | None \<Rightarrow> True)"

lemma try_once_scripted:
  assumes "url_Parse (req_url q) \<noteq> None" "delay_ok md d" "sane_reply r"
  shows "\<exists>d'. delay_ok md d' \<and> try_once (scripted dns) c q md f d (r # rs) =
    ((if final r then Done (settled r) else Again d' (cause r)), rs)"
proof -
  have "wrap64 (d + 1) = d + 1" "0 < d + 1"
    using assms(2) by (auto simp: delay_ok_def wrap64_id in_int64_def min_int64_def max_int64_def)
  then have pause: "pause (scripted dns) c d w = (Ok (), w)" for w
    by (simp add: pause_def Int63n_def)
  show ?thesis
  proof (cases r)
    case (Inl e)
    then show ?thesis
      using assms(1,2) by (intro exI [of _ "nextBackoff d md"]) (cases f; simp add: try_once_def pause nextBackoff_ok)
  next
    case (Inr resp)
    have "delay_ok md (nextDelay (resp_retry_after resp) d md)"
      using assms(2,3) Inr by (intro nextDelay_ok) (auto split: option.splits)
    then show ?thesis
      using assms(1) Inr
      by (intro exI [of _ "nextDelay (resp_retry_after resp) d md"])
         (cases f; simp add: try_once_def pause retryable_status_def)
  qed
qed

lemma retry_loop_scripted:
  assumes "url_Parse (req_url q) \<noteq> None" "delay_ok md d" "list_all sane_reply rs" "n \<le> length rs"
  shows "retry_loop (scripted dns) c q md n f d e rs =
    (case find final (take n rs) of
        Some r \<Rightarrow> settled r
      | None \<Rightarrow> (if n = 0 then (case e of None \<Rightarrow> Ok None | Some x \<Rightarrow> Fail x) else Fail (cause (last (take n rs)))),
     drop (min n (Suc (length (takeWhile (\<lambda>r. \<not> final r) rs)))) rs)"
  using assms(2-4)
proof (induction n arbitrary: f d e rs)
  case (Suc n)
  then obtain r rs' where rs: "rs = r # rs'" by (cases rs) auto
  obtain d' where d': "delay_ok md d'" "try_once (scripted dns) c q md f d rs =
      ((if final r then Done (settled r) else Again d' (cause r)), rs')"
    using try_once_scripted [OF assms(1) Suc.prems(1), of r dns c f rs'] Suc.prems(2) rs by auto
  show ?case
  proof (cases "final r")
    case True
    with d'(2) rs show ?thesis by simp
  next
    case False
    have "retry_loop (scripted dns) c q md (Suc n) f d e rs = retry_loop (scripted dns) c q md n False d' (Some (cause r)) rs'"
      using False d'(2) by simp
    with Suc.IH [OF d'(1), of rs' False "Some (cause r)"] Suc.prems(2,3) rs False show ?thesis
      by (cases "n = 0"; cases "rs' = []") (auto simp: take_eq_Nil split: option.splits)
  qed
qed simp

section \<open>Properties\<close>

text \<open>
  \<open>DoRetry\<close> hands out a response only when its status is below 500 and not 429, and
  returns neither a response nor an error only for a negative number of attempts.
\<close>

theorem DoRetry_result:
  "case fst (DoRetry S c method url body headers cfg w) of
     Ok (Some resp) \<Rightarrow> \<not> retryable_status (resp_status resp)
   | Ok None \<Rightarrow> MaxAttempts cfg < 0
   | _ \<Rightarrow> True"
proof -
  define r where "r = fst (DoRetry S c method url body headers cfg w)"
  have "(r = Ok None \<longrightarrow> nat (MaxAttempts (retry_defaults cfg)) = 0 \<and> (None :: go_error option) = None) \<and>
      (\<forall>resp. r = Ok (Some resp) \<longrightarrow> \<not> retryable_status (resp_status resp))"
    unfolding r_def DoRetry_def Let_def by (rule retry_loop_result [OF refl])
  moreover have "nat (MaxAttempts (retry_defaults cfg)) = 0 \<Longrightarrow> MaxAttempts cfg < 0"
    by (simp add: retry_defaults_def split: if_splits)
  ultimately show ?thesis
    unfolding r_def [symmetric] by (cases r) (simp_all split: option.splits)
qed

text \<open>
  One \<open>DoRetry\<close> sends the given request and nothing else, at most as many times as the
  configured attempts (three by default).
\<close>

theorem DoRetry_attempts:
  "\<exists>ls k. snd (snd (DoRetry (logged S) c method url body headers cfg (w, l))) = l @ ls \<and>
     filter is_http ls = replicate k (EvHttp c \<lparr>req_method = method, req_url = url,
       req_body = body, req_headers = headers\<rparr>) \<and>
     k \<le> nat (MaxAttempts (retry_defaults cfg))"
  unfolding DoRetry_def Let_def by (rule retry_loop_log)





text \<open>
  C30: A retryable response whose \<open>Retry-After\<close> is between 9223372037 and 18446744073
  seconds makes the delay computation overflow to a negative duration, and the next attempt
  panics in the jitter computation instead of being sent.
\<close>

theorem DoRetry_retry_after_overflow_panics:
  assumes "url_Parse url \<noteq> None"
    and "fst (sys_http S c \<lparr>req_method = method, req_url = url, req_body = body,
           req_headers = headers\<rparr> w) = Inr resp"
    and "retryable_status (resp_status resp)"
    and "parseRetryAfter (resp_retry_after resp) = Some secs"
    and "9223372037 \<le> secs" "secs \<le> 18446744073"
    and "2 \<le> MaxAttempts (retry_defaults cfg)" "0 \<le> MaxDelay (retry_defaults cfg)"
  shows "fst (DoRetry S c method url body headers cfg w) = Panic ''invalid argument to Int63n''"
proof -
  let ?q = "\<lparr>req_method = method, req_url = url, req_body = body, req_headers = headers\<rparr>"
  let ?md = "MaxDelay (retry_defaults cfg)" and ?bd = "BaseDelay (retry_defaults cfg)"
  have "2 \<le> nat (MaxAttempts (retry_defaults cfg))" using assms(7) by simp
  then obtain n where n: "nat (MaxAttempts (retry_defaults cfg)) = 2 + n"
    using le_Suc_ex by blast
  define d where "d = wrap64 (secs * second)"
  define x where "x = secs * 1000000000 + 9223372036854775808"
  have "x mod 18446744073709551616 = (x - 18446744073709551616) mod 18446744073709551616"
    by simp
  also have "\<dots> = x - 18446744073709551616"
    using assms(5,6) by (intro mod_pos_pos_trivial) (simp_all add: x_def)
  finally have "d = secs * 1000000000 - 18446744073709551616"
    by (simp add: d_def wrap64_def second_def x_def)
  then have neg: "d < 0" "min_int64 \<le> d" "d < ?md"
    using assms(5,6,8) by (simp_all add: min_int64_def)
  obtain w1 where w1: "sys_http S c ?q w = (Inr resp, w1)"
    using assms(2) by (cases "sys_http S c ?q w") simp
  have first: "try_once S c ?q ?md True ?bd w = (Again d (StatusError (resp_status resp)), w1)"
    using assms(1,3,4) w1 neg by (auto simp: try_once_def retryable_status_def nextDelay_def d_def Let_def)
  have "wrap64 (d + 1) \<le> 0"
    using neg by (subst wrap64_id) (auto simp: in_int64_def min_int64_def max_int64_def)
  then have "try_once S c ?q ?md False d w1 = (Done (Panic ''invalid argument to Int63n''), w1)"
    by (simp add: try_once_def pause_def Int63n_def)
  with first n show ?thesis by (simp add: DoRetry_def Let_def)
qed

theorem DoRetry_retry_after_overflow_panics_witness:
  "fst (DoRetry (steady (Inr \<lparr>resp_status = 503, resp_retry_after = ''9223372037'', resp_body = [],
       resp_read_err = None\<rparr>)) Background ''GET'' ''http://u/'' None [] no_config ())
     = Panic ''invalid argument to Int63n''"
proof -
  have u: "url_Parse ''http://u/'' \<noteq> None" by code_simp
  have r: "parseRetryAfter ''9223372037'' = Some 9223372037"
    by (simp add: parseRetryAfter_def Atoi_def is_digit_def in_int64_def min_int64_def max_int64_def)
  show ?thesis
    by (rule DoRetry_retry_after_overflow_panics [OF u, where secs = 9223372037
        and resp = "\<lparr>resp_status = 503, resp_retry_after = ''9223372037'', resp_body = [],
          resp_read_err = None\<rparr>"])
       (simp_all add: r retryable_status_def)
qed

text \<open>
  Whatever error \<open>DoRetry\<close> returns, its classification is the caller's fallback kind,
  rate limiting or timeout: no other kind is reported for a client error, and a
  classified error keeps the original one as its cause.
\<close>

theorem DoRetry_error_kinds:
  assumes "plain_errors S"
    and "fst (DoRetry S c method url body headers cfg w) = Fail e"
    and "ClassifyClientError (Some e) fallback = Some fe"
  shows "Kind fe \<in> {fallback, KindHTTP429, KindTimeout} \<and> Unwrap fe = Some e"
proof -
  have "client_error e"
    using assms(2) unfolding DoRetry_def Let_def by (rule retry_loop_errors [OF assms(1)]) simp
  moreover have "Unwrap fe = Some e"
    using assms(3) by (auto simp: ClassifyClientError_def split: option.splits if_splits)
  ultimately show ?thesis using ClassifyClientError_kind [OF _ assms(3)] by blast
qed

theorem DoRetry_error_kinds_witness:
  "Kind (FetchError KindBotBlock 500 [] (Some (StatusError 500))) \<in> {KindBotBlock, KindHTTP429, KindTimeout}"
proof -
  have u: "url_Parse ''http://u/'' \<noteq> None" by code_simp
  have plain: "plain_errors (steady (reply 500 []))"
    by (simp add: plain_errors_def reply_def)
  have fail: "fst (DoRetry (steady (reply 500 [])) Background ''POST'' ''http://u/'' None [] no_config ())
      = Fail (StatusError 500)"
    using u by (simp add: DoRetry_def Let_def try_once_def reply_def numeral_3_eq_3 pause_def Int63n_def
        nextDelay_def parseRetryAfter_def nextBackoff_def wrap64_def)
  have "ClassifyClientError (Some (StatusError 500)) KindBotBlock =
      Some (FetchError KindBotBlock 500 [] (Some (StatusError 500)))"
    by (simp add: ClassifyClientError_def)
  from DoRetry_error_kinds [OF plain fail this] show ?thesis ..
qed

end
