(* ===== verification/Antibot.thy ===== *)
theory Antibot
  imports Go_Prelude
begin

text \<open>
  \<open>internal/antibot/antibot.go\<close>: recognition of bot walls and challenge pages by marker
  substrings of the lower-cased first 64 KiB of a body. \<open>unicode_lower\<close> is the
  non-ASCII part of \<open>strings.ToLower\<close>.
\<close>

definition scanLimit :: nat where
  "scanLimit = 65536"

definition markers :: "string list" where
  "markers = [
     ''you'' @ [CHR 0x27] @ ''ve been blocked by network security'',
     ''prove you'' @ [CHR 0x27] @ ''re a human'',
     ''whoa there, pardner'',
     ''just a moment...'',
     ''attention required! | cloudflare'',
     ''checking if the site connection is secure'',
     ''verify you are human'',
     ''verifying you are human'',
     ''/cdn-cgi/challenge-platform/'',
     ''pardon our interruption'',
     ''please verify you are a human'',
     ''request unsuccessful. incapsula incident id'',
     ''g-recaptcha'',
     ''recaptcha/api.js'',
     ''hcaptcha.com/captcha'',
     ''our systems have detected unusual traffic'',
     ''sign in to confirm you'' @ [CHR 0x27] @ ''re not a bot'']"

fun find_marker :: "string list \<Rightarrow> string \<Rightarrow> string option" where
  "find_marker [] lower = None"
| "find_marker (m # ms) lower = (if str_contains lower m then Some m else find_marker ms lower)"

definition Detect :: "(string \<Rightarrow> string) \<Rightarrow> string \<Rightarrow> string option" where
  \<comment> \<open>Some marker for (marker, true), None for (\"\", false)\<close>
  "Detect unicode_lower body =
     (let body' = (if scanLimit < length body then take scanLimit body else body) in
      find_marker markers (ToLower unicode_lower body'))"

section \<open>Lemmas\<close>

lemma find_marker_Some:
  "find_marker ms s = Some m \<Longrightarrow> m \<in> set ms \<and> str_contains s m"
  by (induction ms) (auto split: if_splits)

lemma find_marker_None: "find_marker ms s = None \<longleftrightarrow> (\<forall>m \<in> set ms. \<not> str_contains s m)"
  by (induction ms) auto

lemma Detect_take: "Detect uni body = find_marker markers (ToLower uni (take scanLimit body))"
  by (simp add: Detect_def)

lemma Detect_short:
  "length body \<le> scanLimit \<Longrightarrow> Detect uni body = find_marker markers (ToLower uni body)"
  by (simp add: Detect_take)

lemma markers_nonempty: "m \<in> set markers \<Longrightarrow> m \<noteq> []"
  by (auto simp: markers_def)

lemma Detect_Some_nonempty: "Detect uni body = Some m \<Longrightarrow> m \<in> set markers \<and> m \<noteq> []"
  using find_marker_Some markers_nonempty unfolding Detect_take by blast

section \<open>Properties\<close>

text \<open>
  \<open>Detect\<close> reports a block exactly when one of the markers occurs in the lower-cased
  first 64 KiB of the body, and the marker it reports is one of them that occurs there.
\<close>

theorem Detect_correct:
  "(Detect uni body = None \<longleftrightarrow>
      \<not> (\<exists>m \<in> set markers. str_contains (ToLower uni (take scanLimit body)) m)) \<and>
   (Detect uni body \<noteq> None \<longrightarrow> the (Detect uni body) \<in> set markers \<and>
      str_contains (ToLower uni (take scanLimit body)) (the (Detect uni body)))"
  using find_marker_Some [of markers] find_marker_None [of markers]
  unfolding Detect_take by auto

theorem Detect_correct_witness:
  "the (Detect id ''<title>Just a moment...</title>'') \<in> set markers"
proof -
  have "find_marker markers (ToLower id ''<title>Just a moment...</title>'') \<noteq> None" by code_simp
  then have "Detect id ''<title>Just a moment...</title>'' \<noteq> None"
    by (subst Detect_short) (simp_all add: scanLimit_def)
  from Detect_correct [THEN conjunct2, rule_format, OF this]
  show ?thesis by (rule conjunct1)
qed

text \<open>
  Detection ignores letter case on ASCII pages, and nothing beyond the first 64 KiB of a
  page can change its outcome.
\<close>

theorem Detect_case_and_bound:
  "(list_all is_ascii (take scanLimit body) \<longrightarrow>
      Detect uni (ascii_lower body) = Detect uni body) \<and>
   (scanLimit \<le> length body \<longrightarrow> Detect uni (body @ tail) = Detect uni body)"
  by (simp add: Detect_take ascii_lower_take [symmetric])

theorem Detect_case_and_bound_witness:
  "Detect id (ascii_lower ''PARDON Our Interruption'') = Detect id ''PARDON Our Interruption'' \<and>
   Detect id (replicate scanLimit CHR ''a'' @ ''just a moment...'') = Detect id (replicate scanLimit CHR ''a'')"
proof -
  have "list_all is_ascii (take scanLimit ''PARDON Our Interruption'')"
    by (simp add: scanLimit_def is_ascii_def)
  then show ?thesis
    using Detect_case_and_bound [of "''PARDON Our Interruption''" id]
      Detect_case_and_bound [of "replicate scanLimit CHR ''a''" id "''just a moment...''"]
    by simp
qed

end
