(* ===== verification/Go_Regexp.thy ===== *)
theory Go_Regexp
  imports Go_Prelude
begin

text \<open>
  Regular expressions with the semantics of Go's \<open>regexp\<close> package: leftmost match, and among
  the matches at one position the first in the order of a backtracking search (greedy
  repetition, left alternative first), with one capture group. A match state is the
  consumed text in reverse, the rest, and the captured text. \<open>matches\<close> lists the ways to
  match in that order. The program's expressions never match the empty string under a
  repetition. Classes are over bytes: the program's classes are ASCII classes and their
  complements, for which this agrees with the rune semantics.
\<close>

section \<open>Expressions and matching\<close>

datatype rexp =
    RCls "char \<Rightarrow> bool"
  | RSeq rexp rexp
  | RAlt rexp rexp
  | RStar rexp
  | REps
  | RBol
  | REol
  | RGrp rexp

type_synonym mstate = "string \<times> string \<times> string option"

abbreviation m_pre :: "mstate \<Rightarrow> string" where "m_pre t \<equiv> fst t"
abbreviation m_rest :: "mstate \<Rightarrow> string" where "m_rest t \<equiv> fst (snd t)"
abbreviation m_grp :: "mstate \<Rightarrow> string option" where "m_grp t \<equiv> snd (snd t)"

fun rep :: "nat \<Rightarrow> (mstate \<Rightarrow> mstate list) \<Rightarrow> mstate \<Rightarrow> mstate list" where
  \<comment> \<open>greedy repetition; every round consumes, so the length of the rest bounds the rounds\<close>
  "rep 0 f t = [t]"
| "rep (Suc n) f t =
     concat (map (\<lambda>u. if length (m_rest u) < length (m_rest t) then rep n f u else []) (f t)) @ [t]"

fun matches :: "rexp \<Rightarrow> mstate \<Rightarrow> mstate list" where
  "matches (RCls P) t = (case m_rest t of
       [] \<Rightarrow> []
     | c # cs \<Rightarrow> if P c then [(c # m_pre t, cs, m_grp t)] else [])"
| "matches (RSeq r1 r2) t = concat (map (matches r2) (matches r1 t))"
| "matches (RAlt r1 r2) t = matches r1 t @ matches r2 t"
| "matches (RStar r) t = rep (length (m_rest t)) (matches r) t"
| "matches REps t = [t]"
| "matches RBol t = (if m_pre t = [] then [t] else [])"
| "matches REol t = (if m_rest t = [] then [t] else [])"
| "matches (RGrp r) t = map (\<lambda>u. (m_pre u, m_rest u,
       Some (rev (take (length (m_pre u) - length (m_pre t)) (m_pre u))))) (matches r t)"

definition RPlus :: "rexp \<Rightarrow> rexp" where "RPlus r = RSeq r (RStar r)"
definition ROpt :: "rexp \<Rightarrow> rexp" where "ROpt r = RAlt r REps"

fun RLit :: "string \<Rightarrow> rexp" where
  "RLit [] = REps"
| "RLit [c] = RCls (\<lambda>x. x = c)"
| "RLit (c # cs) = RSeq (RCls (\<lambda>x. x = c)) (RLit cs)"

fun RLitFold :: "string \<Rightarrow> rexp" where
  \<comment> \<open>a literal of letters without non-ASCII case variants, and other bytes, under (?i)\<close>
  "RLitFold [] = REps"
| "RLitFold (c # cs) = RSeq (RCls (\<lambda>x. lower_char x = lower_char c)) (RLitFold cs)"

fun RSeqs :: "rexp list \<Rightarrow> rexp" where
  "RSeqs [] = REps"
| "RSeqs [r] = r"
| "RSeqs (r # rs) = RSeq r (RSeqs rs)"

definition first_match :: "rexp \<Rightarrow> string \<Rightarrow> string \<Rightarrow> mstate option" where
  "first_match r pre rest = (case matches r (pre, rest, None) of [] \<Rightarrow> None | t # _ \<Rightarrow> Some t)"

fun re_search :: "rexp \<Rightarrow> string \<Rightarrow> string \<Rightarrow> mstate option" where
  \<comment> \<open>the leftmost match of the text whose first part (reversed) is already passed over\<close>
  "re_search r pre [] = first_match r pre []"
| "re_search r pre (c # cs) = (case first_match r pre (c # cs) of
       Some t \<Rightarrow> Some t
     | None \<Rightarrow> re_search r (c # pre) cs)"

definition MatchString :: "rexp \<Rightarrow> string \<Rightarrow> bool" where
  "MatchString r s \<longleftrightarrow> re_search r [] s \<noteq> None"

definition FindSubmatch :: "rexp \<Rightarrow> string \<Rightarrow> string option" where
  \<comment> \<open>m[1] of FindStringSubmatch, None when there is no match\<close>
  "FindSubmatch r s = (case re_search r [] s of None \<Rightarrow> None | Some t \<Rightarrow> m_grp t)"

function replace_all :: "rexp \<Rightarrow> (string \<Rightarrow> string) \<Rightarrow> string \<Rightarrow> string \<Rightarrow> string" where
  \<comment> \<open>ReplaceAllStringFunc for an expression that does not match the empty string\<close>
  "replace_all r f pre [] = []"
| "replace_all r f pre (c # cs) = (case first_match r pre (c # cs) of
       Some t \<Rightarrow>
         if length (m_rest t) < length (c # cs)
         then f (take (length (c # cs) - length (m_rest t)) (c # cs)) @ replace_all r f (m_pre t) (m_rest t)
         else c # replace_all r f (c # pre) cs
     | None \<Rightarrow> c # replace_all r f (c # pre) cs)"
  by pat_completeness auto
termination
  by (relation "measure (\<lambda>(r, f, pre, s). length s)") auto

section \<open>Every match consumes a prefix of the rest\<close>

definition consumes :: "mstate \<Rightarrow> mstate \<Rightarrow> bool" where
  "consumes t u \<longleftrightarrow> (\<exists>w. m_rest t = w @ m_rest u \<and> m_pre u = rev w @ m_pre t)"

lemma consumes_refl [simp]: "consumes t t"
  by (simp add: consumes_def)

lemma consumes_trans: "consumes t u \<Longrightarrow> consumes u v \<Longrightarrow> consumes t v"
  unfolding consumes_def by (metis append.assoc rev_append)

lemma rep_consumes:
  assumes "\<And>t u. u \<in> set (f t) \<Longrightarrow> consumes t u"
  shows "u \<in> set (rep n f t) \<Longrightarrow> consumes t u"
proof (induction n arbitrary: t)
  case (Suc n)
  from Suc.prems consider "u = t" | v where "v \<in> set (f t)" "u \<in> set (rep n f v)"
    by (auto simp del: split_paired_All split_paired_Ex split: if_splits)
  then show ?case
  proof cases
    case 2
    with assms Suc.IH have "consumes t v" "consumes v u" by blast+
    then show ?thesis by (rule consumes_trans)
  qed simp
qed simp

lemma matches_consumes: "u \<in> set (matches r t) \<Longrightarrow> consumes t u"
proof (induction r arbitrary: t u)
  case (RSeq r1 r2)
  from RSeq.prems obtain v where "v \<in> set (matches r1 t)" "u \<in> set (matches r2 v)" by auto
  with RSeq.IH have "consumes t v" "consumes v u" by blast+
  then show ?case by (rule consumes_trans)
next
  case (RStar r)
  then show ?case using rep_consumes [of "matches r"] by (metis matches.simps(4))
next
  case (RGrp r)
  from RGrp.prems obtain v where v: "v \<in> set (matches r t)"
    and "m_pre u = m_pre v" "m_rest u = m_rest v" by auto
  with RGrp.IH [OF v] show ?case by (simp add: consumes_def)
qed (auto simp: consumes_def split: list.splits if_splits)

lemma first_match_consumes: "first_match r pre rest = Some t \<Longrightarrow> consumes (pre, rest, None) t"
  unfolding first_match_def
  by (rule matches_consumes [of t r]) (auto split: list.splits)

lemma re_search_consumes:
  "re_search r pre rest = Some t \<Longrightarrow>
     \<exists>u v. rest = u @ v \<and> consumes (rev u @ pre, v, None) t"
proof (induction r pre rest rule: re_search.induct)
  case (1 r pre)
  then show ?case by (auto dest: first_match_consumes)
next
  case (2 r pre c cs)
  show ?case
  proof (cases "first_match r pre (c # cs)")
    case None
    with 2 obtain u v where "cs = u @ v" "consumes (rev u @ c # pre, v, None) t" by auto
    then show ?thesis by (intro exI [of _ "c # u"] exI [of _ v]) simp
  next
    case (Some t')
    with 2 show ?thesis by (intro exI [of _ "[]"] exI [of _ "c # cs"]) (auto dest: first_match_consumes)
  qed
qed

section \<open>The first match of composed expressions\<close>

text \<open>
  Only the head of the list of matches counts for a search; these rules compute it.
\<close>

lemma matches_Seq_Cons:
  "matches r1 t = u # us \<Longrightarrow> matches r2 u = v # vs \<Longrightarrow> \<exists>ws. matches (RSeq r1 r2) t = v # ws"
  by simp

lemma rep_not_Nil [simp]: "rep n f t \<noteq> []"
  by (cases n) simp_all

lemma rep_Suc_Cons:
  assumes "f t = u # us" "length (m_rest u) < length (m_rest t)" "rep n f u = v # vs"
  shows "\<exists>ws. rep (Suc n) f t = v # ws"
  using assms by simp

lemma rep_stop: "f t = [] \<Longrightarrow> rep n f t = [t]"
  by (cases n) simp_all

text \<open>A greedy class repetition: all the prefixes of the run, longest first.\<close>

lemma rep_cls:
  "length rest \<le> n \<Longrightarrow> rep n (matches (RCls P)) (pre, rest, g) =
     map (\<lambda>k. (rev (take k rest) @ pre, drop k rest, g)) (rev [0..<Suc (length (takeWhile P rest))])"
proof (induction rest arbitrary: n pre)
  case (Cons c cs)
  then obtain m where n: "n = Suc m" "length cs \<le> m" by (cases n) auto
  show ?case
  proof (cases "P c")
    case True
    have "rev [0..<Suc (Suc k)] = map Suc (rev [0..<Suc k]) @ [0]" for k
      by (simp only: upt_conv_Cons [of 0 "Suc (Suc k)"] zero_less_Suc map_Suc_upt [symmetric]
          rev.simps rev_map)
    with True n Cons.IH [OF n(2), of "c # pre"] show ?thesis
      by (simp del: upt_Suc add: comp_def)
  qed (simp add: n rep_stop)
qed (simp add: rep_stop)

lemma matches_star_cls:
  "matches (RStar (RCls P)) (pre, rest, g) =
     map (\<lambda>k. (rev (take k rest) @ pre, drop k rest, g)) (rev [0..<Suc (length (takeWhile P rest))])"
  by (simp only: matches.simps fst_conv snd_conv rep_cls [OF order.refl])

lemma matches_star_cls_Cons:
  "\<exists>us. matches (RStar (RCls P)) (pre, rest, g) =
     (rev (takeWhile P rest) @ pre, dropWhile P rest, g) # us"
  by (simp only: matches_star_cls upt_Suc zero_le if_True rev_append rev.simps append.simps list.map
      takeWhile_eq_take [symmetric] dropWhile_eq_drop [symmetric]) blast

lemma set_matches_star_cls:
  "set (matches (RStar (RCls P)) (pre, rest, g)) =
     {(rev (take k rest) @ pre, drop k rest, g) | k. k \<le> length (takeWhile P rest)}"
  by (auto simp only: matches_star_cls set_map set_rev set_upt atLeast0LessThan lessThan_Suc_atMost)

section \<open>Which texts match\<close>

lemma re_search_iff:
  "re_search r pre rest \<noteq> None \<longleftrightarrow>
     (\<exists>u v. rest = u @ v \<and> matches r (rev u @ pre, v, None) \<noteq> [])"
proof (induction r pre rest rule: re_search.induct)
  case (1 r pre)
  then show ?case by (auto simp: first_match_def split: list.splits)
next
  case (2 r pre c cs)
  show ?case
  proof (cases "matches r (pre, c # cs, None)")
    case Nil
    have "(\<exists>u v. c # cs = u @ v \<and> matches r (rev u @ pre, v, None) \<noteq> []) \<longleftrightarrow>
        (\<exists>u v. cs = u @ v \<and> matches r (rev u @ c # pre, v, None) \<noteq> [])"
    proof
      assume "\<exists>u v. c # cs = u @ v \<and> matches r (rev u @ pre, v, None) \<noteq> []"
      then obtain u v where uv: "c # cs = u @ v" "matches r (rev u @ pre, v, None) \<noteq> []" by blast
      with Nil have "u \<noteq> []" by auto
      with uv show "\<exists>u v. cs = u @ v \<and> matches r (rev u @ c # pre, v, None) \<noteq> []"
        by (cases u) auto
    next
      assume "\<exists>u v. cs = u @ v \<and> matches r (rev u @ c # pre, v, None) \<noteq> []"
      then obtain u v where "c # cs = (c # u) @ v" "matches r (rev (c # u) @ pre, v, None) \<noteq> []" by auto
      then show "\<exists>u v. c # cs = u @ v \<and> matches r (rev u @ pre, v, None) \<noteq> []" by blast
    qed
    with 2 Nil show ?thesis by (simp add: first_match_def)
  next
    case (Cons t ts)
    then have "\<exists>u v. c # cs = u @ v \<and> matches r (rev u @ pre, v, None) \<noteq> []"
      by (intro exI [of _ "[]"] exI [of _ "c # cs"]) simp
    with Cons show ?thesis by (simp add: first_match_def)
  qed
qed

lemma MatchString_iff:
  "MatchString r s \<longleftrightarrow> (\<exists>u v. s = u @ v \<and> matches r (rev u, v, None) \<noteq> [])"
  unfolding MatchString_def re_search_iff by simp

lemma re_search_Some:
  "re_search r pre rest = Some t \<Longrightarrow>
     \<exists>u v. rest = u @ v \<and> t \<in> set (matches r (rev u @ pre, v, None))"
proof (induction r pre rest rule: re_search.induct)
  case (1 r pre)
  then show ?case by (auto simp: first_match_def split: list.splits)
next
  case (2 r pre c cs)
  show ?case
  proof (cases "matches r (pre, c # cs, None)")
    case Nil
    with 2 obtain u v where "cs = u @ v" "t \<in> set (matches r (rev u @ c # pre, v, None))"
      by (auto simp: first_match_def)
    then show ?thesis by (intro exI [of _ "c # u"] exI [of _ v]) simp
  next
    case (Cons t' ts)
    with 2 show ?thesis
      by (intro exI [of _ "[]"] exI [of _ "c # cs"]) (simp add: first_match_def)
  qed
qed

lemma matches_RLit:
  "matches (RLit p) (pre, rest, g) =
     (if has_prefix rest p then [(rev p @ pre, drop (length p) rest, g)] else [])"
proof (induction p arbitrary: pre rest rule: RLit.induct)
  case (2 c)
  then show ?case by (cases rest) auto
next
  case (3 c d cs)
  then show ?case by (cases rest) auto
qed simp

lemma matches_RLitFold:
  "matches (RLitFold p) (pre, rest, g) =
     (if length p \<le> length rest \<and> ascii_lower (take (length p) rest) = ascii_lower p
      then [(rev (take (length p) rest) @ pre, drop (length p) rest, g)] else [])"
proof (induction p arbitrary: pre rest)
  case (Cons c p)
  then show ?case by (cases rest) (auto simp: ascii_lower_def)
qed (simp add: ascii_lower_def)

lemma set_matches_plus_cls:
  "set (matches (RPlus (RCls P)) (pre, rest, g)) =
     {(rev (take k rest) @ pre, drop k rest, g) | k. 1 \<le> k \<and> k \<le> length (takeWhile P rest)}"
proof (cases rest)
  case (Cons c cs)
  have "{(rev (take k (c # cs)) @ pre, drop k (c # cs), g) | k. 1 \<le> k \<and> k \<le> length (takeWhile P (c # cs))}
      = {(rev (take k cs) @ c # pre, drop k cs, g) | k. k \<le> length (takeWhile P cs)}" if "P c"
    using that
    by (auto simp: Suc_le_eq gr0_conv_Suc) (metis Suc_le_mono drop_Suc_Cons rev.simps(2) take_Suc_Cons append.assoc append_Cons append_Nil)+
  then show ?thesis
    using Cons set_matches_star_cls [of P "c # pre" cs g]
    by (auto simp: RPlus_def simp del: matches.simps(4))
qed (simp add: RPlus_def)

end
