(* ===== verification/Reddit_Url.thy ===== *)
theory Reddit_Url
  imports Go_Url Go_Regexp Go_Text Domain_Model
begin

text \<open>
  Recognising Reddit addresses: \<open>hostMatcher\<close> and \<open>IsRedditURL\<close> of
  \<open>internal/engine/reddit/engine.go\<close>, \<open>shareRE\<close>, \<open>permalinkRE\<close>, \<open>IsShareURL\<close> and
  \<open>NormalizePermalink\<close> of \<open>parser.go\<close>. The lemmas state without regular expressions which
  hosts are Reddit hosts and what a permalink looks like.
\<close>

section \<open>Definitions\<close>

definition hostMatcher :: rexp where
  "hostMatcher = RSeq (RGrp (RAlt RBol (RLit ''.''))) (RSeq (RLitFold ''reddit.com'') REol)"

definition IsRedditURL :: "string \<Rightarrow> bool" where
  "IsRedditURL rawURL = (case url_Parse rawURL of
       None \<Rightarrow> False
     | Some u \<Rightarrow> MatchString hostMatcher (Hostname u))"

definition not_slash :: "char \<Rightarrow> bool" where
  "not_slash c \<longleftrightarrow> c \<noteq> CHR ''/''"

definition id_char :: "char \<Rightarrow> bool" where
  "id_char c \<longleftrightarrow> is_lower c \<or> is_digit c"

definition slug_char :: "char \<Rightarrow> bool" where
  "slug_char c \<longleftrightarrow> c \<noteq> CHR ''/'' \<and> c \<noteq> CHR ''?'' \<and> c \<noteq> CHR ''#''"

definition permalink_slug :: rexp where
  "permalink_slug = ROpt (RSeq (RLit ''/'') (RPlus (RCls slug_char)))"

definition permalinkRE :: rexp where
  "permalinkRE = RSeq (RGrp (RSeqs [RLit ''/r/'', RPlus (RCls not_slash), RLit ''/comments/'',
       RPlus (RCls id_char), permalink_slug])) (ROpt (RLit ''/''))"

definition shareRE :: rexp where
  \<comment> \<open>under (?i) the letters s and k also stand for the long s and the Kelvin sign\<close>
  "shareRE = RSeqs [RBol, RLitFold ''/r/'', RPlus (RCls not_slash), RLit ''/'',
     RAlt (RLitFold ''s'') (RLit (encode_rune 383)), RLit ''/'',
     RPlus (RAlt (RCls (\<lambda>c. is_alnum c \<or> c = CHR ''_'' \<or> c = CHR ''-''))
       (RAlt (RLit (encode_rune 8490)) (RLit (encode_rune 383)))),
     ROpt (RLit ''/''), REol]"

lemma fold_variants:
  "encode_rune 8490 = [CHR 0xE2, CHR 0x84, CHR 0xAA]" "encode_rune 383 = [CHR 0xC5, CHR 0xBF]"
proof -
  have "[char_of (226 :: nat), char_of (132 :: nat), char_of (170 :: nat)] = [CHR 0xE2, CHR 0x84, CHR 0xAA]"
    "[char_of (197 :: nat), char_of (191 :: nat)] = [CHR 0xC5, CHR 0xBF]" by code_simp+
  then show "encode_rune 8490 = [CHR 0xE2, CHR 0x84, CHR 0xAA]" "encode_rune 383 = [CHR 0xC5, CHR 0xBF]"
    by (simp_all add: encode_rune_def)
qed

lemma shareRE_code [code]:
  "shareRE = RSeqs [RBol, RLitFold ''/r/'', RPlus (RCls not_slash), RLit ''/'',
     RAlt (RLitFold ''s'') (RLit [CHR 0xC5, CHR 0xBF]), RLit ''/'',
     RPlus (RAlt (RCls (\<lambda>c. is_alnum c \<or> c = CHR ''_'' \<or> c = CHR ''-''))
       (RAlt (RLit [CHR 0xE2, CHR 0x84, CHR 0xAA]) (RLit [CHR 0xC5, CHR 0xBF]))),
     ROpt (RLit ''/''), REol]"
  by (simp only: shareRE_def fold_variants)
definition IsShareURL :: "string \<Rightarrow> bool" where
  "IsShareURL rawURL = (case url_Parse rawURL of
       None \<Rightarrow> False
     | Some u \<Rightarrow> MatchString shareRE (Path u))"

definition url_error :: go_error where
  \<comment> \<open>an error of url.Parse; its text is not modelled\<close>
  "url_error = EText ''invalid URL''"

definition permalink_path :: "URL \<Rightarrow> string" where
  "permalink_path u = trim_suffix (trim_suffix (Path u) ''/'') ''.json''"

definition NormalizePermalink :: "string \<Rightarrow> string res" where
  "NormalizePermalink rawURL = (case url_Parse rawURL of
       None \<Rightarrow> Fail url_error
     | Some u \<Rightarrow> (case FindSubmatch permalinkRE (permalink_path u) of
           None \<Rightarrow> Fail (EText (''not a comments URL: '' @ rawURL))
         | Some m \<Rightarrow> Ok m))"

definition redditOrigin :: string where
  "redditOrigin = ''https://www.reddit.com''"

section \<open>Reddit hosts\<close>

definition reddit_host :: "string \<Rightarrow> bool" where
  "reddit_host h \<longleftrightarrow> ascii_lower h = ''reddit.com'' \<or> has_suffix (ascii_lower h) ''.reddit.com''"

lemma lower_char_not_lower: "\<not> is_lower d \<Longrightarrow> lower_char c = d \<Longrightarrow> c = d"
proof (rule ccontr)
  assume d: "\<not> is_lower d" "lower_char c = d" "c \<noteq> d"
  then have "is_upper c" and e: "d = char_of (byte c + 32)" by (auto simp: lower_char_def split: if_splits)
  then have "byte d = byte c + 32" by (simp add: is_upper_def)
  with d(1) \<open>is_upper c\<close> show False by (simp add: is_lower_def is_upper_def)
qed

lemma matches_reddit_tail:
  "matches (RSeq (RLitFold ''reddit.com'') REol) (pre, v, g) \<noteq> [] \<longleftrightarrow> ascii_lower v = ''reddit.com''"
proof -
  have "ascii_lower v = ''reddit.com'' \<Longrightarrow> length v = 10"
    using length_ascii_lower [of v] by simp
  moreover have "ascii_lower ''reddit.com'' = ''reddit.com''" by (simp add: ascii_lower_def lower_char_def is_upper_def)
  ultimately show ?thesis
    unfolding matches.simps(2) matches_RLitFold by auto
qed

lemma MatchString_hostMatcher: "MatchString hostMatcher h \<longleftrightarrow> reddit_host h"
proof -
  let ?tail = "RSeq (RLitFold ''reddit.com'') REol"
  have step: "matches hostMatcher (rev u, v, None) \<noteq> [] \<longleftrightarrow>
      (u = [] \<and> ascii_lower v = ''reddit.com'') \<or> (v \<noteq> [] \<and> hd v = CHR ''.'' \<and> ascii_lower (tl v) = ''reddit.com'')"
    for u v
    unfolding hostMatcher_def
    by (cases v) (auto simp del: matches.simps(2) RLitFold.simps
        simp add: matches.simps(2) [of "RGrp _"] matches_reddit_tail)
  show ?thesis
    unfolding MatchString_iff step reddit_host_def
  proof
    assume "\<exists>u v. h = u @ v \<and> (u = [] \<and> ascii_lower v = ''reddit.com'' \<or>
        v \<noteq> [] \<and> hd v = CHR ''.'' \<and> ascii_lower (tl v) = ''reddit.com'')"
    then obtain u v where h: "h = u @ v" and
      "u = [] \<and> ascii_lower v = ''reddit.com'' \<or>
        v \<noteq> [] \<and> hd v = CHR ''.'' \<and> ascii_lower (tl v) = ''reddit.com''" by blast
    then show "ascii_lower h = ''reddit.com'' \<or> has_suffix (ascii_lower h) ''.reddit.com''"
    proof (elim disjE conjE)
      assume v: "v \<noteq> []" "hd v = CHR ''.''" "ascii_lower (tl v) = ''reddit.com''"
      then have "v = CHR ''.'' # tl v" by (metis list.collapse)
      then have "ascii_lower v = lower_char (CHR ''.'') # ascii_lower (tl v)"
        by (metis ascii_lower_def list.simps(9))
      then have "ascii_lower v = ''.reddit.com''" using v by (simp add: lower_char_def is_upper_def)
      with h show ?thesis by (simp add: has_suffix_iff)
    qed simp
  next
    assume "ascii_lower h = ''reddit.com'' \<or> has_suffix (ascii_lower h) ''.reddit.com''"
    then show "\<exists>u v. h = u @ v \<and> (u = [] \<and> ascii_lower v = ''reddit.com'' \<or>
        v \<noteq> [] \<and> hd v = CHR ''.'' \<and> ascii_lower (tl v) = ''reddit.com'')"
    proof
      assume "has_suffix (ascii_lower h) ''.reddit.com''"
      then obtain t where "ascii_lower h = t @ CHR ''.'' # ''reddit.com''"
        by (auto simp: has_suffix_iff)
      then obtain u c w where h: "h = u @ c # w" "lower_char c = CHR ''.''" "ascii_lower w = ''reddit.com''"
        unfolding ascii_lower_def by (auto simp: map_eq_append_conv map_eq_Cons_conv)
      then have "c = CHR ''.''" using lower_char_not_lower [of "CHR ''.''" c] by (simp add: is_lower_def)
      with h show ?thesis by (intro exI [of _ u] exI [of _ "c # w"]) simp
    qed (intro exI [of _ "[]"] exI [of _ h], simp)
  qed
qed

lemma IsRedditURL_iff:
  "IsRedditURL rawURL \<longleftrightarrow> (\<exists>u. url_Parse rawURL = Some u \<and> reddit_host (Hostname u))"
  by (auto simp: IsRedditURL_def MatchString_hostMatcher split: option.splits)

section \<open>Permalinks\<close>

definition permalink_parts :: "string \<Rightarrow> string \<Rightarrow> string \<Rightarrow> bool" where
  \<comment> \<open>the subreddit, the post id and what follows the id\<close>
  "permalink_parts sub i slug \<longleftrightarrow>
     sub \<noteq> [] \<and> list_all not_slash sub \<and> i \<noteq> [] \<and> list_all id_char i \<and>
     (slug = [] \<or> (\<exists>t. slug = CHR ''/'' # t \<and> t \<noteq> [] \<and> list_all slug_char t))"

definition canonical_permalink :: "string \<Rightarrow> bool" where
  "canonical_permalink p \<longleftrightarrow>
     (\<exists>sub i slug. permalink_parts sub i slug \<and> p = ''/r/'' @ sub @ ''/comments/'' @ i @ slug)"

abbreviation permalink_body :: rexp where
  "permalink_body \<equiv> RSeqs [RLit ''/r/'', RPlus (RCls not_slash), RLit ''/comments/'',
     RPlus (RCls id_char), permalink_slug]"

lemma run_prefix:
  "(\<exists>k. 1 \<le> k \<and> k \<le> length (takeWhile P s) \<and> w = take k s \<and> v = drop k s) \<longleftrightarrow>
     s = w @ v \<and> w \<noteq> [] \<and> list_all P w"
proof (intro iffI; elim exE conjE)
  fix k assume k: "1 \<le> k" "k \<le> length (takeWhile P s)" "w = take k s" "v = drop k s"
  have "s = w @ v" and "w \<noteq> []" using k by auto
  moreover have "w = take k (takeWhile P s)"
    using k by (metis takeWhile_dropWhile_id take_append append_Nil2 take_0 diff_is_0_eq)
  then have "list_all P w" unfolding list_all_iff by (metis in_set_takeD set_takeWhileD)
  ultimately show "s = w @ v \<and> w \<noteq> [] \<and> list_all P w" by blast
next
  assume w: "s = w @ v" "w \<noteq> []" "list_all P w"
  then have "takeWhile P s = w @ takeWhile P v" by (simp add: takeWhile_append2 list_all_iff)
  with w show "\<exists>k. 1 \<le> k \<and> k \<le> length (takeWhile P s) \<and> w = take k s \<and> v = drop k s"
    by (intro exI [of _ "length w"]) (simp add: Suc_le_eq)
qed

lemma in_plus_cls:
  "(pre', v, g') \<in> set (matches (RPlus (RCls P)) (pre, s, g)) \<longleftrightarrow>
     (\<exists>w. s = w @ v \<and> pre' = rev w @ pre \<and> g' = g \<and> w \<noteq> [] \<and> list_all P w)"
proof -
  have "(pre', v, g') \<in> set (matches (RPlus (RCls P)) (pre, s, g)) \<longleftrightarrow>
      (\<exists>w. (\<exists>k. 1 \<le> k \<and> k \<le> length (takeWhile P s) \<and> w = take k s \<and> v = drop k s) \<and>
        pre' = rev w @ pre \<and> g' = g)"
    unfolding set_matches_plus_cls by auto
  then show ?thesis unfolding run_prefix by blast
qed

lemma in_lit:
  "(pre', v, g') \<in> set (matches (RLit p) (pre, s, g)) \<longleftrightarrow> s = p @ v \<and> pre' = rev p @ pre \<and> g' = g"
  by (auto simp: matches_RLit has_prefix_iff)

lemma in_seq:
  "u \<in> set (matches (RSeq r1 r2) t) \<longleftrightarrow>
     (\<exists>a b c. (a, b, c) \<in> set (matches r1 t) \<and> u \<in> set (matches r2 (a, b, c)))"
  by auto

lemma in_slug:
  "(pre', v, g') \<in> set (matches permalink_slug (pre, s, g)) \<longleftrightarrow>
     (\<exists>w. s = w @ v \<and> pre' = rev w @ pre \<and> g' = g \<and>
        (w = [] \<or> (\<exists>t. w = CHR ''/'' # t \<and> t \<noteq> [] \<and> list_all slug_char t)))"
  (is "?L \<longleftrightarrow> ?R")
proof -
  have "?L \<longleftrightarrow> (\<exists>a b c. (a, b, c) \<in> set (matches (RLit ''/'') (pre, s, g)) \<and>
       (pre', v, g') \<in> set (matches (RPlus (RCls slug_char)) (a, b, c))) \<or> (pre', v, g') = (pre, s, g)"
    unfolding permalink_slug_def ROpt_def matches.simps(3,5) set_append Un_iff in_seq by simp
  also have "\<dots> \<longleftrightarrow> ?R" unfolding in_lit in_plus_cls by fastforce
  finally show ?thesis .
qed

lemma in_permalink_body:
  "(pre', v, g') \<in> set (matches permalink_body (pre, s, g)) \<longleftrightarrow>
     (\<exists>p. canonical_permalink p \<and> s = p @ v \<and> pre' = rev p @ pre \<and> g' = g)"
  unfolding RSeqs.simps in_seq in_lit in_plus_cls in_slug canonical_permalink_def permalink_parts_def
  by (auto; fastforce)

lemma in_permalinkRE:
  "(pre', v, g') \<in> set (matches permalinkRE (pre, s, g)) \<Longrightarrow>
     \<exists>p r. canonical_permalink p \<and> s = p @ r \<and> g' = Some p"
proof -
  assume "(pre', v, g') \<in> set (matches permalinkRE (pre, s, g))"
  then obtain a b c a' b' c' where body: "(a, b, c) \<in> set (matches permalink_body (pre, s, g))"
    and grp: "a' = a" "b' = b" "c' = Some (rev (take (length a - length pre) a))"
    and tail: "(pre', v, g') \<in> set (matches (ROpt (RLit ''/'')) (a', b', c'))"
    unfolding permalinkRE_def in_seq by (auto simp del: RSeqs.simps)
  from body obtain p where p: "canonical_permalink p" "s = p @ b" "a = rev p @ pre"
    unfolding in_permalink_body by blast
  have "g' = c'" using tail unfolding ROpt_def matches.simps(3,5) set_append Un_iff in_lit by auto
  with p grp show ?thesis by auto
qed

lemma permalinkRE_matches:
  "canonical_permalink p \<Longrightarrow> matches permalinkRE (pre, p @ r, g) \<noteq> []"
proof -
  assume "canonical_permalink p"
  then have "(rev p @ pre, r, g) \<in> set (matches permalink_body (pre, p @ r, g))"
    unfolding in_permalink_body by blast
  moreover have "matches (ROpt t) u \<noteq> []" for t u by (simp add: ROpt_def)
  ultimately show ?thesis unfolding permalinkRE_def by (auto simp del: RSeqs.simps)
qed

lemma FindSubmatch_permalink:
  "FindSubmatch permalinkRE s = Some p \<Longrightarrow> canonical_permalink p \<and> str_contains s p"
proof -
  assume "FindSubmatch permalinkRE s = Some p"
  then obtain t where t: "re_search permalinkRE [] s = Some t" "m_grp t = Some p"
    by (auto simp: FindSubmatch_def split: option.splits)
  from re_search_Some [OF t(1)] obtain u v where
    uv: "s = u @ v" "t \<in> set (matches permalinkRE (rev u @ [], v, None))" by blast
  obtain a b where "t = (a, b, Some p)" using t(2) by (cases t) auto
  with in_permalinkRE [of a b "Some p" "rev u @ []" v None] uv(2) obtain r where "canonical_permalink p" "v = p @ r" by auto
  with uv(1) show ?thesis by (auto simp: str_contains_iff)
qed

lemma FindSubmatch_permalink_None:
  "FindSubmatch permalinkRE s = None \<longleftrightarrow> \<not> (\<exists>a p b. s = a @ p @ b \<and> canonical_permalink p)"
proof
  assume None: "FindSubmatch permalinkRE s = None"
  have "re_search permalinkRE [] s = None"
  proof (rule ccontr)
    assume "re_search permalinkRE [] s \<noteq> None"
    then obtain t where t: "re_search permalinkRE [] s = Some t" by blast
    from re_search_Some [OF this] obtain u v where
      uv: "t \<in> set (matches permalinkRE (rev u @ [], v, None))" by blast
    obtain a b g where tt: "t = (a, b, g)" by (cases t)
    with in_permalinkRE [of a b g] uv obtain p where "g = Some p" by blast
    with t None tt show False by (simp add: FindSubmatch_def)
  qed
  then show "\<not> (\<exists>a p b. s = a @ p @ b \<and> canonical_permalink p)"
    using permalinkRE_matches by (metis append_Nil2 re_search_iff)
next
  assume no: "\<not> (\<exists>a p b. s = a @ p @ b \<and> canonical_permalink p)"
  show "FindSubmatch permalinkRE s = None"
  proof (rule ccontr)
    assume "FindSubmatch permalinkRE s \<noteq> None"
    then obtain p where "FindSubmatch permalinkRE s = Some p" by blast
    from FindSubmatch_permalink [OF this] no show False by (auto simp: str_contains_iff)
  qed
qed

section \<open>A permalink is found whole in its own address\<close>

lemma matches_plus_cls_Cons:
  assumes "w \<noteq> []" "list_all P w" "v = [] \<or> \<not> P (hd v)"
  shows "\<exists>us. matches (RPlus (RCls P)) (pre, w @ v, g) = (rev w @ pre, v, g) # us"
proof -
  obtain c w' where w: "w = c # w'" using assms(1) by (cases w) auto
  have "takeWhile P (w' @ v) = w'" "dropWhile P (w' @ v) = v"
    using assms w by (cases v; simp add: list_all_iff takeWhile_append2 dropWhile_append2)+
  then show ?thesis
    using matches_star_cls_Cons [of P "c # pre" "w' @ v" g] w assms(2)
    by (simp add: RPlus_def del: matches.simps(4))
qed

lemma matches_slug_Cons:
  assumes "w = [] \<or> (\<exists>t. w = CHR ''/'' # t \<and> t \<noteq> [] \<and> list_all slug_char t)"
  shows "\<exists>us. matches permalink_slug (pre, w, g) = (rev w @ pre, [], g) # us"
proof (cases w)
  case Nil
  then show ?thesis by (simp add: permalink_slug_def ROpt_def)
next
  case (Cons c t)
  with assms have "c = CHR ''/''" "t \<noteq> []" "list_all slug_char t" by auto
  moreover obtain us where "matches (RPlus (RCls slug_char)) (CHR ''/'' # pre, t @ [], g)
      = (rev t @ CHR ''/'' # pre, [], g) # us"
    using matches_plus_cls_Cons [of t slug_char "[]"] \<open>t \<noteq> []\<close> \<open>list_all slug_char t\<close> by blast
  ultimately show ?thesis using Cons by (simp add: permalink_slug_def ROpt_def)
qed

lemma matches_permalink_whole:
  assumes "canonical_permalink p"
  shows "\<exists>us. matches permalinkRE ([], p, None) = (rev p, [], Some p) # us"
proof -
  obtain sub i slug where parts: "permalink_parts sub i slug"
    and p: "p = ''/r/'' @ sub @ ''/comments/'' @ i @ slug"
    using assms by (auto simp: canonical_permalink_def)
  let ?p1 = "rev ''/r/''" and ?rest1 = "sub @ ''/comments/'' @ i @ slug"
  have m1: "matches (RLit ''/r/'') ([], p, None) = [(?p1 @ [], ?rest1, None)]"
    by (simp add: p matches_RLit)
  obtain us2 where m2: "matches (RPlus (RCls not_slash)) (?p1 @ [], ?rest1, None)
      = (rev sub @ ?p1, ''/comments/'' @ i @ slug, None) # us2"
    using matches_plus_cls_Cons [of sub not_slash "''/comments/'' @ i @ slug" "?p1 @ []" None] parts
    by (auto simp: permalink_parts_def not_slash_def)
  let ?p2 = "rev ''/comments/'' @ rev sub @ ?p1"
  have m3: "matches (RLit ''/comments/'') (rev sub @ ?p1, ''/comments/'' @ i @ slug, None)
      = [(?p2, i @ slug, None)]"
    by (simp add: matches_RLit)
  have "slug = [] \<or> \<not> id_char (hd slug)"
    using parts by (auto simp: permalink_parts_def id_char_def is_lower_def is_digit_def)
  then obtain us4 where m4: "matches (RPlus (RCls id_char)) (?p2, i @ slug, None)
      = (rev i @ ?p2, slug, None) # us4"
    using matches_plus_cls_Cons [of i id_char slug ?p2 None] parts by (auto simp: permalink_parts_def)
  obtain us5 where m5: "matches permalink_slug (rev i @ ?p2, slug, None)
      = (rev slug @ rev i @ ?p2, [], None) # us5"
    using matches_slug_Cons [of slug "rev i @ ?p2" None] parts by (auto simp: permalink_parts_def)
  have revp: "rev slug @ rev i @ ?p2 = rev p" by (simp add: p)
  from matches_Seq_Cons [OF m4 m5] obtain vs4 where
    e4: "matches (RSeq (RPlus (RCls id_char)) permalink_slug) (?p2, i @ slug, None) = (rev p, [], None) # vs4"
    unfolding revp by blast
  from matches_Seq_Cons [OF m3 e4] obtain vs3 where
    e3: "matches (RSeq (RLit ''/comments/'') (RSeq (RPlus (RCls id_char)) permalink_slug))
      (rev sub @ ?p1, ''/comments/'' @ i @ slug, None) = (rev p, [], None) # vs3" by blast
  from matches_Seq_Cons [OF m2 e3] obtain vs2 where
    e2: "matches (RSeq (RPlus (RCls not_slash))
        (RSeq (RLit ''/comments/'') (RSeq (RPlus (RCls id_char)) permalink_slug)))
      (?p1 @ [], ?rest1, None) = (rev p, [], None) # vs2" by blast
  from matches_Seq_Cons [OF m1 e2] obtain us where
    "matches permalink_body ([], p, None) = (rev p, [], None) # us"
    unfolding RSeqs.simps by blast
  then show ?thesis
    by (simp add: permalinkRE_def ROpt_def del: RSeqs.simps)
qed

definition plain_path :: "string \<Rightarrow> bool" where
  \<comment> \<open>a path that needs no escaping: no percent sign, query or fragment mark, control byte\<close>
  "plain_path p \<longleftrightarrow> \<not> has_ctl_byte p \<and> list_all (\<lambda>c. c \<notin> set ''%?#'') p"

lemma cut_at_none: "d \<notin> set s \<Longrightarrow> cut_at s d = (s, [], False)"
  by (simp add: cut_at_def)

lemma parse_reddit_host: "parseAuthority ''www.reddit.com'' = Some ''www.reddit.com''"
  by code_simp

lemma url_Parse_reddit:
  assumes "plain_path p" "has_prefix p ''/''"
  shows "url_Parse (redditOrigin @ p) =
    Some \<lparr>Scheme = ''https'', Opaque = [], Host = ''www.reddit.com'', Path = p, RawQuery = []\<rparr>"
proof -
  let ?raw = "redditOrigin @ p" and ?rest = "''//www.reddit.com'' @ p"
  obtain q where p: "p = CHR ''/'' # q" using assms(2) by (cases p) auto
  have set: "CHR ''#'' \<notin> set p" "CHR ''?'' \<notin> set p" "CHR ''%'' \<notin> set p"
    using assms(1) by (auto simp: plain_path_def list_all_iff)
  have cuts: "cut_at ?raw CHR ''#'' = (?raw, [], False)" "cut_at ?rest CHR ''?'' = (?rest, [], False)"
    using set by (intro cut_at_none; simp add: redditOrigin_def)+
  have "\<not> has_ctl_byte ?raw"
    using assms(1) by (simp add: has_ctl_byte_def plain_path_def redditOrigin_def)
  moreover have "?raw \<noteq> ''*''" by (simp add: redditOrigin_def)
  moreover have "getScheme ?raw = Some (''https'', ?rest)"
    by (simp add: getScheme_def redditOrigin_def is_lower_def is_upper_def is_digit_def)
  moreover have "ascii_lower ''https'' = ''https''"
    by (simp add: ascii_lower_def lower_char_def is_upper_def)
  moreover have "parse_rest ''https'' ?rest [] =
      Some \<lparr>Scheme = ''https'', Opaque = [], Host = ''www.reddit.com'', Path = p, RawQuery = []\<rparr>"
    using parse_reddit_host unescape_plain [OF set(3)]
    by (simp add: parse_rest_def p)
  ultimately show ?thesis
    using cuts by (simp add: url_Parse_def parse_nofrag_def)
qed

lemma canonical_start: "canonical_permalink p \<Longrightarrow> has_prefix p ''/''"
  by (auto simp: canonical_permalink_def)

lemma canonical_no_final_slash: "canonical_permalink p \<Longrightarrow> \<not> has_suffix p ''/''"
proof -
  assume "canonical_permalink p"
  then obtain sub i slug where parts: "permalink_parts sub i slug"
    and p: "p = ''/r/'' @ sub @ ''/comments/'' @ i @ slug"
    by (auto simp: canonical_permalink_def)
  have "last (i @ slug) \<noteq> CHR ''/''"
  proof (cases "slug = []")
    case True
    then have "last (i @ slug) \<in> set i" using parts by (simp add: permalink_parts_def)
    with parts show ?thesis
      by (auto simp: permalink_parts_def list_all_iff id_char_def is_lower_def is_digit_def)
  next
    case False
    with parts obtain t where t: "slug = CHR ''/'' # t" "t \<noteq> []" "list_all slug_char t"
      by (auto simp: permalink_parts_def)
    then have "last (i @ slug) \<in> set t" by simp
    with t(3) show ?thesis by (auto simp: list_all_iff slug_char_def)
  qed
  moreover have "i @ slug \<noteq> []" using parts by (simp add: permalink_parts_def)
  moreover have "p = (''/r/'' @ sub @ ''/comments/'') @ (i @ slug)" by (simp add: p)
  ultimately have "last p \<noteq> CHR ''/''" by (metis last_appendR)
  then show ?thesis by (auto simp: has_suffix_iff)
qed

lemma trim_suffix_none: "\<not> has_suffix s p \<Longrightarrow> trim_suffix s p = s"
  by (simp add: trim_suffix_def)

text \<open>
  C23: \<open>NormalizePermalink\<close> succeeds exactly on the addresses whose path contains a
  permalink, /r/, a subreddit segment, /comments/, a lower-case alphanumeric id and
  optionally one more segment without a query or fragment mark, and what it returns is such
  a permalink, found in that path.
\<close>

theorem NormalizePermalink_correct:
  "(NormalizePermalink rawURL = Ok p \<longrightarrow>
      canonical_permalink p \<and>
      (\<exists>u. url_Parse rawURL = Some u \<and> str_contains (permalink_path u) p)) \<and>
   ((\<exists>q. NormalizePermalink rawURL = Ok q) \<longleftrightarrow>
      (\<exists>u a q b. url_Parse rawURL = Some u \<and> permalink_path u = a @ q @ b \<and> canonical_permalink q))"
proof
  show "NormalizePermalink rawURL = Ok p \<longrightarrow>
      canonical_permalink p \<and>
      (\<exists>u. url_Parse rawURL = Some u \<and> str_contains (permalink_path u) p)"
    using FindSubmatch_permalink
    by (auto simp: NormalizePermalink_def split: option.splits)
  show "(\<exists>q. NormalizePermalink rawURL = Ok q) \<longleftrightarrow>
      (\<exists>u a q b. url_Parse rawURL = Some u \<and> permalink_path u = a @ q @ b \<and> canonical_permalink q)"
  proof (cases "url_Parse rawURL")
    case (Some u)
    then show ?thesis
      using FindSubmatch_permalink_None [of "permalink_path u"]
      by (cases "FindSubmatch permalinkRE (permalink_path u)") (auto simp: NormalizePermalink_def)
  qed (simp add: NormalizePermalink_def)
qed


theorem NormalizePermalink_correct_witness:
  "canonical_permalink ''/r/golang/comments/1abc9z/a_post'' \<and>
   str_contains ''/r/golang/comments/1abc9z/a_post'' ''/r/golang/comments/1abc9z/a_post''"
proof -
  let ?url = "''https://old.reddit.com/r/golang/comments/1abc9z/a_post.json?limit=5''"
  have "NormalizePermalink ?url = Ok ''/r/golang/comments/1abc9z/a_post''" by code_simp
  moreover have "map_option permalink_path (url_Parse ?url) = Some ''/r/golang/comments/1abc9z/a_post''"
    by code_simp
  ultimately show ?thesis
    using NormalizePermalink_correct [of ?url "''/r/golang/comments/1abc9z/a_post''"] by auto
qed

text \<open>
  C24: Normalising is stable. The address made of the Reddit origin and a permalink whose
  bytes need no escaping (and which does not end in .json) normalises to that permalink.
\<close>

theorem NormalizePermalink_roundtrip:
  assumes "canonical_permalink p" "plain_path p" "\<not> has_suffix p ''.json''"
  shows "NormalizePermalink (redditOrigin @ p) = Ok p"
proof -
  have "permalink_path \<lparr>Scheme = ''https'', Opaque = [], Host = ''www.reddit.com'', Path = p, RawQuery = []\<rparr> = p"
    using assms(3) canonical_no_final_slash [OF assms(1)]
    by (simp add: permalink_path_def trim_suffix_none)
  moreover obtain us where "matches permalinkRE ([], p, None) = (rev p, [], Some p) # us"
    using matches_permalink_whole [OF assms(1)] by blast
  then have "FindSubmatch permalinkRE p = Some p"
    by (cases p) (simp_all add: FindSubmatch_def first_match_def)
  ultimately show ?thesis
    using url_Parse_reddit [OF assms(2) canonical_start [OF assms(1)]]
    by (simp add: NormalizePermalink_def)
qed

theorem NormalizePermalink_roundtrip_witness:
  "NormalizePermalink (redditOrigin @ ''/r/golang/comments/1abc9z/a_post'') = Ok ''/r/golang/comments/1abc9z/a_post''"
proof (rule NormalizePermalink_roundtrip)
  show "canonical_permalink ''/r/golang/comments/1abc9z/a_post''"
    unfolding canonical_permalink_def
    by (intro exI [of _ "''golang''"] exI [of _ "''1abc9z''"] exI [of _ "''/a_post''"])
       (simp add: permalink_parts_def not_slash_def id_char_def slug_char_def is_lower_def is_digit_def)
qed (simp_all add: plain_path_def has_ctl_byte_def has_suffix_def)

text \<open>
  C25: A host is taken for Reddit exactly when it is reddit.com or ends in .reddit.com,
  letter case aside; a host such as evilreddit.com or reddit.com.evil.org is not.
\<close>

theorem IsRedditURL_exact:
  "IsRedditURL rawURL \<longleftrightarrow>
     (\<exists>u. url_Parse rawURL = Some u \<and>
        (ascii_lower (Hostname u) = ''reddit.com'' \<or> has_suffix (ascii_lower (Hostname u)) ''.reddit.com''))"
  by (simp add: IsRedditURL_iff reddit_host_def)

text \<open>
  The subreddit segment of \<open>permalinkRE\<close> excludes the slash only, so an escaped query
  mark in it survives into the permalink as a real one: the address fetched for it carries
  the attacker's query string.
\<close>

theorem NormalizePermalink_query_injection:
  "NormalizePermalink ''https://www.reddit.com/r/a%3Fx=1%23/comments/abc'' = Ok ''/r/a?x=1#/comments/abc''"
  by code_simp

end
