(* ===== verification/Reddit_Text.thy ===== *)
theory Reddit_Text
  imports Go_Regexp Go_Text
begin

text \<open>
  The text clean-up of \<open>internal/engine/reddit/parser.go\<close>: \<open>cleanBody\<close> with its two
  regular expressions, and the fullname prefixes. The regular-expression passes are shown
  equal to one-pass functions over the maximal runs of white space (\<open>collapseRuns\<close>,
  \<open>clampRuns\<close>); the normal form of a cleaned body follows from those.
\<close>

section \<open>Definitions\<close>

definition hspace :: "char \<Rightarrow> bool" where
  \<comment> \<open>the class [ \\t\\f\\v]\<close>
  "hspace c \<longleftrightarrow> byte c \<in> {32, 9, 12, 11}"

definition newline :: char where
  "newline = CHR 0x0A"

definition wsNewlineRunRE :: rexp where
  "wsNewlineRunRE = RSeq (RStar (RCls hspace))
     (RPlus (RSeq (RCls (\<lambda>c. c = newline)) (RStar (RCls hspace))))"

definition wsHorizontalRE :: rexp where
  "wsHorizontalRE = RSeq (RCls hspace) (RSeq (RCls hspace) (RStar (RCls hspace)))"

definition clamp_newlines :: "string \<Rightarrow> string" where
  "clamp_newlines m = (if 2 \<le> count_list m newline then [newline, newline] else [newline])"

definition cleanBody :: "string \<Rightarrow> string" where
  "cleanBody s =
     (if s = [] then s
      else let s1 = replace_all wsHorizontalRE (\<lambda>_. '' '') [] s;
               s2 = replace_all wsNewlineRunRE clamp_newlines [] s1
           in TrimSpace s2)"

definition kindCommentPrefix :: string where "kindCommentPrefix = ''t1_''"
definition kindPostPrefix :: string where "kindPostPrefix = ''t3_''"

definition stripFullnamePrefix :: "string \<Rightarrow> string" where
  "stripFullnamePrefix s =
     (if has_prefix s kindCommentPrefix \<or> has_prefix s kindPostPrefix then drop 3 s else s)"

section \<open>The two passes as functions over runs\<close>

definition wspace :: "char \<Rightarrow> bool" where
  "wspace c \<longleftrightarrow> hspace c \<or> c = newline"

function collapseRuns :: "string \<Rightarrow> string" where
  "collapseRuns [] = []"
| "collapseRuns (c # cs) =
     (if hspace c \<and> cs \<noteq> [] \<and> hspace (hd cs)
      then CHR '' '' # collapseRuns (dropWhile hspace cs)
      else c # collapseRuns cs)"
  by pat_completeness auto
termination
  by (relation "measure length") (auto simp: le_imp_less_Suc length_dropWhile_le)

function clampRuns :: "string \<Rightarrow> string" where
  "clampRuns [] = []"
| "clampRuns (c # cs) =
     (if newline \<in> set (takeWhile wspace (c # cs))
      then clamp_newlines (takeWhile wspace (c # cs)) @ clampRuns (dropWhile wspace (c # cs))
      else c # clampRuns cs)"
  by pat_completeness auto
termination
  by (relation "measure length") (auto simp: le_imp_less_Suc length_dropWhile_le)

lemma hspace_newline [simp]: "\<not> hspace newline"
  by (simp add: hspace_def newline_def)

lemma hspace_blank [simp]: "hspace CHR '' ''"
  by (simp add: hspace_def)

lemma first_match_horizontal:
  "first_match wsHorizontalRE pre s =
     (if 2 \<le> length (takeWhile hspace s)
      then Some (rev (takeWhile hspace s) @ pre, dropWhile hspace s, None) else None)"
proof (cases s)
  case (Cons a t)
  show ?thesis
  proof (cases t)
    case (Cons b r)
    obtain us where "matches (RStar (RCls hspace)) (b # a # pre, r, None)
        = (rev (takeWhile hspace r) @ b # a # pre, dropWhile hspace r, None) # us"
      using matches_star_cls_Cons by blast
    with Cons \<open>s = a # t\<close> show ?thesis
      by (simp add: first_match_def wsHorizontalRE_def del: matches.simps(4))
  qed (simp add: \<open>s = a # t\<close> first_match_def wsHorizontalRE_def)
qed (simp add: first_match_def wsHorizontalRE_def)

lemma replace_horizontal: "replace_all wsHorizontalRE (\<lambda>_. '' '') pre s = collapseRuns s"
proof (induction s arbitrary: pre rule: length_induct)
  case (1 s)
  show ?case
  proof (cases s)
    case (Cons c cs)
    have run: "2 \<le> length (takeWhile hspace s) \<longleftrightarrow> hspace c \<and> cs \<noteq> [] \<and> hspace (hd cs)"
      using Cons by (cases cs) auto
    have "length (dropWhile hspace s) \<le> length cs" if "hspace c"
      using that Cons by (simp add: length_dropWhile_le)
    with 1 Cons run show ?thesis
      by (auto simp: first_match_horizontal le_imp_less_Suc)
  qed simp
qed

abbreviation newline_group :: rexp where
  "newline_group \<equiv> RSeq (RCls (\<lambda>c. c = newline)) (RStar (RCls hspace))"

lemma matches_newline_group:
  "\<exists>us. matches newline_group (p, newline # r, g)
     = (rev (takeWhile hspace r) @ newline # p, dropWhile hspace r, g) # us"
  using matches_star_cls_Cons [of hspace "newline # p" r g] by (simp del: matches.simps(4))

lemma matches_newline_group_Nil:
  "s = [] \<or> hd s \<noteq> newline \<Longrightarrow> matches newline_group (p, s, g) = []"
  by (cases s) auto

lemma wspace_newline [simp]: "wspace newline"
  by (simp add: wspace_def)

lemma takeWhile_wspace_split:
  "takeWhile wspace s = takeWhile hspace s @ takeWhile wspace (dropWhile hspace s)"
  "dropWhile wspace s = dropWhile wspace (dropWhile hspace s)"
  by (induction s) (auto simp: wspace_def)

lemma rep_newline_group:
  "length r \<le> n \<Longrightarrow> r = [] \<or> \<not> hspace (hd r) \<Longrightarrow>
     \<exists>us. rep n (matches newline_group) (p, r, g)
       = (rev (takeWhile wspace r) @ p, dropWhile wspace r, g) # us"
proof (induction n arbitrary: r p)
  case (Suc n)
  show ?case
  proof (cases "r \<noteq> [] \<and> hd r = newline")
    case True
    then obtain q where r: "r = newline # q" by (cases r) auto
    let ?d = "dropWhile hspace q" and ?p = "rev (takeWhile hspace q) @ newline # p"
    have d: "length ?d \<le> n" "?d = [] \<or> \<not> hspace (hd ?d)"
      using Suc.prems(1) r length_dropWhile_le [of hspace q] hd_dropWhile [of hspace q] by auto
    obtain us where us: "matches newline_group (p, r, g) = (?p, ?d, g) # us"
      using matches_newline_group r by blast
    obtain vs where vs: "rep n (matches newline_group) (?p, ?d, g)
        = (rev (takeWhile wspace ?d) @ ?p, dropWhile wspace ?d, g) # vs"
      using Suc.IH [OF d] by blast
    have "length ?d < length r" using r length_dropWhile_le [of hspace q] by simp
    with rep_Suc_Cons [of "matches newline_group", OF us _ vs]
    obtain ws where "rep (Suc n) (matches newline_group) (p, r, g)
        = (rev (takeWhile wspace ?d) @ ?p, dropWhile wspace ?d, g) # ws" by auto
    moreover have "rev (takeWhile wspace r) @ p = rev (takeWhile wspace ?d) @ ?p"
      and "dropWhile wspace r = dropWhile wspace ?d"
      using takeWhile_wspace_split [of q] r by simp_all
    ultimately show ?thesis by metis
  next
    case False
    with Suc.prems have "r = [] \<or> \<not> wspace (hd r)" by (auto simp: wspace_def)
    then have "takeWhile wspace r = []" "dropWhile wspace r = r" by (cases r; simp)+
    moreover have "matches newline_group (p, r, g) = []"
      using False by (intro matches_newline_group_Nil) auto
    ultimately show ?thesis by (simp add: rep_stop del: rep.simps matches.simps)
  qed
qed simp

lemma first_match_newline_run:
  "first_match wsNewlineRunRE pre s =
     (if dropWhile hspace s \<noteq> [] \<and> hd (dropWhile hspace s) = newline
      then Some (rev (takeWhile wspace s) @ pre, dropWhile wspace s, None) else None)"
proof (cases "dropWhile hspace s \<noteq> [] \<and> hd (dropWhile hspace s) = newline")
  case True
  then obtain q where q: "dropWhile hspace s = newline # q"
    by (cases "dropWhile hspace s") auto
  let ?p = "rev (takeWhile hspace s) @ pre" and ?d = "dropWhile hspace q"
  let ?p' = "rev (takeWhile hspace q) @ newline # ?p"
  obtain us where us: "matches (RStar (RCls hspace)) (pre, s, None) = (?p, newline # q, None) # us"
    using matches_star_cls_Cons [of hspace pre s None] q by auto
  obtain vs where vs: "matches newline_group (?p, newline # q, None) = (?p', ?d, None) # vs"
    using matches_newline_group by blast
  have d: "?d = [] \<or> \<not> hspace (hd ?d)" using hd_dropWhile [of hspace q] by auto
  obtain ws where ws: "matches (RStar newline_group) (?p', ?d, None)
      = (rev (takeWhile wspace ?d) @ ?p', dropWhile wspace ?d, None) # ws"
    using rep_newline_group [OF order.refl d] by fastforce
  from matches_Seq_Cons [OF vs ws] obtain xs where
    "matches (RPlus newline_group) (?p, newline # q, None)
      = (rev (takeWhile wspace ?d) @ ?p', dropWhile wspace ?d, None) # xs"
    unfolding RPlus_def by blast
  from matches_Seq_Cons [OF us this] obtain ys where
    "matches wsNewlineRunRE (pre, s, None)
      = (rev (takeWhile wspace ?d) @ ?p', dropWhile wspace ?d, None) # ys"
    unfolding wsNewlineRunRE_def by blast
  moreover have "rev (takeWhile wspace s) @ pre = rev (takeWhile wspace ?d) @ ?p'"
    and "dropWhile wspace s = dropWhile wspace ?d"
    using takeWhile_wspace_split [of s] takeWhile_wspace_split [of q] q by simp_all
  ultimately show ?thesis using True by (simp add: first_match_def)
next
  case no: False
  have "matches newline_group (rev (take k s) @ pre, drop k s, None) = []"
    if "k \<le> length (takeWhile hspace s)" for k
  proof (rule matches_newline_group_Nil, cases "drop k s = []")
    assume "drop k s \<noteq> []"
    have "hd (drop k s) \<noteq> newline"
    proof (cases "k < length (takeWhile hspace s)")
      case True
      then have "hspace (takeWhile hspace s ! k)" by (meson nth_mem set_takeWhileD)
      with True \<open>drop k s \<noteq> []\<close> show ?thesis
        by (auto simp: hd_drop_conv_nth takeWhile_nth)
    next
      case False
      with that have "drop k s = dropWhile hspace s" by (simp add: dropWhile_eq_drop)
      with \<open>drop k s \<noteq> []\<close> no show ?thesis by simp
    qed
    then show "drop k s = [] \<or> hd (drop k s) \<noteq> newline" ..
  qed simp
  then have "matches (RPlus newline_group) u = []"
    if "u \<in> set (matches (RStar (RCls hspace)) (pre, s, None))" for u
    using that unfolding set_matches_star_cls RPlus_def
    by (auto simp del: matches.simps(1,4) simp add: matches.simps(2))
  then have "matches wsNewlineRunRE (pre, s, None) = []"
    by (simp add: wsNewlineRunRE_def del: matches.simps(1,4))
  with no show ?thesis by (auto simp: first_match_def)
qed


lemma newline_in_run:
  "newline \<in> set (takeWhile wspace s) \<longleftrightarrow>
     dropWhile hspace s \<noteq> [] \<and> hd (dropWhile hspace s) = newline"
  by (induction s) (auto simp: wspace_def)

lemmas first_match_run = first_match_newline_run [folded newline_in_run]

lemma replace_newline_runs: "replace_all wsNewlineRunRE clamp_newlines pre s = clampRuns s"
proof (induction s arbitrary: pre rule: length_induct)
  case (1 s)
  show ?case
  proof (cases s)
    case (Cons c cs)
    show ?thesis
    proof (cases "newline \<in> set (takeWhile wspace s)")
      case True
      then have c: "wspace c" using Cons by (auto split: if_splits)
      have "take (length s - length (dropWhile wspace s)) s = takeWhile wspace s"
        by (metis add_diff_cancel_right' append_eq_conv_conj length_append takeWhile_dropWhile_id)
      moreover have "length (dropWhile wspace s) < length s"
        using c Cons length_dropWhile_le [of wspace cs] by simp
      ultimately show ?thesis
        using True 1 Cons by (simp add: first_match_run del: takeWhile.simps dropWhile.simps)
    next
      case False
      then show ?thesis
        using 1 Cons by (simp add: first_match_run del: takeWhile.simps dropWhile.simps)
    qed
  qed simp
qed

lemma TrimSpace_Nil [simp]: "TrimSpace [] = []"
  using TrimSpace_infix [of "[]"] by simp

lemma cleanBody_eq: "cleanBody s = TrimSpace (clampRuns (collapseRuns s))"
  by (simp add: cleanBody_def replace_horizontal replace_newline_runs)

section \<open>The normal form of a cleaned body\<close>

text \<open>
  In a \<open>tight\<close> text two neighbouring white space bytes are both newlines, and no three
  newlines are in a row.
\<close>

fun tight :: "string \<Rightarrow> bool" where
  "tight [] = True"
| "tight (c # cs) =
     ((cs \<noteq> [] \<and> wspace c \<and> wspace (hd cs) \<longrightarrow> c = newline \<and> hd cs = newline) \<and>
      \<not> has_prefix (c # cs) [newline, newline, newline] \<and> tight cs)"

fun spread :: "string \<Rightarrow> bool" where
  \<comment> \<open>no two horizontal white space bytes in a row\<close>
  "spread [] = True"
| "spread (c # cs) = (\<not> (cs \<noteq> [] \<and> hspace c \<and> hspace (hd cs)) \<and> spread cs)"

lemma tight_appendD: "tight (u @ v) \<Longrightarrow> tight u \<and> tight v"
proof (induction u)
  case (Cons c u)
  then show ?case by (cases u) (auto simp: has_prefix_iff)
qed simp

lemma tight_TrimSpace: "tight s \<Longrightarrow> tight (TrimSpace s)"
  using TrimSpace_infix [of s] tight_appendD by metis

lemma hd_collapseRuns:
  "collapseRuns s = [] \<longleftrightarrow> s = []"
  "s \<noteq> [] \<Longrightarrow> hspace (hd (collapseRuns s)) \<longleftrightarrow> hspace (hd s)"
  by (induction s rule: collapseRuns.induct) auto

lemma spread_collapseRuns: "spread (collapseRuns s)"
proof (induction s rule: collapseRuns.induct)
  case (2 c cs)
  have "dropWhile hspace cs = [] \<or> \<not> hspace (hd (dropWhile hspace cs))"
    using hd_dropWhile by blast
  with 2 show ?case
    by (cases "dropWhile hspace cs = []"; cases "cs = []") (auto simp: hd_collapseRuns)
qed simp

lemma clampRuns_start:
  "s = [] \<or> \<not> wspace (hd s) \<Longrightarrow> clampRuns s = [] \<or> \<not> wspace (hd (clampRuns s))"
  by (cases s) auto

lemma spread_dropWhile: "spread s \<Longrightarrow> spread (dropWhile P s)"
  by (induction s) auto

lemma spread_blank:
  assumes "spread (c # cs)" "wspace c" "newline \<notin> set (takeWhile wspace (c # cs))"
  shows "cs = [] \<or> \<not> wspace (hd cs)"
  using assms by (cases cs) (auto simp: wspace_def split: if_splits)

lemma tight_clampRuns: "spread s \<Longrightarrow> tight (clampRuns s)"
proof (induction s rule: clampRuns.induct)
  case (2 c cs)
  show ?case
  proof (cases "newline \<in> set (takeWhile wspace (c # cs))")
    case True
    let ?d = "dropWhile wspace (c # cs)"
    have "?d = [] \<or> \<not> wspace (hd ?d)" using hd_dropWhile by blast
    then have start: "clampRuns ?d = [] \<or> \<not> wspace (hd (clampRuns ?d))" by (rule clampRuns_start)
    have "tight (clampRuns ?d)" using 2 True spread_dropWhile by blast
    with start have "tight (clamp_newlines m @ clampRuns ?d)" for m
      by (cases "clampRuns ?d") (auto simp: clamp_newlines_def)
    then show ?thesis using True by (simp only: clampRuns.simps if_True)
  next
    case False
    have t: "tight (clampRuns cs)" using 2 False by simp
    show ?thesis
    proof (cases "wspace c")
      case True
      with 2 False have "clampRuns cs = [] \<or> \<not> wspace (hd (clampRuns cs))"
        by (intro clampRuns_start spread_blank) auto
      moreover have "c \<noteq> newline" using True False by auto
      ultimately show ?thesis using False t by (auto simp del: takeWhile.simps)
    next
      case False
      then have "c \<noteq> newline" by auto
      with False t show ?thesis by simp
    qed
  qed
qed simp

lemma collapseRuns_tight: "tight s \<Longrightarrow> collapseRuns s = s"
proof (induction s rule: collapseRuns.induct)
  case (2 c cs)
  have "\<not> (hspace c \<and> cs \<noteq> [] \<and> hspace (hd cs))"
    using 2(3) by (auto simp: wspace_def)
  with 2 show ?case by auto
qed simp

lemma clampRuns_tight: "tight s \<Longrightarrow> clampRuns s = s"
proof (induction s rule: clampRuns.induct)
  case (2 c cs)
  show ?case
  proof (cases "newline \<in> set (takeWhile wspace (c # cs))")
    case True
    then have c: "wspace c" by (auto split: if_splits)
    have "\<exists>m. takeWhile wspace (c # cs) = m \<and> clamp_newlines m = m"
    proof (cases "cs \<noteq> [] \<and> wspace (hd cs)")
      case True
      then obtain ds where cs: "cs = newline # ds" and "c = newline"
        using 2(3) c by (cases cs) auto
      moreover have "ds = [] \<or> \<not> wspace (hd ds)" using 2(3) cs \<open>c = newline\<close> by (cases ds) auto
      then have "takeWhile wspace ds = []" by (cases ds) auto
      ultimately show ?thesis by (simp add: clamp_newlines_def)
    next
      case False
      then have "takeWhile wspace cs = []" by (cases cs) auto
      with True c show ?thesis by (auto simp: clamp_newlines_def)
    qed
    then have "clamp_newlines (takeWhile wspace (c # cs)) = takeWhile wspace (c # cs)" by blast
    moreover have "tight (dropWhile wspace (c # cs))"
      using 2(3) tight_appendD takeWhile_dropWhile_id by metis
    ultimately have "clampRuns (c # cs) = takeWhile wspace (c # cs) @ dropWhile wspace (c # cs)"
      using True 2(1) by (simp only: clampRuns.simps if_True)
    then show ?thesis by (simp only: takeWhile_dropWhile_id)
  next
    case False
    moreover have "tight cs" using 2(3) by simp
    ultimately show ?thesis using 2(2) by (simp del: takeWhile.simps)
  qed
qed simp

lemma tight_cleanBody: "tight (cleanBody s)"
  by (simp only: cleanBody_eq tight_TrimSpace tight_clampRuns spread_collapseRuns)

lemma cleanBody_fixed:
  "tight s \<Longrightarrow> TrimSpace s = s \<Longrightarrow> cleanBody s = s"
  by (simp add: cleanBody_eq collapseRuns_tight clampRuns_tight)

lemma TrimSpace_cleanBody [simp]: "TrimSpace (cleanBody s) = cleanBody s"
  by (simp add: cleanBody_eq)

lemma wspace_blank [simp]: "wspace CHR '' ''"
  by (simp add: wspace_def)

lemma hspace_wspace: "hspace c \<Longrightarrow> wspace c"
  by (simp add: wspace_def)

lemma filter_dropWhile_out: "(\<And>c. P c \<Longrightarrow> \<not> Q c) \<Longrightarrow> filter Q (dropWhile P s) = filter Q s"
  by (induction s) auto

lemma collapseRuns_content:
  "filter (\<lambda>c. \<not> wspace c) (collapseRuns s) = filter (\<lambda>c. \<not> wspace c) s"
  by (induction s rule: collapseRuns.induct)
     (auto simp: filter_dropWhile_out hspace_wspace)

lemma clampRuns_content:
  "filter (\<lambda>c. \<not> wspace c) (clampRuns s) = filter (\<lambda>c. \<not> wspace c) s"
proof (induction s rule: clampRuns.induct)
  case (2 c cs)
  have "filter (\<lambda>c. \<not> wspace c) (clamp_newlines m) = []" for m
    by (simp add: clamp_newlines_def)
  with 2 show ?case
    by (cases "newline \<in> set (takeWhile wspace (c # cs))")
       (simp_all add: filter_dropWhile_out del: takeWhile.simps dropWhile.simps)
qed simp

lemma cleanBody_content:
  "\<exists>t. cleanBody s = TrimSpace t \<and>
       filter (\<lambda>c. \<not> wspace c) t = filter (\<lambda>c. \<not> wspace c) s"
  using cleanBody_eq collapseRuns_content clampRuns_content by metis

section \<open>Properties\<close>

text \<open>
  C22: \<open>cleanBody\<close> computes a normal form. A text is unchanged exactly when no two
  neighbouring bytes are white space other than a pair of newlines, no three newlines are in
  a row and nothing can be trimmed at its ends; so cleaning twice changes nothing more. And
  only white space is touched: before the final trim every other byte is there, in order.
\<close>

theorem cleanBody_normal_form:
  "(cleanBody s = s \<longleftrightarrow> tight s \<and> TrimSpace s = s) \<and>
   cleanBody (cleanBody s) = cleanBody s \<and>
   (\<exists>t. cleanBody s = TrimSpace t \<and>
        filter (\<lambda>c. \<not> wspace c) t = filter (\<lambda>c. \<not> wspace c) s)"
proof (intro conjI)
  show "cleanBody s = s \<longleftrightarrow> tight s \<and> TrimSpace s = s"
    using tight_cleanBody TrimSpace_cleanBody cleanBody_fixed by metis
  show "cleanBody (cleanBody s) = cleanBody s"
    by (rule cleanBody_fixed [OF tight_cleanBody TrimSpace_cleanBody])
qed (rule cleanBody_content)

end
