(* ===== verification/Go_Json_Strings.thy ===== *)
theory Go_Json_Strings
  imports Go_Json
begin

text \<open>
  The strings of JSON texts, character by character: what the decoder accepts denotes UTF-8, and
  what the encoder writes is read back, with U+FFFD for every byte that was not part of a
  character (\<open>repair\<close>).
\<close>

section \<open>Characters\<close>

lemma byte_of: "n < 256 \<Longrightarrow> byte (char_of n) = n"
  by simp

lemma digits_64: "r = 64 * (r div 64) + r mod 64" for r :: nat
  by simp

lemma div_64: "r div 64 div 64 = r div 4096" "r div 4096 div 64 = r div 262144" for r :: nat
  by (simp_all add: div_mult2_eq [symmetric])

lemma encode_rune_ne [simp]: "encode_rune r \<noteq> []"
  by (simp add: encode_rune_def)

lemma rune_len_encode_rune:
  assumes "r < 1114112" "\<not> is_surrogate r"
  shows "rune_len (encode_rune r @ t) = length (encode_rune r)"
proof -
  consider "r < 128" | "128 \<le> r" "r < 2048" | "2048 \<le> r" "r < 65536" | "65536 \<le> r" by linarith
  then show ?thesis
  proof cases
    case 2
    define q m where "q = r div 64" and "m = r mod 64"
    have "2 \<le> q" "q < 32" "m < 64" using 2 by (auto simp: q_def m_def)
    moreover have "encode_rune r = [char_of (192 + q), char_of (128 + m)]"
      using 2 by (simp add: encode_rune_def q_def m_def)
    ultimately show ?thesis by (simp add: rune_len.simps is_cont_def)
  next
    case 3
    define q m l where "q = r div 4096" and "m = r div 64 mod 64" and "l = r mod 64"
    have "r = 4096 * q + 64 * m + l"
      using digits_64 [of r] digits_64 [of "r div 64"] unfolding q_def m_def l_def div_64 by linarith
    moreover have b: "q < 16" "m < 64" "l < 64" using 3 by (auto simp: q_def m_def l_def)
    ultimately have "q = 0 \<Longrightarrow> 32 \<le> m" "q = 13 \<Longrightarrow> m < 32"
      using 3 assms(2) unfolding is_surrogate_def by linarith+
    moreover note b
    moreover have "encode_rune r = [char_of (224 + q), char_of (128 + m), char_of (128 + l)]"
      using 3 by (simp add: encode_rune_def q_def m_def l_def)
    ultimately show ?thesis by (simp add: rune_len.simps is_cont_def second_ok_def)
  next
    case 4
    define q k m l where "q = r div 262144" and "k = r div 4096 mod 64" and "m = r div 64 mod 64" and "l = r mod 64"
    have "r = 262144 * q + 4096 * k + 64 * m + l"
      using digits_64 [of r] digits_64 [of "r div 64"] digits_64 [of "r div 4096"]
      unfolding q_def k_def m_def l_def div_64 by linarith
    moreover have b: "q < 5" "k < 64" "m < 64" "l < 64" using assms(1) by (auto simp: q_def k_def m_def l_def)
    ultimately have "q = 0 \<Longrightarrow> 16 \<le> k" "q = 4 \<Longrightarrow> k < 16"
      using 4 assms(1) by linarith+
    moreover note b
    moreover have "encode_rune r = [char_of (240 + q), char_of (128 + k), char_of (128 + m), char_of (128 + l)]"
      using 4 by (simp add: encode_rune_def q_def k_def m_def l_def)
    ultimately show ?thesis by (simp add: rune_len.simps is_cont_def second_ok_def)
  qed (simp add: rune_len.simps encode_rune_def)
qed

definition one_rune :: "string \<Rightarrow> bool" where
  "one_rune w \<longleftrightarrow> w \<noteq> [] \<and> (\<forall>t. rune_len (w @ t) = length w)"

lemma one_rune_encode: "r < 1114112 \<Longrightarrow> \<not> is_surrogate r \<Longrightarrow> one_rune (encode_rune r)"
  by (simp add: one_rune_def rune_len_encode_rune)

lemma one_rune_error [simp]: "one_rune rune_error"
  unfolding rune_error_def by (rule one_rune_encode) (simp_all add: is_surrogate_def)

lemma one_rune_take: "rune_len s \<noteq> 0 \<Longrightarrow> one_rune (take (rune_len s) s)"
  using rune_len_le [of s] rune_len_append [of s] by (cases s) (simp_all add: one_rune_def del: rune_len.simps)

lemma one_rune_ascii: "is_ascii c \<Longrightarrow> one_rune [c]"
  by (simp add: one_rune_def rune_len_ascii)

lemma valid_utf8_rune: "one_rune w \<Longrightarrow> valid_utf8 (w @ s) = valid_utf8 s"
  using valid_utf8_step [of "w @ s"] by (simp add: one_rune_def)

section \<open>What the parser accepts is well formed\<close>

lemma hex4_bound: "hex4 s = Some (r, t) \<Longrightarrow> r < 65536"
proof -
  have h: "hex_value c = Some v \<Longrightarrow> v < 16" for c v
    by (auto simp: hex_value_def is_digit_def split: if_splits)
  assume "hex4 s = Some (r, t)"
  then show ?thesis
    by (cases s rule: hex4.cases) (auto split: option.splits dest!: h)
qed

lemma hex4_rune: "hex4 s = Some (r, t) \<Longrightarrow> \<not> is_surrogate r \<Longrightarrow> one_rune (encode_rune r)"
  using hex4_bound [of s r t] by (intro one_rune_encode) simp_all

lemma decode_pair_rune: "decode_pair r r1 = Some p \<Longrightarrow> one_rune (encode_rune p)"
proof (rule one_rune_encode)
  assume "decode_pair r r1 = Some p"
  then have p: "p = (r - 55296) * 1024 + (r1 - 56320) + 65536" and r: "r - 55296 \<le> 1023" "r1 - 56320 < 1024"
    by (auto simp: decode_pair_def split: if_splits)
  have "(r - 55296) * 1024 \<le> 1023 * 1024" using r(1) by (rule mult_le_mono1)
  with p r(2) show "p < 1114112" by simp
  show "\<not> is_surrogate p" using p by (simp add: is_surrogate_def)
qed

lemma unicode_escape_rune: "unicode_escape s = Some (w, t) \<Longrightarrow> one_rune w"
  unfolding unicode_escape_def
  by (auto split: option.splits if_splits) (metis hex4_rune decode_pair_rune)+

lemma simple_escape_ascii: "simple_escape c = Some x \<Longrightarrow> is_ascii x"
  by (auto simp: simple_escape_def is_ascii_def split: if_splits)

lemma string_step_valid:
  assumes "string_step s = Some (w, t)"
  shows "one_rune w"
proof (cases s)
  case (Cons c u)
  from assms Cons consider "c = CHR 0x5C" | "w = rune_error" | "rune_len s \<noteq> 0" "w = take (rune_len s) s"
    by (auto simp: string_step_def simp del: rune_len.simps split: if_splits)
  then show ?thesis
  proof cases
    case 1
    with assms Cons show ?thesis
      by (auto simp: string_step_def split: list.splits if_splits
          intro: one_rune_ascii dest: unicode_escape_rune simple_escape_ascii)
  qed (simp_all add: one_rune_take del: rune_len.simps)
qed (use assms in \<open>simp add: string_step_def\<close>)

lemma string_body_valid: "string_body s = Some (v, t) \<Longrightarrow> valid_utf8 v"
proof (induction s arbitrary: v rule: string_body.induct)
  case (1 s)
  from 1(2) show ?case
    by (subst (asm) string_body.simps)
       (use 1(1) in \<open>auto split: if_splits option.splits simp: valid_utf8_rune dest: string_step_valid\<close>)
qed

section \<open>Strings that are not UTF-8\<close>

function repair :: "string \<Rightarrow> string" where
  \<comment> \<open>each byte that starts no character is replaced by U+FFFD\<close>
  "repair [] = []"
| "repair (c # s) =
     (if rune_len (c # s) = 0 then rune_error @ repair s
      else take (rune_len (c # s)) (c # s) @ repair (drop (rune_len (c # s)) (c # s)))"
  by pat_completeness auto
termination
  by (relation "measure length") (auto simp del: rune_len.simps)

declare repair.simps(2) [simp del]

lemma repair_valid: "valid_utf8 (repair s)"
  by (induction s rule: repair.induct) (simp_all add: repair.simps(2) valid_utf8_rune one_rune_take del: take_Suc_Cons)

lemma repair_id: "valid_utf8 s \<Longrightarrow> repair s = s"
proof (induction s rule: repair.induct)
  case (2 c s)
  then show ?case using valid_utf8_step [of "c # s"] by (simp add: repair.simps(2) del: take_Suc_Cons)
qed simp

lemma string_body_encode_repair: "string_body (encode_body s @ CHR 0x22 # t) = Some (repair s, t)"
proof (induction s rule: encode_body.induct)
  case 1
  show ?case by (subst string_body.simps) simp
next
  case (2 c s)
  let ?k = "rune_len (c # s)"
  have glue: "string_body (u @ r) = Some (w @ v, t)"
    if "string_body r = Some (v, t)" "u \<noteq> []" "hd u \<noteq> CHR 0x22" "string_step (u @ r) = Some (w, r)" for u r v w
    using that(1) string_body_step [OF that(2-4)] by simp
  show ?case
  proof (cases "is_ascii c")
    case True
    have "repair (c # s) = [c] @ repair s" using True by (simp add: repair.simps(2) rune_len_ascii)
    with glue [OF 2(1) [OF True] hd_encoded(1,2) string_step_ascii [OF True]] True show ?thesis
      by (simp add: encode_body.simps(2))
  next
    case False
    show ?thesis
    proof (cases "?k = 0")
      case True
      have "string_step (u_escape 65533 @ r) = Some (rune_error, r)" for r
        unfolding rune_error_def by (rule string_step_u_escape) (simp_all add: is_surrogate_def)
      from glue [OF 2(2) [OF False True] hd_encoded(3,4) this] False True show ?thesis
        by (simp add: encode_body.simps(2) repair.simps(2))
    next
      case k: False
      let ?w = "take ?k (c # s)" and ?r = "encode_body (drop ?k (c # s)) @ CHR 0x22 # t"
      note rec = 2(3) [OF False k]
      have "string_body (u_escape r @ ?r) = Some (encode_rune r @ repair (drop ?k (c # s)), t)"
        if "r < 65536" "\<not> is_surrogate r" for r
        by (rule glue [OF rec hd_encoded(3,4) string_step_u_escape [OF that]])
      moreover have "?w \<noteq> []" "hd ?w \<noteq> CHR 0x22" using k False by (auto simp: take_Cons' is_ascii_def)
      then have "string_body (?w @ ?r) = Some (?w @ repair (drop ?k (c # s)), t)"
        using glue [OF rec _ _ string_step_rune [OF k False]] by blast
      ultimately show ?thesis
        using False k by (auto simp: encode_body.simps(2) repair.simps(2) Let_def is_surrogate_def simp del: take_Suc_Cons)
    qed
  qed
qed

end
