(* ===== verification/Go_Json_Roundtrip.thy ===== *)
theory Go_Json_Roundtrip
  imports Go_Json_Strings
begin

text \<open>
  A JSON value that is marshalled and parsed again is the same value with its strings repaired, if
  its number literals are JSON numbers and its nesting stays within the decoder's limit; it is the
  very same value if its strings are UTF-8. The program relies on it where one side writes a request that the
  other side reads, and the examples use it to parse the texts they write.
\<close>

section \<open>A marshalled value is read back\<close>

definition num_ok :: "string \<Rightarrow> bool" where
  "num_ok l \<longleftrightarrow> number l = Some (l, [])"

fun wf_json :: "int \<Rightarrow> json \<Rightarrow> bool" where
  \<comment> \<open>strings are UTF-8, number literals are JSON numbers, the nesting is at most d\<close>
  "wf_json d (JNum l) = num_ok l"
| "wf_json d (JStr s) = valid_utf8 s"
| "wf_json d (JArr vs) = (0 < d \<and> list_all (wf_json (d - 1)) vs)"
| "wf_json d (JObj kvs) = (0 < d \<and> list_all (\<lambda>(k, v). valid_utf8 k \<and> wf_json (d - 1) v) kvs)"
| "wf_json d j = True"

fun plain_json :: "int \<Rightarrow> json \<Rightarrow> bool" where
  \<comment> \<open>number literals are JSON numbers, the nesting is at most d\<close>
  "plain_json d (JNum l) = num_ok l"
| "plain_json d (JArr vs) = (0 < d \<and> list_all (plain_json (d - 1)) vs)"
| "plain_json d (JObj kvs) = (0 < d \<and> list_all (\<lambda>(k, v). plain_json (d - 1) v) kvs)"
| "plain_json d j = True"

fun repair_json :: "json \<Rightarrow> json" where
  "repair_json (JStr s) = JStr (repair s)"
| "repair_json (JArr vs) = JArr (map repair_json vs)"
| "repair_json (JObj kvs) = JObj (map (\<lambda>(k, v). (repair k, repair_json v)) kvs)"
| "repair_json j = j"

lemma wf_json_plain: "wf_json d j \<Longrightarrow> plain_json d j \<and> repair_json j = j"
proof (induction j arbitrary: d)
  case (JArr vs)
  then show ?case by (auto simp: list_all_iff intro: map_idI)
next
  case (JObj kvs)
  then show ?case by (fastforce simp: list_all_iff repair_id intro: map_idI)
qed (simp_all add: repair_id)

definition delim :: "string \<Rightarrow> bool" where
  "delim t \<longleftrightarrow> t = [] \<or> hd t \<in> {CHR '','', CHR '']'', CHR ''}''}"

lemma delim_simps [simp]: "delim []" "delim (CHR '','' # t)" "delim (CHR '']'' # t)" "delim (CHR ''}'' # t)"
  by (simp_all add: delim_def)

lemma digits1_append:
  assumes "digits1 s = Some (w, r)" "r = [] \<Longrightarrow> delim t"
  shows "digits1 (s @ t) = Some (w, r @ t)"
proof -
  have w: "takeWhile is_digit s = w" "dropWhile is_digit s = r" "w \<noteq> []"
    using assms(1) by (auto simp: digits1_def split: if_splits)
  have "takeWhile is_digit (s @ t) = w \<and> dropWhile is_digit (s @ t) = r @ t"
  proof (cases "r = []")
    case True
    then have "\<forall>c \<in> set s. is_digit c" using w(2) by (simp add: dropWhile_eq_Nil_conv)
    moreover have "takeWhile is_digit s = s" using calculation by (simp add: takeWhile_eq_all_conv)
    moreover have "t = [] \<or> \<not> is_digit (hd t)" using assms(2) True by (auto simp: delim_def is_digit_def)
    ultimately show ?thesis
      using w True by (cases t) (auto simp: takeWhile_append2 dropWhile_append2)
  next
    case False
    then obtain c where "c \<in> set s" "\<not> is_digit c" using w(2) by (metis dropWhile_eq_Nil_conv)
    with w show ?thesis by (simp add: takeWhile_append1 dropWhile_append1)
  qed
  with w(3) show ?thesis by (simp add: digits1_def)
qed

lemma number_int_append:
  assumes "number_int s = Some (w, r)" "r = [] \<Longrightarrow> delim t"
  shows "number_int (s @ t) = Some (w, r @ t)"
proof (cases s)
  case (Cons c s')
  then show ?thesis
    using assms digits1_append [of s w r t] by (auto simp: number_int_def split: if_splits)
qed (use assms in \<open>simp add: number_int_def\<close>)

lemma number_frac_append:
  assumes "number_frac s = Some (w, r)" "r = [] \<Longrightarrow> delim t"
  shows "number_frac (s @ t) = Some (w, r @ t)"
proof (cases s)
  case Nil
  with assms show ?thesis by (cases t) (auto simp: number_frac_def delim_def)
next
  case (Cons c s')
  show ?thesis
  proof (cases "c = CHR ''.''")
    case True
    with Cons assms obtain d where "digits1 s' = Some (d, r)" "w = c # d"
      by (auto simp: number_frac_def split: if_splits)
    with Cons True digits1_append [of s' d r t] assms(2) show ?thesis
      by (simp add: number_frac_def del: split_paired_All)
  qed (use Cons assms in \<open>auto simp: number_frac_def\<close>)
qed

lemma number_exp_append:
  assumes "number_exp s = Some (w, r)" "r = [] \<Longrightarrow> delim t"
  shows "number_exp (s @ t) = Some (w, r @ t)"
proof (cases s)
  case Nil
  with assms show ?thesis by (cases t) (auto simp: number_exp_def delim_def)
next
  case (Cons c s')
  show ?thesis
  proof (cases "c = CHR ''e'' \<or> c = CHR ''E''")
    case True
    show ?thesis
    proof (cases s')
      case Nil
      with Cons True assms show ?thesis by (simp add: number_exp_def)
    next
      case (Cons d u)
      show ?thesis
      proof (cases "d = CHR ''+'' \<or> d = CHR ''-''")
        case sign: True
        with True Cons \<open>s = c # s'\<close> assms obtain v where "digits1 u = Some (v, r)" "w = c # d # v"
          unfolding number_exp_def by (auto split: if_splits)
        with True sign Cons \<open>s = c # s'\<close> digits1_append [of u v r t] assms(2) show ?thesis
          unfolding number_exp_def by simp
      next
        case sign: False
        with True Cons \<open>s = c # s'\<close> assms obtain v where v: "digits1 s' = Some (v, r)" "w = c # v"
          unfolding number_exp_def by (auto split: if_splits)
        have "digits1 (s' @ t) = Some (v, r @ t)" by (rule digits1_append [OF v(1) assms(2)])
        with True sign Cons \<open>s = c # s'\<close> v show ?thesis
          unfolding number_exp_def by simp
      qed
    qed
  qed (use Cons assms in \<open>auto simp: number_exp_def\<close>)
qed

lemma number_append:
  assumes "num_ok l" "delim t"
  shows "number (l @ t) = Some (l, t)"
proof -
  obtain sign s0 where s0: "(case l of c # t \<Rightarrow> if c = CHR ''-'' then ([c], t) else ([], l) | [] \<Rightarrow> ([], l)) = (sign, s0)"
    by fastforce
  have ne: "l \<noteq> []" using assms(1) by (auto simp: num_ok_def number_def number_int_def)
  with s0 have s0': "(case l @ t of c # u \<Rightarrow> if c = CHR ''-'' then ([c], u) else ([], l @ t) | [] \<Rightarrow> ([], l @ t)) = (sign, s0 @ t)"
    by (cases l) (auto split: if_splits)
  from assms(1) s0 obtain i s1 f s2 e s3 where
    n: "number_int s0 = Some (i, s1)" "number_frac s1 = Some (f, s2)" "number_exp s2 = Some (e, s3)"
      "sign @ i @ f @ e = l" "s3 = []"
    unfolding num_ok_def number_def by (auto split: option.splits)
  have "s3 = [] \<Longrightarrow> delim t" using assms(2) by simp
  have e: "number_exp (s2 @ t) = Some (e, s3 @ t)" using n(3) assms(2) by (rule number_exp_append)
  have f: "number_frac (s1 @ t) = Some (f, s2 @ t)" using n(2) assms(2) by (rule number_frac_append)
  have i: "number_int (s0 @ t) = Some (i, s1 @ t)" using n(1) assms(2) by (rule number_int_append)
  show ?thesis
    unfolding number_def s0' using i f e n(4,5) by simp
qed

lemma delim_skip: "delim t \<Longrightarrow> skip_space t = t"
  by (cases t) (auto simp: delim_def json_space_def)

lemma num_ok_hd: "num_ok l \<Longrightarrow> l \<noteq> [] \<and> (hd l = CHR ''-'' \<or> is_digit (hd l))"
  by (cases l) (auto simp: num_ok_def number_def number_int_def digits1_def is_digit_def split: if_splits)

lemma Marshal_start:
  assumes "plain_json d j"
  shows "Marshal j \<noteq> [] \<and> \<not> json_space (hd (Marshal j)) \<and> hd (Marshal j) \<noteq> CHR '']''"
proof (cases j)
  case (JNum l)
  then show ?thesis using assms num_ok_hd [of l] by (auto simp: json_space_def is_digit_def)
qed (auto simp: json_space_def encode_string_def)

lemma string_literal: "string_body (tl (encode_string s @ t)) = Some (repair s, t)"
  by (simp add: encode_string_def string_body_encode_repair)

lemma encode_string_head: "head_is (CHR 0x22) (encode_string s @ t)"
  by (simp add: head_is_def encode_string_def)

lemma scalar_number:
  assumes "num_ok l" "delim t"
  shows "scalar (l @ t) = Some (JNum l, t)"
proof -
  obtain c l' where l: "l = c # l'" using num_ok_hd [OF assms(1)] by (cases l) auto
  then have c: "c = CHR ''-'' \<or> is_digit c" using num_ok_hd [OF assms(1)] by simp
  then have "c \<noteq> CHR 0x22" "c \<noteq> CHR ''n''" "c \<noteq> CHR ''t''" "c \<noteq> CHR ''f''"
    by (auto simp: is_digit_def)
  then have "\<not> head_is (CHR 0x22) (l @ t)" "find (\<lambda>(w, v). has_prefix (l @ t) w) json_literals = None"
    using l by (simp_all add: head_is_def json_literals_def)
  with number_append [OF assms] show ?thesis by (simp add: scalar_def)
qed

lemma json_value_scalar:
  "\<not> head_is (CHR ''['') s \<Longrightarrow> \<not> head_is (CHR ''{'') s \<Longrightarrow> json_value d s = scalar s"
  by (subst json_value.simps) simp

lemma elements_join:
  assumes "vs \<noteq> []" "\<And>v u. v \<in> set vs \<Longrightarrow> delim u \<Longrightarrow> json_value d (Marshal v @ u) = Some (repair_json v, u)"
    and "\<And>v. v \<in> set vs \<Longrightarrow> plain_json d v"
  shows "json_elements d (join_with '','' (map Marshal vs) @ '']'' @ t) = Some (map repair_json vs, t)"
  using assms
proof (induction vs)
  case (Cons v vs)
  have "plain_json d v" using Cons.prems(3) by simp
  then have ne: "Marshal v \<noteq> []" using Marshal_start by blast
  show ?case
  proof (cases vs)
    case Nil
    have "json_value d (Marshal v @ CHR '']'' # t) = Some (repair_json v, CHR '']'' # t)" using Cons.prems(2) by simp
    with Nil ne show ?thesis
      by (subst json_elements.simps) (simp add: head_is_def json_space_def)
  next
    case (Cons w ws)
    let ?u = "join_with '','' (map Marshal vs) @ '']'' @ t"
    have "json_value d (Marshal v @ CHR '','' # ?u) = Some (repair_json v, CHR '','' # ?u)"
      using Cons.prems(2) by simp
    moreover have "skip_space ?u = ?u"
    proof -
      have "Marshal w \<noteq> []" "\<not> json_space (hd (Marshal w))"
        using Cons.prems(3) Marshal_start [of d w] Cons by auto
      then show ?thesis using Cons by (cases ws; cases "Marshal w") auto
    qed
    moreover have "json_elements d ?u = Some (map repair_json vs, t)"
      using Cons.IH Cons.prems Cons by simp
    ultimately show ?thesis using ne Cons
      by (subst json_elements.simps) (simp add: head_is_def json_space_def)
  qed
qed simp

lemma members_join:
  assumes "kvs \<noteq> []"
    and "\<And>k v u. (k, v) \<in> set kvs \<Longrightarrow> delim u \<Longrightarrow> json_value d (Marshal v @ u) = Some (repair_json v, u)"
    and "\<And>k v. (k, v) \<in> set kvs \<Longrightarrow> plain_json d v"
  shows "json_members d (join_with '','' (map (\<lambda>(k, v). encode_string k @ '':'' @ Marshal v) kvs) @ ''}'' @ t)
    = Some (map (\<lambda>(k, v). (repair k, repair_json v)) kvs, t)"
  using assms
proof (induction kvs)
  case (Cons kv kvs)
  obtain k v where kv: "kv = (k, v)" by (cases kv)
  let ?j = "\<lambda>kvs. join_with '','' (map (\<lambda>(k, v). encode_string k @ '':'' @ Marshal v) kvs)"
  have v: "plain_json d v" using Cons.prems(3) [of k v] kv by simp_all
  have val: "json_value d (Marshal v @ u) = Some (repair_json v, u)" if "delim u" for u
    using Cons.prems(2) [of k v u] kv that by simp
  have skip: "skip_space (Marshal v @ u) = Marshal v @ u" for u
    using Marshal_start [OF v] by (cases "Marshal v") auto
  have len: "length u < length (encode_string k @ CHR '':'' # Marshal v @ u)" for u by simp
  have member: "json_members d (encode_string k @ CHR '':'' # Marshal v @ u) =
      (if head_is (CHR ''}'') u then Some ([(repair k, repair_json v)], tl u)
       else if head_is (CHR '','') u
         then map_option (\<lambda>(vs, w). ((repair k, repair_json v) # vs, w)) (json_members d (skip_space (tl u))) else None)"
    if u: "delim u" for u
  proof -
    let ?s = "encode_string k @ CHR '':'' # Marshal v @ u"
    have colon: "skip_space (CHR '':'' # w) = CHR '':'' # w" "head_is (CHR '':'') (CHR '':'' # w)" for w
      by (simp_all add: json_space_def head_is_def)
    have len: "length (CHR '':'' # Marshal v @ u) < length ?s" "length u < length ?s"
      by (simp_all add: encode_string_def)
    show ?thesis
      by (simp only: json_members.simps [of d ?s] string_literal encode_string_head option.case
          prod.case len colon list.sel skip val [OF u] delim_skip [OF u] simp_thms if_True if_False)
  qed
  show ?case
  proof (cases kvs)
    case Nil
    have "json_members d (encode_string k @ CHR '':'' # Marshal v @ CHR ''}'' # t) = Some ([(repair k, repair_json v)], t)"
      using member [of "CHR ''}'' # t"] by (simp add: head_is_def)
    with Nil kv show ?thesis by simp
  next
    case (Cons w ws)
    let ?u = "?j kvs @ ''}'' @ t"
    have rec: "json_members d ?u = Some (map (\<lambda>(k, v). (repair k, repair_json v)) kvs, t)"
    proof (rule Cons.IH)
      show "kvs \<noteq> []" using Cons by simp
      show "json_value d (Marshal v @ u) = Some (repair_json v, u)" if "(k, v) \<in> set kvs" "delim u" for k v u
        using Cons.prems(2) that by (meson list.set_intros(2))
      show "plain_json d v" if "(k, v) \<in> set kvs" for k v
        using Cons.prems(3) that by (meson list.set_intros(2))
    qed
    have "skip_space ?u = ?u"
      using Cons by (cases w; cases ws) (simp_all add: encode_string_def json_space_def)
    with rec member [of "CHR '','' # ?u"]
    have "json_members d (encode_string k @ CHR '':'' # Marshal v @ CHR '','' # ?u) = Some ((repair k, repair_json v) # map (\<lambda>(k, v). (repair k, repair_json v)) kvs, t)"
      by (simp add: head_is_def)
    with Cons kv show ?thesis by simp
  qed
qed simp

lemma json_value_Marshal:
  "plain_json d j \<Longrightarrow> delim t \<Longrightarrow> json_value d (Marshal j @ t) = Some (repair_json j, t)"
proof (induction j arbitrary: d t)
  case JNull
  then show ?case by (simp add: json_value_scalar scalar_def head_is_def json_literals_def)
next
  case (JBool b)
  then show ?case by (simp add: json_value_scalar scalar_def head_is_def json_literals_def)
next
  case (JNum l)
  then have "num_ok l" by simp
  then have "hd (l @ t) \<noteq> CHR ''[''" "hd (l @ t) \<noteq> CHR ''{''"
    using num_ok_hd [of l] by (auto simp: is_digit_def)
  with JNum scalar_number [of l t] show ?case by (simp add: json_value_scalar head_is_def)
next
  case (JStr s)
  have "\<not> head_is (CHR ''['') (encode_string s @ t)" "\<not> head_is (CHR ''{'') (encode_string s @ t)"
    by (simp_all add: head_is_def encode_string_def)
  with JStr string_literal [of s t] encode_string_head [of s t] show ?case
    by (simp add: json_value_scalar scalar_def)
next
  case (JArr vs)
  show ?case
  proof (cases "vs = []")
    case True
    with JArr.prems show ?thesis by (subst json_value.simps) (simp add: head_is_def json_space_def)
  next
    case False
    let ?s = "join_with '','' (map Marshal vs) @ '']'' @ t"
    have el: "json_elements (d - 1) ?s = Some (map repair_json vs, t)"
      using JArr False by (intro elements_join) (auto simp: list_all_iff)
    obtain v ws where vs: "vs = v # ws" using False by (cases vs) auto
    then have "plain_json (d - 1) v" using JArr.prems(1) by simp
    then have "skip_space ?s = ?s" "\<not> head_is (CHR '']'') ?s"
      using Marshal_start [of "d - 1" v] vs
      by (cases ws; cases "Marshal v"; simp add: head_is_def)+
    with el JArr.prems show ?thesis by (subst json_value.simps) (simp add: head_is_def)
  qed
next
  case (JObj kvs)
  show ?case
  proof (cases "kvs = []")
    case True
    with JObj.prems show ?thesis by (subst json_value.simps) (simp add: head_is_def json_space_def)
  next
    case False
    let ?s = "join_with '','' (map (\<lambda>(k, v). encode_string k @ '':'' @ Marshal v) kvs) @ ''}'' @ t"
    have mem: "json_members (d - 1) ?s = Some (map (\<lambda>(k, v). (repair k, repair_json v)) kvs, t)"
      using JObj False by (intro members_join) (auto simp: list_all_iff)
    obtain k v ws where "kvs = (k, v) # ws" using False by (cases kvs) auto
    then have "skip_space ?s = ?s" "\<not> head_is (CHR ''}'') ?s"
      by (cases ws; simp add: head_is_def encode_string_def json_space_def)+
    with mem JObj.prems show ?thesis by (subst json_value.simps) (simp add: head_is_def)
  qed
qed

theorem json_parse_repair: "plain_json maxNestingDepth j \<Longrightarrow> json_parse (Marshal j) = Some (repair_json j)"
proof -
  assume plain: "plain_json maxNestingDepth j"
  have "skip_space (Marshal j) = Marshal j"
    using Marshal_start [OF plain] by (cases "Marshal j") auto
  with json_value_Marshal [OF plain, of "[]"] show ?thesis by (simp add: json_parse_def)
qed

theorem json_parse_Marshal: "wf_json maxNestingDepth j \<Longrightarrow> json_parse (Marshal j) = Some j"
  using json_parse_repair [of j] wf_json_plain [of maxNestingDepth j] by simp

section \<open>Decimal integers are number literals\<close>

lemma digits_of_zero: "hd (digits_of n) = CHR ''0'' \<Longrightarrow> n = 0"
proof (induction n rule: digits_of.induct)
  case (1 n)
  show ?case
  proof (cases "n < 10")
    case True
    then have "hd (digits_of n) = char_of (48 + n)" by (simp add: digits_of.simps [of n])
    with 1(2) have "of_char (char_of (48 + n) :: char) = (48 :: nat)" by simp
    with True show ?thesis by simp
  next
    case False
    then have "hd (digits_of n) = hd (digits_of (n div 10))"
      by (simp add: digits_of.simps [of n])
    with 1 False have "n div 10 = 0" by simp
    with False show ?thesis by simp
  qed
qed

lemma num_ok_digits: "number_int (digits_of n) = Some (digits_of n, [])"
proof -
  obtain c cs where ds: "digits_of n = c # cs" by (cases "digits_of n") auto
  have all: "list_all is_digit (digits_of n)" by (rule digits_of_digits)
  show ?thesis
  proof (cases "c = CHR ''0''")
    case True
    then have "n = 0" using digits_of_zero [of n] ds by simp
    moreover have "digits_of 0 = ''0''" by code_simp
    ultimately show ?thesis by (simp add: number_int_def)
  next
    case False
    have "takeWhile is_digit (c # cs) = c # cs" "dropWhile is_digit (c # cs) = []"
      using all ds by (simp_all add: list_all_iff takeWhile_eq_all_conv dropWhile_eq_Nil_conv)
    with False ds show ?thesis by (simp add: number_int_def digits1_def)
  qed
qed

lemma num_ok_Itoa [simp]: "num_ok (Itoa n)"
proof -
  have nat: "number (digits_of m) = Some (digits_of m, [])" for m
  proof -
    obtain c cs where ds: "digits_of m = c # cs" by (cases "digits_of m") auto
    then have "c \<noteq> CHR ''-''" using digits_of_digits [of m] by (auto simp: is_digit_def)
    with num_ok_digits [of m] show ?thesis
      by (simp add: number_def number_frac_def number_exp_def ds)
  qed
  then show ?thesis
    using num_ok_digits
    by (simp add: num_ok_def Itoa_def number_def number_frac_def number_exp_def)
qed

lemma wf_json_mono: "wf_json d j \<Longrightarrow> d \<le> e \<Longrightarrow> wf_json e j"
proof (induction j arbitrary: d e)
  case (JArr vs)
  then show ?case by (auto simp: list_all_iff)
next
  case (JObj kvs)
  then show ?case by (fastforce simp: list_all_iff)
qed simp_all

lemmas wf_json_eval = maxNestingDepth_def valid_utf8_ascii is_ascii_def

end
