(* ===== verification/Reddit_Fetcher.thy ===== *)
theory Reddit_Fetcher
  imports Retry Antibot Reddit_Url Reddit_Text Go_Json_Roundtrip Go_Float
begin

text \<open>
  \<open>internal/engine/reddit/fetcher.go\<close>: every request to Reddit goes through the crawl4ai
  browser. \<open>browserExec\<close> posts a navigation with a script and returns the script's value;
  \<open>browserFetch\<close> unwraps the status and body the script fetched from Reddit and tells blocks
  and challenge pages from data. The fetcher's only state is the crawl4ai address; requests
  go through \<open>DoRetry\<close> on the environment.
\<close>

section \<open>Scripts and session keys\<close>

definition jsLit :: "string \<Rightarrow> string" where
  "jsLit s = encode_string s"

definition accept_header :: string where
  "accept_header = json_text ''headers: {`Accept`: `application/json`''"

definition return_envelope :: string where
  "return_envelope = ''return JSON.stringify({s: r.status, b: await r.text()});''"

definition getJS :: "string \<Rightarrow> string" where
  "getJS u = ''const r = await fetch('' @ jsLit u @ '', {'' @ accept_header @ ''}}); '' @ return_envelope"

definition postJS :: "string \<Rightarrow> string \<Rightarrow> string" where
  "postJS u body = ''const r = await fetch('' @ jsLit u @
     json_text '', {method: `POST`, '' @ accept_header @
     json_text '', `Content-Type`: `application/x-www-form-urlencoded`}, body: '' @ jsLit body @
     ''}); '' @ return_envelope"

fun after_comments :: "string list \<Rightarrow> string" where
  \<comment> \<open>the loop of threadSession over neighbouring parts\<close>
  "after_comments (p # q # ps) =
     (if p = ''comments'' then ''carp-reddit-'' @ q else after_comments (q # ps))"
| "after_comments ps = []"

definition threadSession :: "string \<Rightarrow> string" where
  "threadSession permalink = after_comments (split_at (CHR ''/'') (trim_char permalink (CHR ''/'')))"

definition truncate_str :: "string \<Rightarrow> nat \<Rightarrow> string" where
  "truncate_str s n = (if length s \<le> n then s else take n s @ ''...'')"

definition redactQuery :: "string \<Rightarrow> string" where
  "redactQuery u = truncate_str (fst (cut_at u (CHR ''?''))) 200"

section \<open>The crawl4ai exchange\<close>

definition browserPageTimeoutMS :: int where
  "browserPageTimeoutMS = 60000"

definition exec_request :: "string \<Rightarrow> string \<Rightarrow> string \<Rightarrow> bool \<Rightarrow> json" where
  \<comment> \<open>c4aRequest; the encoder writes the members of a map in the order of their names\<close>
  "exec_request navURL js sessionID jsOnly = JObj
     [(''urls'', JArr [JStr navURL]),
      (''browser_config'', JObj
        [(''type'', JStr ''BrowserConfig''),
         (''params'', JObj [(''enable_stealth'', JBool True), (''headless'', JBool True)])]),
      (''crawler_config'', JObj
        [(''type'', JStr ''CrawlerRunConfig''),
         (''params'', JObj
           ([(''cache_mode'', JStr ''BYPASS''), (''js_code'', JArr [JStr js])] @
            (if jsOnly then [(''js_only'', JBool True)] else []) @
            [(''override_navigator'', JBool True), (''page_timeout'', JNum (Itoa browserPageTimeoutMS))] @
            (if sessionID \<noteq> [] then [(''session_id'', JStr sessionID)] else [])))])]"

record c4aResult =
  r4_Success :: bool
  r4_StatusCode :: int
  r4_ErrorMessage :: string
  r4_JSResults :: "json list"

record c4aResponse =
  c4_Success :: bool
  c4_Error :: string
  c4_Results :: "c4aResult list"

definition zero_c4aResult :: c4aResult where
  "zero_c4aResult = \<lparr>r4_Success = False, r4_StatusCode = 0, r4_ErrorMessage = [], r4_JSResults = []\<rparr>"

definition zero_c4aResponse :: c4aResponse where
  "zero_c4aResponse = \<lparr>c4_Success = False, c4_Error = [], c4_Results = []\<rparr>"

definition dec_c4aResult :: "c4aResult decoder" where
  "dec_c4aResult = dec_struct
     [(''success'', into r4_Success r4_Success_update dec_bool),
      (''status_code'', into r4_StatusCode r4_StatusCode_update dec_int),
      (''error_message'', into r4_ErrorMessage r4_ErrorMessage_update dec_string),
      (''js_execution_result'', dec_struct
        [(''results'', into r4_JSResults r4_JSResults_update (dec_slice (\<lambda>j a. Some j) JNull))])]"

definition dec_c4aResponse :: "c4aResponse decoder" where
  "dec_c4aResponse = dec_struct
     [(''success'', into c4_Success c4_Success_update dec_bool),
      (''error'', into c4_Error c4_Error_update dec_string),
      (''results'', into c4_Results c4_Results_update (dec_slice dec_c4aResult zero_c4aResult))]"

definition js_result :: "c4aResponse \<Rightarrow> string res" where
  \<comment> \<open>the checks on the decoded response and the first script value\<close>
  "js_result cr =
     (if \<not> c4_Success cr \<or> c4_Results cr = [] then
        (let msg = (if c4_Error cr = [] \<and> c4_Results cr \<noteq> [] then r4_ErrorMessage (hd (c4_Results cr)) else c4_Error cr)
         in Fail (FetchError KindBotBlock 0 [] (Some (EText
             (''crawl4ai fetch failed (reddit may have blocked the nav): '' @ truncate_str msg 200)))))
      else
       (let res0 = hd (c4_Results cr) in
        if \<not> r4_Success res0 then
          (let msg = (if r4_ErrorMessage res0 = [] then c4_Error cr else r4_ErrorMessage res0)
           in Fail (FetchError KindBotBlock 0 [] (Some (EText
               (''crawl4ai result failed (reddit may have blocked the nav): '' @ truncate_str msg 200)))))
        else if r4_JSResults res0 = [] then
          Fail (FetchError KindBotBlock 0 [] (Some (EText ''crawl4ai returned no js result (navigation blocked?)'')))
        else
          (case dec_string (hd (r4_JSResults res0)) [] of
             None \<Rightarrow> Fail (FetchError KindBadResponse 0 [] (Some (EWrap ''unwrap js result'' json_error)))
           | Some out \<Rightarrow> Ok out)))"

definition exec_result :: "http_response \<Rightarrow> string res" where
  \<comment> \<open>what browserExec makes of the response of crawl4ai\<close>
  "exec_result resp =
     (case read_all_limit 20971520 resp of
        Fail e \<Rightarrow> Fail e
      | Panic m \<Rightarrow> Panic m
      | Ok body \<Rightarrow>
         (if resp_status resp \<noteq> 200 then
            Fail (FetchError (KindForStatus (resp_status resp)) (resp_status resp) [] (Some (EText
              (''crawl4ai returned '' @ Itoa (resp_status resp) @ '': '' @ truncate_str body 200))))
          else
           (case json_Unmarshal dec_c4aResponse body zero_c4aResponse of
              None \<Rightarrow> Fail (FetchError KindBadResponse 0 [] (Some (EWrap ''decode crawl4ai response'' json_error)))
            | Some cr \<Rightarrow> js_result cr)))"

definition browserExec :: "'w sys \<Rightarrow> string \<Rightarrow> ctx \<Rightarrow> string \<Rightarrow> string \<Rightarrow> string \<Rightarrow> bool \<Rightarrow> 'w \<Rightarrow> string res \<times> 'w" where
  "browserExec S crawl4aiURL c navURL js sessionID jsOnly w =
     (if crawl4aiURL = [] then
        (Fail (EText ''crawl4ai endpoint not configured (set OMNIFEED_CRAWL4AI_URL)''), w)
      else
        (case DoRetry S c ''POST'' crawl4aiURL (Some (Marshal (exec_request navURL js sessionID jsOnly)))
            [(''Content-Type'', ''application/json'')] (no_config\<lparr>MaxAttempts := 1\<rparr>) w of
           (Fail err, w1) \<Rightarrow> (Fail (the (ClassifyClientError (Some err) KindBotBlock)), w1)
         | (Panic m, w1) \<Rightarrow> (Panic m, w1)
         | (Ok None, w1) \<Rightarrow> (Panic ''nil response'', w1)
         | (Ok (Some resp), w1) \<Rightarrow> (exec_result resp, w1)))"

definition dec_envelope :: "(int \<times> string) decoder" where
  \<comment> \<open>fetchEnvelope: the status and the body\<close>
  "dec_envelope = dec_struct [(''s'', into fst apfst dec_int), (''b'', into snd apsnd dec_string)]"

definition fetch_result :: "platform \<Rightarrow> string \<Rightarrow> string res" where
  \<comment> \<open>what browserFetch makes of the script's value\<close>
  "fetch_result P envStr =
     (case json_Unmarshal dec_envelope envStr (0, []) of
        None \<Rightarrow> Fail (EWrap ''decode fetch envelope'' json_error)
      | Some (s, b) \<Rightarrow>
         (if s \<noteq> 200 then
            Fail (FetchError (KindForStatus s) s [] (Some (EText
              (''reddit returned '' @ Itoa s @ '' via browser: '' @ truncate_str b 200))))
          else if \<not> json_Valid b then
           (case Detect (pl_lower P) b of
              Some marker \<Rightarrow> Fail (FetchError KindCaptcha s marker None)
            | None \<Rightarrow> Fail (FetchError KindBotBlock 0 [] (Some (EText
                (''reddit response not JSON (likely bot-blocked): '' @ truncate_str b 200)))))
          else Ok b))"

definition browserFetch :: "'w sys \<Rightarrow> platform \<Rightarrow> string \<Rightarrow> ctx \<Rightarrow> string \<Rightarrow> string \<Rightarrow> string \<Rightarrow> bool \<Rightarrow> 'w \<Rightarrow> string res \<times> 'w" where
  "browserFetch S P crawl4aiURL c navURL js sessionID jsOnly w =
     andThen (browserExec S crawl4aiURL c navURL js sessionID jsOnly w) (\<lambda>envStr w1. (fetch_result P envStr, w1))"

section \<open>The three fetches\<close>

definition FetchThread :: "'w sys \<Rightarrow> platform \<Rightarrow> string \<Rightarrow> ctx \<Rightarrow> string \<Rightarrow> 'w \<Rightarrow> string res \<times> 'w" where
  "FetchThread S P crawl4aiURL c permalink w =
     (let page = redditOrigin @ permalink;
          jsonURL = redditOrigin @ trim_suffix permalink ''/'' @ ''.json?limit=500&depth=20&sort=top&raw_json=1''
      in browserFetch S P crawl4aiURL c page (getJS jsonURL) (threadSession permalink) False w)"

definition more_form :: "string \<Rightarrow> string list \<Rightarrow> (string \<times> string) list" where
  \<comment> \<open>the form values in the order of their names, as Encode writes them\<close>
  "more_form linkID childIDs =
     [(''api_type'', ''json''), (''children'', join_with '','' childIDs), (''limit_children'', ''false''),
      (''link_id'', linkID), (''raw_json'', ''1''), (''sort'', ''top'')]"

definition FetchMoreChildren :: "'w sys \<Rightarrow> platform \<Rightarrow> string \<Rightarrow> ctx \<Rightarrow> string \<Rightarrow> string list \<Rightarrow> 'w \<Rightarrow> string res \<times> 'w" where
  "FetchMoreChildren S P crawl4aiURL c linkID childIDs w =
     (let id36 = trim_prefix linkID kindPostPrefix;
          page = redditOrigin @ ''/comments/'' @ id36 @ ''/''
      in browserFetch S P crawl4aiURL c page
           (postJS (redditOrigin @ ''/api/morechildren'') (Values_Encode (more_form linkID childIDs)))
           (''carp-reddit-'' @ id36) True w)"

definition ResolveShareURL :: "'w sys \<Rightarrow> string \<Rightarrow> ctx \<Rightarrow> string \<Rightarrow> 'w \<Rightarrow> string res \<times> 'w" where
  "ResolveShareURL S crawl4aiURL c shareURL w =
     andThen (browserExec S crawl4aiURL c shareURL ''return location.href;'' [] False w) (\<lambda>resolved w1.
       (if \<not> str_contains resolved ''/comments/''
        then Fail (EText (''share link did not resolve to a thread (got '' @ go_quote (redactQuery resolved) @ '')''))
        else Ok resolved, w1))"

section \<open>Session keys and forms\<close>

lemma after_comments_skip:
  "ps \<noteq> [] \<Longrightarrow> p \<noteq> ''comments'' \<Longrightarrow> after_comments (p # ps) = after_comments ps"
  by (cases ps) auto

lemma trim_char_permalink:
  assumes "canonical_permalink p"
  shows "trim_char p (CHR ''/'') = tl p"
proof -
  obtain q where q: "p = CHR ''/'' # CHR ''r'' # q" using assms by (auto simp: canonical_permalink_def)
  obtain x where "rev p = x # tl (rev p)" "x \<noteq> CHR ''/''"
    using canonical_no_final_slash [OF assms] q
    by (metis append_butlast_last_id has_suffix_append list.collapse list.distinct(1) rev_is_Nil_conv hd_rev)
  then have "last p \<noteq> CHR ''/''" by (metis hd_rev list.sel(1))
  then have "last (tl p) \<noteq> CHR ''/''" using q by (simp add: last_tl)
  then have "hd (rev (tl p)) \<noteq> CHR ''/''" by (simp add: hd_rev)
  then have "dropWhile (\<lambda>c. c = CHR ''/'') (rev (tl p)) = rev (tl p)"
    by (cases "rev (tl p)") auto
  moreover have "dropWhile (\<lambda>c. c = CHR ''/'') p = tl p" by (simp add: q)
  ultimately show ?thesis by (simp add: trim_char_def trim_right_char_def)
qed

lemma no_slash: "list_all not_slash s \<Longrightarrow> CHR ''/'' \<notin> set s" "list_all id_char s \<Longrightarrow> CHR ''/'' \<notin> set s"
  by (auto simp: list_all_iff not_slash_def id_char_def is_lower_def is_digit_def)

lemma threadSession_parts:
  assumes "permalink_parts sub i slug" "sub \<noteq> ''comments''"
  shows "threadSession (''/r/'' @ sub @ ''/comments/'' @ i @ slug) = ''carp-reddit-'' @ i"
proof -
  let ?p = "''/r/'' @ sub @ ''/comments/'' @ i @ slug"
  have "canonical_permalink ?p" using assms(1) by (auto simp: canonical_permalink_def)
  then have "trim_char ?p (CHR ''/'') = ''r'' @ CHR ''/'' # sub @ CHR ''/'' # ''comments'' @ CHR ''/'' # i @ slug"
    by (simp add: trim_char_permalink)
  moreover have "split_at (CHR ''/'') (''r'' @ CHR ''/'' # sub @ CHR ''/'' # ''comments'' @ CHR ''/'' # i @ slug)
      = ''r'' # sub # ''comments'' # split_at (CHR ''/'') (i @ slug)"
    using assms(1) no_slash(1) [of sub]
    by (simp add: permalink_parts_def split_at_append del: split_at.simps(2) append.simps(2))
  moreover have "\<exists>ps. split_at (CHR ''/'') (i @ slug) = i # ps"
    using assms(1) no_slash(2) [of i]
    by (auto simp: permalink_parts_def split_at_append split_at_single)
  ultimately show ?thesis
    using assms(2) by (auto simp: threadSession_def after_comments_skip)
qed

definition parse_form :: "string \<Rightarrow> (string option \<times> string option) list" where
  \<comment> \<open>how a form is read: pairs separated by ampersands, names and values unescaped\<close>
  "parse_form body = map (\<lambda>kv. (unescape encodeQueryComponent (fst (cut_at kv (CHR ''=''))),
      unescape encodeQueryComponent (fst (snd (cut_at kv (CHR ''='')))))) (split_at (CHR ''&'') body)"

lemma QueryEscape_no: "CHR ''&'' \<notin> set (QueryEscape s)" "CHR ''='' \<notin> set (QueryEscape s)"
  using QueryEscape_safe by auto

lemma cut_at_append: "d \<notin> set u \<Longrightarrow> cut_at (u @ d # v) d = (u, v, True)"
proof -
  assume "d \<notin> set u"
  then have "\<forall>x \<in> set u. x \<noteq> d" by auto
  then show ?thesis by (simp add: cut_at_def takeWhile_append2 dropWhile_append2)
qed

lemma parse_form_Encode:
  "kvs \<noteq> [] \<Longrightarrow> parse_form (Values_Encode kvs) = map (\<lambda>(k, v). (Some k, Some v)) kvs"
proof (induction kvs)
  case (Cons kv kvs)
  obtain k v where kv: "kv = (k, v)" by (cases kv)
  let ?e = "QueryEscape k @ CHR ''='' # QueryEscape v"
  have e: "CHR ''&'' \<notin> set ?e" using QueryEscape_no by simp
  have cut: "cut_at ?e (CHR ''='') = (QueryEscape k, QueryEscape v, True)"
    by (rule cut_at_append [OF QueryEscape_no(2)])
  show ?case
  proof (cases kvs)
    case Nil
    with kv cut split_at_single [OF e] show ?thesis
      by (simp add: parse_form_def Values_Encode_def unescape_QueryEscape)
  next
    case (Cons a b)
    then have "Values_Encode (kv # kvs) = ?e @ CHR ''&'' # Values_Encode kvs"
      by (simp add: Values_Encode_def kv)
    with Cons.IH Cons kv cut split_at_append [OF e] show ?thesis
      by (simp add: parse_form_def unescape_QueryEscape)
  qed
qed simp

section \<open>What goes over the wire\<close>

definition exec_http :: "ctx \<Rightarrow> string \<Rightarrow> json \<Rightarrow> event" where
  "exec_http c url body = EvHttp c \<lparr>req_method = ''POST'', req_url = url, req_body = Some (Marshal body),
     req_headers = [(''Content-Type'', ''application/json'')]\<rparr>"

definition at_most_once :: "event \<Rightarrow> event list \<Rightarrow> bool" where
  "at_most_once e ls \<longleftrightarrow> ls = [] \<or> ls = [e]"

lemma DoRetry_once_log:
  "emits (at_most_once (EvHttp c \<lparr>req_method = m, req_url = u, req_body = b, req_headers = h\<rparr>))
     (DoRetry (logged S) c m u b h (no_config\<lparr>MaxAttempts := 1\<rparr>) (w, l)) l"
proof -
  have "nat (MaxAttempts (retry_defaults (no_config\<lparr>MaxAttempts := 1\<rparr>))) = Suc 0"
    by (simp add: retry_defaults_def)
  then show ?thesis
    unfolding DoRetry_def Let_def
    by (auto simp: try_once_def emits_def at_most_once_def split: sum.splits prod.splits)
qed

lemma browserExec_log:
  "emits (at_most_once (exec_http c url (exec_request nav js sid jo)))
     (browserExec (logged S) url c nav js sid jo (w, l)) l"
proof (cases "url = []")
  case False
  let ?d = "DoRetry (logged S) c ''POST'' url (Some (Marshal (exec_request nav js sid jo)))
    [(''Content-Type'', ''application/json'')] (no_config\<lparr>MaxAttempts := 1\<rparr>) (w, l)"
  obtain r w1 l1 where d: "?d = (r, (w1, l1))" by (rule prod_cases3)
  have "emits (at_most_once (exec_http c url (exec_request nav js sid jo))) ?d l"
    unfolding exec_http_def by (rule DoRetry_once_log)
  moreover have "snd (browserExec (logged S) url c nav js sid jo (w, l)) = (w1, l1)"
    using False d by (simp add: browserExec_def split: res.splits option.splits)
  ultimately show ?thesis unfolding emits_def d by simp
qed (simp add: browserExec_def emits_def at_most_once_def)

lemma browserFetch_log:
  "emits (at_most_once (exec_http c url (exec_request nav js sid jo)))
     (browserFetch (logged S) P url c nav js sid jo (w, l)) l"
  unfolding browserFetch_def
  by (rule emits_andThen [OF browserExec_log, where R = "\<lambda>ls. ls = []"]) (simp_all add: emits_nothing)

section \<open>Properties\<close>

text \<open>
  C26: The injection guard of the scripts. \<open>jsLit\<close> writes a string literal that ends where
  \<open>jsLit\<close> ends it: read back as a JSON string with any script after it, the literal is
  consumed exactly, whatever bytes it was made from; it denotes the text with U+FFFD for each byte
  that is part of no character, so UTF-8 text as it is.
\<close>

theorem jsLit_contained:
  "jsLit s = CHR 0x22 # tl (jsLit s) \<and>
   string_body (tl (jsLit s) @ code) = Some (repair s, code) \<and>
   (valid_utf8 s \<longrightarrow> repair s = s)"
  by (simp add: jsLit_def encode_string_def string_body_encode_repair repair_id)

theorem jsLit_contained_witness:
  "string_body (tl (jsLit (json_text ''a`);alert(`'')) @ '', evil'') = Some (json_text ''a`);alert(`'', '', evil'')"
proof -
  have "valid_utf8 (json_text ''a`);alert(`'')"
    by (intro valid_utf8_ascii) (simp add: json_text_def is_ascii_def)
  with jsLit_contained [of "json_text ''a`);alert(`''" "'', evil''"] show ?thesis by simp
qed

text \<open>
  The first fetch of a thread and its expansion rounds use the same browser session:
  for a permalink of post i (in a subreddit that is not itself called comments) the session
  of \<open>FetchThread\<close> is the one \<open>FetchMoreChildren\<close> derives from the link id of post i.
\<close>

theorem threadSession_shared:
  assumes "permalink_parts sub i slug" "sub \<noteq> ''comments''"
  shows "threadSession (''/r/'' @ sub @ ''/comments/'' @ i @ slug)
     = ''carp-reddit-'' @ trim_prefix (kindPostPrefix @ i) kindPostPrefix"
  using threadSession_parts [OF assms] by simp

theorem threadSession_shared_witness:
  "threadSession ''/r/golang/comments/1abc/title'' = ''carp-reddit-1abc''"
proof -
  have "permalink_parts ''golang'' ''1abc'' ''/title''"
    by (simp add: permalink_parts_def not_slash_def id_char_def slug_char_def is_lower_def is_digit_def)
  from threadSession_shared [OF this] show ?thesis by simp
qed

text \<open>
  A subreddit called comments breaks that: the loop stops at the subreddit segment, so
  its threads share one session key, which none of their expansion rounds uses.
\<close>

theorem threadSession_comments_subreddit:
  "threadSession ''/r/comments/comments/1abc/title'' = ''carp-reddit-comments'' \<and>
   ''carp-reddit-'' @ trim_prefix (kindPostPrefix @ ''1abc'') kindPostPrefix \<noteq> ''carp-reddit-comments''"
  by (simp add: threadSession_def trim_char_def trim_right_char_def)

text \<open>
  One \<open>browserExec\<close> sends at most one HTTP request, a POST of the browser request to the
  configured crawl4ai address, and does nothing else: it neither retries nor waits;
  \<open>browserFetch\<close> adds nothing.
\<close>

theorem browserFetch_requests:
  "emits (at_most_once (exec_http c url (exec_request nav js sid jo)))
     (browserExec (logged S) url c nav js sid jo (w, l)) l \<and>
   emits (at_most_once (exec_http c url (exec_request nav js sid jo)))
     (browserFetch (logged S) P url c nav js sid jo (w, l)) l"
  by (intro conjI browserExec_log browserFetch_log)

text \<open>
  The request crawl4ai reads is the request the program means: marshalled and parsed
  again it is the same value, with the navigation address, the script and the session key
  as they were, for UTF-8 text in them.
\<close>

theorem exec_request_roundtrip:
  assumes "valid_utf8 nav" "valid_utf8 js" "valid_utf8 sid"
  shows "json_parse (Marshal (exec_request nav js sid jo)) = Some (exec_request nav js sid jo)"
proof (rule json_parse_Marshal)
  show "wf_json maxNestingDepth (exec_request nav js sid jo)"
    using assms by (simp add: exec_request_def wf_json_eval)
qed

theorem exec_request_roundtrip_witness:
  "json_parse (Marshal (exec_request ''https://www.reddit.com/r/a'' ''return 1;'' [] True))
     = Some (exec_request ''https://www.reddit.com/r/a'' ''return 1;'' [] True)"
  by (rule exec_request_roundtrip; intro valid_utf8_ascii; simp add: is_ascii_def)

text \<open>
  What \<open>browserFetch\<close> hands on is data: it succeeds exactly when the envelope says
  status 200 and its body is valid JSON, and returns that body; a challenge page (not JSON,
  with a marker) under status 200 becomes the captcha failure with that marker.
\<close>

theorem fetch_result_correct:
  "(fetch_result P env = Ok b \<longleftrightarrow>
      json_Unmarshal dec_envelope env (0, []) = Some (200, b) \<and> json_Valid b) \<and>
   (fetch_result P env = Fail (FetchError KindCaptcha 200 m None) \<longleftrightarrow>
      (\<exists>b'. json_Unmarshal dec_envelope env (0, []) = Some (200, b') \<and> \<not> json_Valid b' \<and>
         Detect (pl_lower P) b' = Some m))"
proof (cases "json_Unmarshal dec_envelope env (0, [])")
  case None
  then show ?thesis by (simp add: fetch_result_def)
next
  case (Some sb)
  obtain s b' where "sb = (s, b')" by (cases sb)
  moreover have "KindForStatus s \<noteq> KindCaptcha" by (auto simp: KindForStatus_def)
  ultimately show ?thesis using Some
    by (cases "Detect (pl_lower P) b'") (auto simp: fetch_result_def)
qed

text \<open>
  The form of \<open>FetchMoreChildren\<close> is read back as exactly its six fields: no link id or
  child id can add or change a field.
\<close>

theorem more_form_roundtrip:
  "parse_form (Values_Encode (more_form linkID childIDs)) =
     [(Some ''api_type'', Some ''json''), (Some ''children'', Some (join_with '','' childIDs)),
      (Some ''limit_children'', Some ''false''), (Some ''link_id'', Some linkID),
      (Some ''raw_json'', Some ''1''), (Some ''sort'', Some ''top'')]"
  by (simp add: parse_form_Encode more_form_def)

end
