(* ===== verification/Reddit_Parser.thy ===== *)
theory Reddit_Parser
  imports Reddit_Text Go_Float Go_Json_Roundtrip
begin

text \<open>
  \<open>internal/engine/reddit/types.go\<close> and the parsing half of \<open>parser.go\<close>: the output types,
  the wire types with their JSON fields, \<open>ParseThread\<close>, \<open>ParseMoreChildren\<close>,
  \<open>walkChildren\<close> and the filters it applies. A nil pointer field is \<open>None\<close>. The
  specification is a forest of comments and gaps (\<open>rnode\<close>): a listing in Reddit's shape is
  parsed into the live comments in preorder and the gaps in preorder.
\<close>

section \<open>Output types\<close>

record Post =
  post_ID :: string
  post_Title :: string
  post_Author :: string
  post_Subreddit :: string
  post_Score :: int
  post_UpvoteRatio :: float64
  post_NumComments :: int
  post_Created :: int
  post_URL :: string
  post_Selftext :: string
  post_Permalink :: string

record Comment =
  c_ID :: string
  c_ParentID :: string
  c_Author :: string
  c_Score :: int
  c_Body :: string
  c_Depth :: "int option"
  c_Created :: "int option"

record Gap =
  gap_Type :: string
  gap_ParentID :: string
  gap_Depth :: int
  gap_Count :: int
  gap_Children :: "string list"

record Thread =
  th_Post :: Post
  th_Comments :: "Comment list"
  th_Gaps :: "Gap list"

record Options =
  KeepDepth :: bool
  KeepCreated :: bool
  MaxRounds :: int
  Format :: string

section \<open>Wire types\<close>

record rawListingWrap =
  rl_Kind :: string
  rl_Children :: "json list"

record rawPostData =
  rp_ID :: string
  rp_Title :: string
  rp_Author :: string
  rp_Subreddit :: string
  rp_Score :: int
  rp_UpvoteRatio :: float64
  rp_NumComments :: int
  rp_CreatedUTC :: float64
  rp_URL :: string
  rp_Selftext :: string
  rp_Permalink :: string

record rawCommentData =
  rc_ID :: string
  rc_ParentID :: string
  rc_LinkID :: string
  rc_Author :: string
  rc_Score :: int
  rc_Body :: string
  rc_Depth :: int
  rc_CreatedUTC :: float64
  rc_Replies :: "json option"

record rawMoreData =
  rm_Count :: int
  rm_ParentID :: string
  rm_Depth :: int
  rm_Children :: "string list"

definition zero_f64 :: float64 where "zero_f64 = F64 0 0"

definition zero_listing :: rawListingWrap where
  "zero_listing = \<lparr>rl_Kind = [], rl_Children = []\<rparr>"

definition zero_post :: rawPostData where
  "zero_post = \<lparr>rp_ID = [], rp_Title = [], rp_Author = [], rp_Subreddit = [], rp_Score = 0,
     rp_UpvoteRatio = zero_f64, rp_NumComments = 0, rp_CreatedUTC = zero_f64, rp_URL = [],
     rp_Selftext = [], rp_Permalink = []\<rparr>"

definition zero_comment :: rawCommentData where
  "zero_comment = \<lparr>rc_ID = [], rc_ParentID = [], rc_LinkID = [], rc_Author = [], rc_Score = 0,
     rc_Body = [], rc_Depth = 0, rc_CreatedUTC = zero_f64, rc_Replies = None\<rparr>"

definition zero_more :: rawMoreData where
  "zero_more = \<lparr>rm_Count = 0, rm_ParentID = [], rm_Depth = 0, rm_Children = []\<rparr>"

abbreviation dec_any :: "json decoder" where
  "dec_any \<equiv> (\<lambda>j a. Some j)"

definition dec_listing :: "rawListingWrap decoder" where
  "dec_listing = dec_struct
     [(''kind'', into rl_Kind rl_Kind_update dec_string),
      (''data'', dec_struct [(''children'', into rl_Children rl_Children_update (dec_slice dec_any JNull))])]"

definition dec_kind :: "string decoder" where
  \<comment> \<open>rawChildKind, a struct of one string\<close>
  "dec_kind = dec_struct [(''kind'', dec_string)]"

text \<open>
  \<open>rawPost\<close>, \<open>rawComment\<close> and \<open>rawMore\<close> pair a kind, which the program does not read again,
  with the data.
\<close>

definition dec_thing :: "'a decoder \<Rightarrow> (string \<times> 'a) decoder" where
  "dec_thing f = dec_struct
     [(''kind'', into fst apfst dec_string), (''data'', into snd apsnd f)]"

definition dec_post_data :: "rawPostData decoder" where
  "dec_post_data = dec_struct
     [(''id'', into rp_ID rp_ID_update dec_string),
      (''title'', into rp_Title rp_Title_update dec_string),
      (''author'', into rp_Author rp_Author_update dec_string),
      (''subreddit'', into rp_Subreddit rp_Subreddit_update dec_string),
      (''score'', into rp_Score rp_Score_update dec_int),
      (''upvote_ratio'', into rp_UpvoteRatio rp_UpvoteRatio_update dec_float),
      (''num_comments'', into rp_NumComments rp_NumComments_update dec_int),
      (''created_utc'', into rp_CreatedUTC rp_CreatedUTC_update dec_float),
      (''url'', into rp_URL rp_URL_update dec_string),
      (''selftext'', into rp_Selftext rp_Selftext_update dec_string),
      (''permalink'', into rp_Permalink rp_Permalink_update dec_string)]"

definition comment_fields :: "rawCommentData fields" where
  "comment_fields =
     [(''id'', into rc_ID rc_ID_update dec_string),
      (''parent_id'', into rc_ParentID rc_ParentID_update dec_string),
      (''link_id'', into rc_LinkID rc_LinkID_update dec_string),
      (''author'', into rc_Author rc_Author_update dec_string),
      (''score'', into rc_Score rc_Score_update dec_int),
      (''body'', into rc_Body rc_Body_update dec_string),
      (''depth'', into rc_Depth rc_Depth_update dec_int),
      (''created_utc'', into rc_CreatedUTC rc_CreatedUTC_update dec_float),
      (''replies'', into rc_Replies rc_Replies_update dec_raw)]"

definition dec_comment_data :: "rawCommentData decoder" where
  "dec_comment_data = dec_struct comment_fields"

definition dec_more_data :: "rawMoreData decoder" where
  "dec_more_data = dec_struct
     [(''count'', into rm_Count rm_Count_update dec_int),
      (''parent_id'', into rm_ParentID rm_ParentID_update dec_string),
      (''depth'', into rm_Depth rm_Depth_update dec_int),
      (''children'', into rm_Children rm_Children_update (dec_slice dec_string []))]"

section \<open>Operations\<close>

definition hasRepliesListing :: "json option \<Rightarrow> bool" where
  \<comment> \<open>the raw text is at least two bytes long and starts with a brace: it is an object\<close>
  "hasRepliesListing raw = (case raw of Some (JObj kvs) \<Rightarrow> True | _ \<Rightarrow> False)"

definition isRemovedComment :: "rawCommentData \<Rightarrow> bool" where
  "isRemovedComment d =
     (if rc_Author d \<noteq> ''[deleted]'' \<and> rc_Author d \<noteq> [] then False
      else rc_Body d \<in> {[], ''[removed]'', ''[deleted]'', ''[ Removed by Reddit ]''})"

definition makeComment :: "platform \<Rightarrow> Options \<Rightarrow> rawCommentData \<Rightarrow> Comment" where
  "makeComment P opts d =
     \<lparr>c_ID = rc_ID d, c_ParentID = stripFullnamePrefix (rc_ParentID d), c_Author = rc_Author d,
      c_Score = rc_Score d, c_Body = cleanBody (rc_Body d),
      c_Depth = (if KeepDepth opts then Some (rc_Depth d) else None),
      c_Created = (if KeepCreated opts then Some (int_of_float P (rc_CreatedUTC d)) else None)\<rparr>"

definition makeGap :: "rawMoreData \<Rightarrow> Gap" where
  "makeGap d =
     (if rm_Count d = 0
      then \<lparr>gap_Type = ''continue'', gap_ParentID = stripFullnamePrefix (rm_ParentID d),
            gap_Depth = rm_Depth d, gap_Count = 0, gap_Children = []\<rparr>
      else \<lparr>gap_Type = ''more'', gap_ParentID = stripFullnamePrefix (rm_ParentID d),
            gap_Depth = rm_Depth d, gap_Count = rm_Count d, gap_Children = rm_Children d\<rparr>)"

definition comment_of :: "json \<Rightarrow> rawCommentData option" where
  "comment_of c = map_option snd (dec_thing dec_comment_data c ([], zero_comment))"

definition more_of :: "json \<Rightarrow> rawMoreData option" where
  "more_of c = map_option snd (dec_thing dec_more_data c ([], zero_more))"

definition reply_children :: "rawCommentData \<Rightarrow> json list" where
  \<comment> \<open>the children of the replies listing, none where there is no listing or it does not decode\<close>
  "reply_children d =
     (if hasRepliesListing (rc_Replies d)
      then (case dec_listing (the (rc_Replies d)) zero_listing of
              Some sub \<Rightarrow> rl_Children sub | None \<Rightarrow> [])
      else [])"

section \<open>Replies are inside their comment\<close>

lemma size_member: "(k, v) \<in> set kvs \<Longrightarrow> size v < size (JObj kvs)"
  by (induction kvs) auto

lemma listing_children_size:
  assumes "dec_listing j zero_listing = Some l" and JObj: "j = JObj kvs"
  shows "size_list size (rl_Children l) < size j"
proof -
  let ?Q = "\<lambda>l. size_list size (rl_Children l) < size j"
  have inner: "?Q y"
    if v: "size v < size j" and x: "?Q x"
      and d: "dec_struct [(''children'', into rl_Children rl_Children_update (dec_slice dec_any JNull))] v x = Some y"
    for v x y
  proof (cases v)
    case (JObj kvs')
    from d JObj have "dec_members [(''children'', into rl_Children rl_Children_update (dec_slice dec_any JNull))] kvs' x
        = Some y" by simp
    then show ?thesis
    proof (rule dec_members_inv [where Q = ?Q])
      show "?Q x" by (rule x)
    next
      fix k w f x' y'
      assume w: "(k, w) \<in> set kvs'" "?Q x'" "f w x' = Some y'"
        and "f \<in> snd ` set [(''children'', into rl_Children rl_Children_update (dec_slice dec_any JNull))]"
      then have f: "f = into rl_Children rl_Children_update (dec_slice dec_any JNull)" by simp
      have "size w < size j" using size_member [OF w(1)] v JObj by simp
      moreover have "dec_list dec_any z js = Some js" for z and js :: "json list"
        by (induction js) auto
      ultimately show "?Q y'" using w(3) unfolding f by (cases w) (auto simp: into_def)
    qed
  qed (use d x in auto)
  from assms have "dec_members
     [(''kind'', into rl_Kind rl_Kind_update dec_string),
      (''data'', dec_struct [(''children'', into rl_Children rl_Children_update (dec_slice dec_any JNull))])]
     kvs zero_listing = Some l" by (simp add: dec_listing_def)
  then show ?thesis
  proof (rule dec_members_inv [where Q = ?Q])
    show "?Q zero_listing" using JObj by (simp add: zero_listing_def)
  next
    fix k v f x y
    assume kv: "(k, v) \<in> set kvs" and x: "?Q x" and y: "f v x = Some y"
      and f: "f \<in> snd ` set [(''kind'', into rl_Kind rl_Kind_update dec_string),
        (''data'', dec_struct [(''children'', into rl_Children rl_Children_update (dec_slice dec_any JNull))])]"
    have "size v < size j" using size_member [OF kv] JObj by simp
    from f consider "f = into rl_Kind rl_Kind_update dec_string"
      | "f = dec_struct [(''children'', into rl_Children rl_Children_update (dec_slice dec_any JNull))]" by auto
    then show "?Q y"
    proof cases
      case 1
      with x y show ?thesis by (auto simp: into_def)
    next
      case 2
      with inner [OF \<open>size v < size j\<close> x] y show ?thesis by simp
    qed
  qed
qed

lemma comment_replies_size:
  assumes "comment_of c = Some d" "rc_Replies d = Some r"
  shows "size r < size c"
proof (cases c)
  case (JObj kvs)
  let ?Q = "\<lambda>d. \<forall>r. rc_Replies d = Some r \<longrightarrow> size r < size c"
  let ?data = "into snd apsnd dec_comment_data :: (string \<times> rawCommentData) decoder"
  let ?kind = "into fst apfst dec_string :: (string \<times> rawCommentData) decoder"
  have inner: "?Q y" if v: "size v < size c" and x: "?Q x" and d: "dec_comment_data v x = Some y" for v x y
  proof (cases v)
    case (JObj kvs')
    from d JObj have "dec_members comment_fields kvs' x = Some y" by (simp add: dec_comment_data_def)
    then show ?thesis
    proof (rule dec_members_inv [where Q = ?Q])
      show "?Q x" by (rule x)
    next
      fix k w f x' y'
      assume w: "(k, w) \<in> set kvs'" and x': "?Q x'" and y': "f w x' = Some y'"
        and f: "f \<in> snd ` set comment_fields"
      have "size w < size c" using size_member [OF w] v JObj by simp
      with f x' y' show "?Q y'" by (auto simp: comment_fields_def into_def)
    qed
  qed (use d x in \<open>auto simp: dec_comment_data_def\<close>)
  obtain k where "dec_thing dec_comment_data c ([], zero_comment) = Some (k, d)"
    using assms(1) by (auto simp: comment_of_def)
  then have "dec_members [(''kind'', ?kind), (''data'', ?data)] kvs ([], zero_comment) = Some (k, d)"
    by (simp add: dec_thing_def JObj)
  then have "?Q (snd (k, d))"
  proof (rule dec_members_inv [where Q = "\<lambda>p. ?Q (snd p)"])
    show "?Q (snd ([], zero_comment))" by (simp add: zero_comment_def)
  next
    fix k v f x y
    assume kv: "(k, v) \<in> set kvs" and x: "?Q (snd x)" and y: "f v x = Some y"
      and f: "f \<in> snd ` set [(''kind'', ?kind), (''data'', ?data)]"
    have v: "size v < size c" using size_member [OF kv] JObj by simp
    from f consider "f = ?kind" | "f = ?data" by auto
    then show "?Q (snd y)"
    proof cases
      case 1
      with x y show ?thesis by (auto simp: into_def)
    next
      case 2
      with y obtain d' where "dec_comment_data v (snd x) = Some d'" "snd y = d'"
        by (auto simp: into_def)
      with inner [OF v x] show ?thesis by simp
    qed
  qed
  with assms(2) show ?thesis by simp
qed (use assms in \<open>auto simp: comment_of_def dec_thing_def zero_comment_def\<close>)

lemma reply_children_size:
  assumes "comment_of c = Some d"
  shows "size_list size (reply_children d) < size_list size (c # cs)"
proof (cases "hasRepliesListing (rc_Replies d)")
  case True
  then obtain kvs where r: "rc_Replies d = Some (JObj kvs)"
    by (auto simp: hasRepliesListing_def split: option.splits json.splits)
  have "size (JObj kvs) < size c" by (rule comment_replies_size [OF assms r])
  moreover have "size_list size (rl_Children l) < size (JObj kvs)"
    if "dec_listing (JObj kvs) zero_listing = Some l" for l
    using listing_children_size [OF that refl] .
  ultimately show ?thesis
    using r by (fastforce simp: reply_children_def hasRepliesListing_def split: option.splits)
qed (simp add: reply_children_def)

section \<open>Walking the tree\<close>

function walkChildren :: "platform \<Rightarrow> Options \<Rightarrow> json list \<Rightarrow> Comment list \<times> Gap list" where
  "walkChildren P opts [] = ([], [])"
| "walkChildren P opts (c # cs) =
     (let (cm, gp) =
        (case dec_kind c [] of
           None \<Rightarrow> ([], [])
         | Some k \<Rightarrow>
             if k = ''t1'' then
               (case comment_of c of
                  None \<Rightarrow> ([], [])
                | Some d \<Rightarrow>
                    (let (subC, subG) = walkChildren P opts (reply_children d)
                     in ((if isRemovedComment d then [] else [makeComment P opts d]) @ subC, subG)))
             else if k = ''more'' then
               (case more_of c of None \<Rightarrow> ([], []) | Some d \<Rightarrow> ([], [makeGap d]))
             else ([], []));
        (cm', gp') = walkChildren P opts cs
      in (cm @ cm', gp @ gp'))"
  by pat_completeness auto
termination
  by (relation "measure (\<lambda>(P, opts, cs). size_list size cs)") (auto dest: reply_children_size)

section \<open>Threads\<close>

definition ParseThread :: "platform \<Rightarrow> string \<Rightarrow> Options \<Rightarrow> Thread res" where
  "ParseThread P raw opts =
     (case json_Unmarshal (dec_slice dec_listing zero_listing) raw [] of
        None \<Rightarrow> Fail json_error
      | Some listings \<Rightarrow>
         (if length listings < 2 then
            Fail (EText (''expected 2-element listing, got '' @ Itoa (int (length listings))))
          else if rl_Children (listings ! 0) = [] then Fail (EText ''no post in first listing'')
          else
           (case dec_thing dec_post_data (rl_Children (listings ! 0) ! 0) ([], zero_post) of
              None \<Rightarrow> Fail json_error
            | Some (_, post) \<Rightarrow>
                (let (comments, gaps) = walkChildren P opts (rl_Children (listings ! 1))
                 in Ok \<lparr>th_Post =
                       \<lparr>post_ID = rp_ID post, post_Title = rp_Title post, post_Author = rp_Author post,
                        post_Subreddit = rp_Subreddit post, post_Score = rp_Score post,
                        post_UpvoteRatio = rp_UpvoteRatio post, post_NumComments = rp_NumComments post,
                        post_Created = int_of_float P (rp_CreatedUTC post), post_URL = rp_URL post,
                        post_Selftext = cleanBody (rp_Selftext post), post_Permalink = rp_Permalink post\<rparr>,
                      th_Comments = comments, th_Gaps = gaps\<rparr>))))"

definition dec_things :: "json list decoder" where
  "dec_things = dec_slice dec_any JNull"

definition dec_more_response :: "(json list \<times> json list) decoder" where
  \<comment> \<open>the errors and the things of the response\<close>
  "dec_more_response = dec_struct [(''json'', dec_struct
     [(''errors'', into fst apfst dec_things),
      (''data'', dec_struct [(''things'', into snd apsnd dec_things)])])]"

definition ParseMoreChildren :: "platform \<Rightarrow> string \<Rightarrow> Options \<Rightarrow> (Comment list \<times> Gap list) res" where
  "ParseMoreChildren P raw opts =
     (case json_Unmarshal dec_more_response raw ([], []) of
        None \<Rightarrow> Fail json_error
      | Some (errs, things) \<Rightarrow> Ok (walkChildren P opts things))"

section \<open>What every parsed comment and gap looks like\<close>

definition well_formed_gap :: "Gap \<Rightarrow> bool" where
  "well_formed_gap g \<longleftrightarrow>
     (gap_Type g = ''continue'' \<and> gap_Count g = 0 \<and> gap_Children g = []) \<or>
     (gap_Type g = ''more'' \<and> gap_Count g \<noteq> 0)"

lemma makeGap_wf: "well_formed_gap (makeGap d)"
  by (simp add: makeGap_def well_formed_gap_def)

definition live_comment :: "platform \<Rightarrow> Options \<Rightarrow> Comment \<Rightarrow> bool" where
  "live_comment P opts cm \<longleftrightarrow> (\<exists>d. \<not> isRemovedComment d \<and> cm = makeComment P opts d)"

lemma walk_Cons:
  "walkChildren P opts (c # cs) =
     (fst (walkChildren P opts [c]) @ fst (walkChildren P opts cs),
      snd (walkChildren P opts [c]) @ snd (walkChildren P opts cs))"
  by (simp add: Let_def case_prod_unfold)

lemma walk_single_cases:
  obtains "walkChildren P opts [c] = ([], [])"
  | d where "more_of c = Some d" "walkChildren P opts [c] = ([], [makeGap d])"
  | d where "comment_of c = Some d" "walkChildren P opts [c] =
      ((if isRemovedComment d then [] else [makeComment P opts d]) @
         fst (walkChildren P opts (reply_children d)), snd (walkChildren P opts (reply_children d)))"
proof (cases "dec_kind c []")
  case (Some k)
  consider "k = ''t1''" | "k = ''more''" | "k \<noteq> ''t1''" "k \<noteq> ''more''" by blast
  then show ?thesis
  proof cases
    case 1
    with Some that show ?thesis
      by (cases "comment_of c") (simp_all add: Let_def case_prod_unfold)
  next
    case 2
    with Some that show ?thesis by (cases "more_of c") simp_all
  qed (use Some that in simp)
qed (use that in simp)

lemma walkChildren_all:
  assumes "\<And>d. \<not> isRemovedComment d \<Longrightarrow> A (makeComment P opts d)" "\<And>d. B (makeGap d)"
  shows "list_all A (fst (walkChildren P opts cs)) \<and> list_all B (snd (walkChildren P opts cs))"
proof (induction cs rule: measure_induct_rule [of "size_list size"])
  case (less cs)
  show ?case
  proof (cases cs)
    case (Cons c cs')
    have "list_all A (fst (walkChildren P opts [c])) \<and> list_all B (snd (walkChildren P opts [c]))"
    proof (rule walk_single_cases [of P opts c])
      fix d assume d: "comment_of c = Some d" and w: "walkChildren P opts [c] =
        ((if isRemovedComment d then [] else [makeComment P opts d]) @
           fst (walkChildren P opts (reply_children d)), snd (walkChildren P opts (reply_children d)))"
      have "list_all A (fst (walkChildren P opts (reply_children d))) \<and>
          list_all B (snd (walkChildren P opts (reply_children d)))"
        using less.IH reply_children_size [OF d] Cons by blast
      with w assms show ?thesis by simp
    qed (use assms in simp_all)
    moreover have "list_all A (fst (walkChildren P opts cs')) \<and> list_all B (snd (walkChildren P opts cs'))"
      using less.IH [of cs'] Cons by simp
    ultimately show ?thesis using walk_Cons [of P opts c cs'] Cons by simp
  qed simp
qed

lemma walkChildren_gaps_wf: "list_all well_formed_gap (snd (walkChildren P opts cs))"
  using walkChildren_all [where A = "\<lambda>_. True" and B = well_formed_gap] makeGap_wf by blast

lemma walkChildren_live: "list_all (live_comment P opts) (fst (walkChildren P opts cs))"
  using walkChildren_all [where A = "live_comment P opts" and B = "\<lambda>_. True"] live_comment_def by blast

section \<open>Listings in Reddit's shape\<close>

datatype rnode =
    RComment rawCommentData string "rnode list"   \<comment> \<open>data, the literal of created_utc, replies\<close>
  | RMore rawMoreData

definition listing_json :: "json list \<Rightarrow> json" where
  "listing_json things = JObj [(''kind'', JStr ''Listing''), (''data'', JObj [(''children'', JArr things)])]"

definition replies_json :: "json list \<Rightarrow> json" where
  "replies_json things = (if things = [] then JStr [] else listing_json things)"

fun thing_json :: "rnode \<Rightarrow> json" where
  "thing_json (RComment d lit rs) = JObj [(''kind'', JStr ''t1''), (''data'', JObj
     [(''id'', JStr (rc_ID d)), (''parent_id'', JStr (rc_ParentID d)), (''link_id'', JStr (rc_LinkID d)),
      (''author'', JStr (rc_Author d)), (''score'', JNum (Itoa (rc_Score d))), (''body'', JStr (rc_Body d)),
      (''depth'', JNum (Itoa (rc_Depth d))), (''created_utc'', JNum lit),
      (''replies'', replies_json (map thing_json rs))])]"
| "thing_json (RMore d) = JObj [(''kind'', JStr ''more''), (''data'', JObj
     [(''count'', JNum (Itoa (rm_Count d))), (''parent_id'', JStr (rm_ParentID d)),
      (''depth'', JNum (Itoa (rm_Depth d))), (''children'', JArr (map JStr (rm_Children d)))])]"

fun wf_node :: "rnode \<Rightarrow> bool" where
  "wf_node (RComment d lit rs) \<longleftrightarrow> in_int64 (rc_Score d) \<and> in_int64 (rc_Depth d) \<and>
     ParseFloat lit = Some (rc_CreatedUTC d) \<and> list_all wf_node rs"
| "wf_node (RMore d) \<longleftrightarrow> in_int64 (rm_Count d) \<and> in_int64 (rm_Depth d)"

fun live_comments :: "platform \<Rightarrow> Options \<Rightarrow> rnode \<Rightarrow> Comment list" where
  "live_comments P opts (RComment d lit rs) =
     (if isRemovedComment d then [] else [makeComment P opts d]) @ concat (map (live_comments P opts) rs)"
| "live_comments P opts (RMore d) = []"

fun open_gaps :: "rnode \<Rightarrow> Gap list" where
  "open_gaps (RComment d lit rs) = concat (map open_gaps rs)"
| "open_gaps (RMore d) = [makeGap d]"

lemma dec_list_any [simp]: "dec_list dec_any z js = Some js"
  by (induction js) auto

lemma dec_list_strings [simp]: "dec_list dec_string z (map JStr ss) = Some ss"
  by (induction ss) auto

lemma dec_listing_json [simp]:
  "dec_listing (listing_json js) l = Some \<lparr>rl_Kind = ''Listing'', rl_Children = js\<rparr>"
  by (cases l) (simp add: dec_listing_def listing_json_def find_field_def into_def)

lemma kind_json [simp]: "dec_kind (thing_json n) [] = Some (case n of RComment _ _ _ \<Rightarrow> ''t1'' | RMore _ \<Rightarrow> ''more'')"
  by (cases n) (simp_all add: dec_kind_def find_field_def fold_eval)

lemma comment_of_json:
  "wf_node (RComment d lit rs) \<Longrightarrow>
     comment_of (thing_json (RComment d lit rs)) = Some (d\<lparr>rc_Replies := Some (replies_json (map thing_json rs))\<rparr>)"
  by (simp add: comment_of_def dec_thing_def dec_comment_data_def comment_fields_def find_field_def
      into_def Atoi_Itoa zero_comment_def)

lemma more_of_json: "wf_node (RMore d) \<Longrightarrow> more_of (thing_json (RMore d)) = Some d"
  by (simp add: more_of_def dec_thing_def dec_more_data_def find_field_def into_def Atoi_Itoa zero_more_def)

lemma reply_children_json: "reply_children (d\<lparr>rc_Replies := Some (replies_json js)\<rparr>) = js"
proof (cases "js = []")
  case False
  have "hasRepliesListing (Some (listing_json js))"
    by (simp add: hasRepliesListing_def listing_json_def)
  with False show ?thesis by (simp add: reply_children_def replies_json_def)
qed (simp add: reply_children_def replies_json_def hasRepliesListing_def)

lemma removed_replies [simp]:
  "isRemovedComment (d\<lparr>rc_Replies := r\<rparr>) = isRemovedComment d"
  "makeComment P opts (d\<lparr>rc_Replies := r\<rparr>) = makeComment P opts d"
  by (simp_all add: isRemovedComment_def makeComment_def)

lemma walk_forest:
  assumes "\<And>n. n \<in> set ns \<Longrightarrow> walkChildren P opts [thing_json n] = (live_comments P opts n, open_gaps n)"
  shows "walkChildren P opts (map thing_json ns) =
     (concat (map (live_comments P opts) ns), concat (map open_gaps ns))"
  using assms
proof (induction ns)
  case (Cons n ns)
  then have "walkChildren P opts [thing_json n] = (live_comments P opts n, open_gaps n)"
    and "walkChildren P opts (map thing_json ns) =
      (concat (map (live_comments P opts) ns), concat (map open_gaps ns))" by simp_all
  then show ?case
    by (simp only: list.map walk_Cons [of P opts "thing_json n" "map thing_json ns"] fst_conv snd_conv
        concat.simps)
qed simp

lemma walk_node:
  "wf_node n \<Longrightarrow> walkChildren P opts [thing_json n] = (live_comments P opts n, open_gaps n)"
proof (induction n)
  case (RComment d lit rs)
  have "walkChildren P opts (map thing_json rs) =
      (concat (map (live_comments P opts) rs), concat (map open_gaps rs))"
    using RComment by (intro walk_forest) (simp add: list_all_iff)
  then show ?case
    by (simp add: comment_of_json [OF RComment.prems] reply_children_json del: thing_json.simps)
next
  case (RMore d)
  then show ?case by (simp add: more_of_json del: thing_json.simps)
qed

lemma walk_listing:
  "list_all wf_node ns \<Longrightarrow> walkChildren P opts (map thing_json ns) =
     (concat (map (live_comments P opts) ns), concat (map open_gaps ns))"
  by (intro walk_forest walk_node) (simp add: list_all_iff)

lemma ParseThread_tree:
  assumes "json_parse raw = Some (JArr (listing_json (post # others) # listing_json (map thing_json ns) # tail))"
    and "dec_list dec_listing zero_listing tail \<noteq> None"
    and "dec_thing dec_post_data post ([], zero_post) = Some (kind, d)"
    and "list_all wf_node ns"
  shows "\<exists>t. ParseThread P raw opts = Ok t \<and>
    th_Comments t = concat (map (live_comments P opts) ns) \<and>
    th_Gaps t = concat (map open_gaps ns) \<and>
    post_ID (th_Post t) = rp_ID d \<and> post_Permalink (th_Post t) = rp_Permalink d \<and>
    post_Selftext (th_Post t) = cleanBody (rp_Selftext d)"
proof -
  obtain ls where "dec_list dec_listing zero_listing tail = Some ls" using assms(2) by auto
  with assms(1) have "json_Unmarshal (dec_slice dec_listing zero_listing) raw [] =
      Some (\<lparr>rl_Kind = ''Listing'', rl_Children = post # others\<rparr> #
            \<lparr>rl_Kind = ''Listing'', rl_Children = map thing_json ns\<rparr> # ls)"
    by (simp add: json_Unmarshal_def)
  with assms(3) walk_listing [OF assms(4), of P opts] show ?thesis
    by (simp add: ParseThread_def)
qed

section \<open>Properties\<close>

definition tidy_comment :: "Options \<Rightarrow> Comment \<Rightarrow> bool" where
  \<comment> \<open>the body is in normal form and the optional fields are there exactly as asked for\<close>
  "tidy_comment opts cm \<longleftrightarrow> cleanBody (c_Body cm) = c_Body cm \<and>
     (c_Depth cm \<noteq> None) = KeepDepth opts \<and> (c_Created cm \<noteq> None) = KeepCreated opts"


text \<open>
  C18: Parsing a thread in Reddit's shape, a listing with the post and a listing with a
  forest of comments and gaps, yields the post and, in preorder, exactly the live comments
  (the children of a removed comment included) and the gaps of the forest.
\<close>

theorem ParseThread_forest:
  assumes "json_parse raw = Some (JArr (listing_json (post # others) # listing_json (map thing_json ns) # tail))"
    and "dec_list dec_listing zero_listing tail \<noteq> None"
    and "dec_thing dec_post_data post ([], zero_post) = Some (kind, d)"
    and "list_all wf_node ns"
  shows "\<exists>t. ParseThread P raw opts = Ok t \<and>
    th_Comments t = concat (map (live_comments P opts) ns) \<and>
    th_Gaps t = concat (map open_gaps ns) \<and>
    post_ID (th_Post t) = rp_ID d \<and> post_Permalink (th_Post t) = rp_Permalink d \<and>
    post_Selftext (th_Post t) = cleanBody (rp_Selftext d)"
  using assms by (rule ParseThread_tree)

definition example_forest :: "rnode list" where
  "example_forest =
     [RComment (zero_comment\<lparr>rc_ID := ''c1'', rc_ParentID := ''t3_p1'', rc_Author := ''[deleted]'',
         rc_Body := ''[removed]''\<rparr>) ''0''
        [RComment (zero_comment\<lparr>rc_ID := ''c2'', rc_ParentID := ''t1_c1'', rc_Author := ''ann'',
           rc_Body := ''two  blanks''\<rparr>) ''0'' []],
      RMore (zero_more\<lparr>rm_Count := 2, rm_ParentID := ''t3_p1'', rm_Children := [''x'', ''y'']\<rparr>)]"

definition example_post :: json where
  "example_post = JObj [(''kind'', JStr ''t3''),
      (''data'', JObj [(''id'', JStr ''p1''), (''permalink'', JStr ''/r/a/comments/p1/'')])]"

definition example_thread :: json where
  "example_thread = JArr [listing_json [example_post], listing_json (map thing_json example_forest)]"

theorem ParseThread_forest_witness:
  "\<exists>t. ParseThread amd64 (Marshal example_thread) \<lparr>KeepDepth = False, KeepCreated = False, MaxRounds = 3, Format = ''toon''\<rparr> = Ok t \<and>
     map c_ID (th_Comments t) = [''c2''] \<and> map c_Body (th_Comments t) = [''two blanks''] \<and>
     map gap_Children (th_Gaps t) = [[''x'', ''y'']] \<and> post_ID (th_Post t) = ''p1''"
proof -
  let ?opts = "\<lparr>KeepDepth = False, KeepCreated = False, MaxRounds = 3, Format = ''toon''\<rparr>"
  let ?post = "zero_post\<lparr>rp_ID := ''p1'', rp_Permalink := ''/r/a/comments/p1/''\<rparr>"
  have "num_ok ''0''" by code_simp
  then have "wf_json maxNestingDepth example_thread"
    by (simp add: example_thread_def example_post_def example_forest_def listing_json_def
        replies_json_def zero_comment_def zero_more_def wf_json_eval)
  then have "json_parse (Marshal example_thread) = Some example_thread" by (rule json_parse_Marshal)
  then have parse: "json_parse (Marshal example_thread) =
      Some (JArr (listing_json (example_post # []) # listing_json (map thing_json example_forest) # []))"
    by (simp only: example_thread_def)
  have wf: "list_all wf_node example_forest"
    by (simp add: example_forest_def zero_comment_def zero_more_def in_int64_def min_int64_def
        max_int64_def zero_f64_def float_eval)
  have post: "dec_thing dec_post_data example_post ([], zero_post) = Some (''t3'', ?post)"
    by (simp add: example_post_def dec_thing_def dec_post_data_def find_field_def into_def)
  have "clampRuns (collapseRuns ''two  blanks'') = ''two blanks''"
    by (simp add: wspace_def hspace_def newline_def clamp_newlines_def)
  then have clean: "cleanBody ''two  blanks'' = ''two blanks''"
    by (simp add: cleanBody_eq TrimSpace_plain space_byte_def)
  obtain t where "ParseThread amd64 (Marshal example_thread) ?opts = Ok t"
    and "th_Comments t = concat (map (live_comments amd64 ?opts) example_forest)"
    and "th_Gaps t = concat (map open_gaps example_forest)"
    and "post_ID (th_Post t) = rp_ID ?post"
    using ParseThread_forest [OF parse _ post wf, of amd64 ?opts] by auto
  with clean show ?thesis
    by (auto simp: example_forest_def makeComment_def isRemovedComment_def makeGap_def zero_comment_def
        zero_more_def)
qed

text \<open>
  A morechildren response with a forest of comments and gaps yields exactly its live
  comments and its gaps in preorder.
\<close>

theorem ParseMoreChildren_forest:
  assumes "json_parse raw = Some (JObj [(''json'', JObj [(''errors'', JArr errs),
      (''data'', JObj [(''things'', JArr (map thing_json ns))])])])"
    and "list_all wf_node ns"
  shows "ParseMoreChildren P raw opts =
    Ok (concat (map (live_comments P opts) ns), concat (map open_gaps ns))"
proof -
  have "json_Unmarshal dec_more_response raw ([], []) = Some (errs, map thing_json ns)"
    by (simp add: json_Unmarshal_def assms(1) dec_more_response_def dec_things_def find_field_def into_def)
  with walk_listing [OF assms(2), of P opts] show ?thesis by (simp add: ParseMoreChildren_def)
qed

theorem ParseMoreChildren_forest_witness:
  "\<exists>cs. ParseMoreChildren amd64 (Marshal (JObj [(''json'', JObj [(''errors'', JArr []),
      (''data'', JObj [(''things'', JArr (map thing_json example_forest))])])]))
      \<lparr>KeepDepth = False, KeepCreated = False, MaxRounds = 3, Format = ''toon''\<rparr> = Ok cs \<and> map c_ID (fst cs) = [''c2'']"
proof -
  let ?j = "JObj [(''json'', JObj [(''errors'', JArr []),
      (''data'', JObj [(''things'', JArr (map thing_json example_forest))])])]"
  have "num_ok ''0''" by code_simp
  then have "wf_json maxNestingDepth ?j"
    by (simp add: example_forest_def listing_json_def replies_json_def zero_comment_def zero_more_def wf_json_eval)
  then have "json_parse (Marshal ?j) = Some ?j" by (rule json_parse_Marshal)
  moreover have "list_all wf_node example_forest"
    by (simp add: example_forest_def zero_comment_def zero_more_def in_int64_def min_int64_def
        max_int64_def zero_f64_def float_eval)
  ultimately show ?thesis
    using ParseMoreChildren_forest [of "Marshal ?j" "[]" example_forest amd64]
    by (simp add: example_forest_def makeComment_def isRemovedComment_def zero_comment_def)
qed

end
