(* ===== verification/Reddit_Merge.thy ===== *)
theory Reddit_Merge
  imports Reddit_Parser
begin

text \<open>
  Folding expanded comments into a thread: \<open>MergeExpanded\<close> of \<open>parser.go\<close> and the batch of
  child ids that one round of \<open>expandGaps\<close> (\<open>engine.go\<close>) asks for. The lemmas show what a
  batch holds, that no comment is lost or doubled, and that a merge removes every id the
  round asked for from the gaps it came from, so that the open ids go down.
\<close>

section \<open>Merging\<close>

fun add_unseen :: "string set \<Rightarrow> Comment list \<Rightarrow> Comment list" where
  \<comment> \<open>the comments appended to the thread, given the ids seen so far\<close>
  "add_unseen seen [] = []"
| "add_unseen seen (c # cs) =
     (if c_ID c \<in> seen then add_unseen seen cs
      else c # add_unseen (insert (c_ID c) seen) cs)"

definition strip_gap :: "string set \<Rightarrow> Gap \<Rightarrow> Gap" where
  "strip_gap fulfilled g =
     (let remaining = filter (\<lambda>c. c \<notin> fulfilled) (gap_Children g)
      in g\<lparr>gap_Children := remaining, gap_Count := int (length remaining)\<rparr>)"

fun strip_used :: "string set \<Rightarrow> nat list \<Rightarrow> Gap list \<Rightarrow> Gap list" where
  "strip_used fulfilled [] gs = gs"
| "strip_used fulfilled (i # is) gs =
     strip_used fulfilled is (if length gs \<le> i then gs else gs[i := strip_gap fulfilled (gs ! i)])"

definition keep_gap :: "Gap \<Rightarrow> bool" where
  "keep_gap g \<longleftrightarrow> \<not> (gap_Type g = ''more'' \<and> gap_Children g = [])"

definition MergeExpanded :: "Thread \<Rightarrow> Comment list \<Rightarrow> Gap list \<Rightarrow> string list \<Rightarrow> nat list \<Rightarrow> Thread" where
  "MergeExpanded th newC newG requestedIDs usedGapIdx = th\<lparr>
     th_Comments := th_Comments th @ add_unseen (set (map c_ID (th_Comments th))) newC,
     th_Gaps := filter keep_gap (strip_used (set requestedIDs) usedGapIdx (th_Gaps th)) @ newG\<rparr>"

section \<open>The batch of a round\<close>

definition maxBatch :: nat where "maxBatch = 100"

fun collect_batch :: "nat \<Rightarrow> Gap list \<Rightarrow> string list \<Rightarrow> nat list \<Rightarrow> string list \<times> nat list" where
  "collect_batch i [] batchIDs usedGapIdx = (batchIDs, usedGapIdx)"
| "collect_batch i (g # gs) batchIDs usedGapIdx =
     (if gap_Type g \<noteq> ''more'' \<or> gap_Children g = [] then collect_batch (Suc i) gs batchIDs usedGapIdx
      else
       (let batch' = batchIDs @ take (maxBatch - length batchIDs) (gap_Children g); used' = usedGapIdx @ [i]
        in if maxBatch \<le> length batch' then (batch', used')
           else collect_batch (Suc i) gs batch' used'))"

definition open_gap :: "Gap \<Rightarrow> bool" where
  "open_gap g \<longleftrightarrow> gap_Type g = ''more'' \<and> gap_Children g \<noteq> []"

definition open_ids :: "Gap list \<Rightarrow> string list" where
  \<comment> \<open>the child ids that are still to be fetched\<close>
  "open_ids gs = concat (map gap_Children (filter (\<lambda>g. gap_Type g = ''more'') gs))"

section \<open>Comments\<close>

lemma add_unseen_ids:
  "set (map c_ID (add_unseen seen cs)) = set (map c_ID cs) - seen"
  by (induction seen cs rule: add_unseen.induct) auto

lemma add_unseen_distinct: "distinct (map c_ID (add_unseen seen cs))"
  by (induction seen cs rule: add_unseen.induct)
     (use add_unseen_ids in fastforce)+

lemma add_unseen_subset: "set (add_unseen seen cs) \<subseteq> set cs"
  by (induction seen cs rule: add_unseen.induct) auto

section \<open>Gaps\<close>

lemma open_ids_simps [simp]:
  "open_ids [] = []"
  "open_ids (g # gs) = (if gap_Type g = ''more'' then gap_Children g else []) @ open_ids gs"
  "open_ids (gs @ gs') = open_ids gs @ open_ids gs'"
  by (simp_all add: open_ids_def)

lemma open_ids_keep [simp]: "open_ids (filter keep_gap gs) = open_ids gs"
  by (induction gs) (auto simp: keep_gap_def)

lemma collect_batch_ids:
  assumes "length b < maxBatch"
  shows "fst (collect_batch i gs b u) = take maxBatch (b @ open_ids gs)"
  using assms
proof (induction gs arbitrary: i b u)
  case (Cons g gs)
  show ?case
  proof (cases "gap_Type g \<noteq> ''more'' \<or> gap_Children g = []")
    case True
    with Cons show ?thesis by auto
  next
    case False
    let ?b = "b @ take (maxBatch - length b) (gap_Children g)"
    show ?thesis
    proof (cases "maxBatch \<le> length ?b")
      case True
      then have "maxBatch - length b \<le> length (gap_Children g)" using Cons.prems by (simp add: min_def split: if_splits)
      with True False Cons.prems show ?thesis by (simp add: Let_def)
    next
      case less: False
      then have "take (maxBatch - length b) (gap_Children g) = gap_Children g"
        by (simp add: min_def split: if_splits)
      with less False Cons show ?thesis by (simp add: Let_def)
    qed
  qed
qed simp

lemma collect_batch_bound: "length (fst (collect_batch 0 gs [] [])) \<le> maxBatch"
  by (simp add: collect_batch_ids maxBatch_def)

lemma length_strip_used [simp]: "length (strip_used F is gs) = length gs"
  by (induction F "is" gs rule: strip_used.induct) auto

lemma strip_used_append:
  "strip_used F (is @ js) gs = strip_used F js (strip_used F is gs)"
  by (induction F "is" gs rule: strip_used.induct) auto

lemma strip_gap_simps [simp]:
  "gap_Type (strip_gap F g) = gap_Type g"
  "gap_Children (strip_gap F g) = filter (\<lambda>c. c \<notin> F) (gap_Children g)"
  by (simp_all add: strip_gap_def Let_def)

lemma strip_used_shift:
  "strip_used F (map Suc is) (g # gs) = g # strip_used F is gs"
  by (induction F "is" gs arbitrary: g rule: strip_used.induct) auto

text \<open>Progress is measured by any weight of the ids; with weight one it is their number.\<close>

abbreviation weight :: "('a \<Rightarrow> nat) \<Rightarrow> 'a list \<Rightarrow> nat" where
  "weight f xs \<equiv> sum_list (map f xs)"

lemma weight_filter: "weight f (filter Q xs) \<le> weight f xs"
  by (induction xs) auto

lemma filter_out_taken:
  "set (take k xs) \<subseteq> F \<Longrightarrow> weight f (filter (\<lambda>c. c \<notin> F) xs) + weight f (take k xs) \<le> weight f xs"
proof -
  assume "set (take k xs) \<subseteq> F"
  then have "filter (\<lambda>c. c \<notin> F) (take k xs) = []" by (auto simp: filter_empty_conv)
  then have "filter (\<lambda>c. c \<notin> F) xs = filter (\<lambda>c. c \<notin> F) (drop k xs)"
    by (metis append_Nil append_take_drop_id filter_append)
  moreover have "weight f (filter (\<lambda>c. c \<notin> F) (drop k xs)) \<le> weight f (drop k xs)" by (rule weight_filter)
  moreover have "weight f xs = weight f (take k xs) + weight f (drop k xs)"
    by (metis append_take_drop_id map_append sum_list_append)
  ultimately show ?thesis by simp
qed

lemma collect_batch_progress:
  assumes "collect_batch i gs b u = (b', u')" "length b < maxBatch" "set b' \<subseteq> F"
  shows "\<exists>used. u' = u @ map ((+) i) used \<and> set b \<subseteq> F \<and>
    weight f (open_ids (strip_used F used gs)) + weight f b' \<le> weight f (open_ids gs) + weight f b"
  using assms
proof (induction gs arbitrary: i b u)
  case Nil
  then show ?case by (intro exI [of _ "[]"]) simp
next
  case (Cons g gs)
  have shift: "map ((+) (Suc i)) is = map ((+) i) (map Suc is)" for "is" by simp
  show ?case
  proof (cases "gap_Type g \<noteq> ''more'' \<or> gap_Children g = []")
    case True
    with Cons.prems have "collect_batch (Suc i) gs b u = (b', u')" by simp
    from Cons.IH [OF this Cons.prems(2,3)] obtain used where
      "u' = u @ map ((+) i) (map Suc used)" "set b \<subseteq> F"
      "weight f (open_ids (strip_used F used gs)) + weight f b' \<le> weight f (open_ids gs) + weight f b"
      unfolding shift by blast
    with True show ?thesis by (intro exI [of _ "map Suc used"]) (auto simp: strip_used_shift)
  next
    case False
    let ?t = "take (maxBatch - length b) (gap_Children g)"
    let ?b = "b @ ?t"
    show ?thesis
    proof (cases "maxBatch \<le> length ?b")
      case True
      with False Cons.prems have "b' = ?b" "u' = u @ [i]" by (simp_all add: Let_def)
      moreover from this Cons.prems(3) have "set ?t \<subseteq> F" "set b \<subseteq> F" by simp_all
      ultimately show ?thesis using False filter_out_taken [of "maxBatch - length b" "gap_Children g" F f]
        by (intro exI [of _ "[0]"]) simp
    next
      case less: False
      have "collect_batch (Suc i) gs ?b (u @ [i]) = (b', u')"
        using Cons.prems(1) by (simp only: collect_batch.simps Let_def if_not_P [OF False] if_not_P [OF less])
      moreover have "length ?b < maxBatch" using less by (simp only: not_le)
      ultimately obtain used where
        u: "u' = (u @ [i]) @ map ((+) i) (map Suc used)" "set ?b \<subseteq> F"
        "weight f (open_ids (strip_used F used gs)) + weight f b' \<le> weight f (open_ids gs) + weight f ?b"
        using Cons.IH [of "Suc i" ?b "u @ [i]"] Cons.prems(3) unfolding shift by blast
      then have "set ?t \<subseteq> F" by simp
      with u False filter_out_taken [of "maxBatch - length b" "gap_Children g" F f] show ?thesis
        by (intro exI [of _ "0 # map Suc used"]) (simp add: strip_used_shift)
    qed
  qed
qed

lemma merge_progress:
  assumes "collect_batch 0 (th_Gaps th) [] [] = (batch, used)"
  shows "weight f (open_ids (filter keep_gap (strip_used (set batch) used (th_Gaps th)))) + weight f batch
    \<le> weight f (open_ids (th_Gaps th))"
proof -
  have "map ((+) 0) us = us" for us :: "nat list" by (induction us) auto
  with collect_batch_progress [OF assms, of "set batch" f] show ?thesis
    by (auto simp: maxBatch_def)
qed

section \<open>Properties\<close>

text \<open>
  Merging keeps the thread's comments in place and appends new ones: the result has
  every comment id of both lists, and no id twice if there was none twice before.
\<close>

theorem MergeExpanded_comments:
  "\<exists>added. th_Comments (MergeExpanded th newC newG req used) = th_Comments th @ added \<and>
     set added \<subseteq> set newC \<and>
     set (map c_ID (th_Comments th @ added)) = set (map c_ID (th_Comments th)) \<union> set (map c_ID newC) \<and>
     distinct (map c_ID (th_Comments th @ added)) = distinct (map c_ID (th_Comments th))"
proof -
  let ?seen = "set (map c_ID (th_Comments th))"
  have "set (map c_ID (add_unseen ?seen newC)) = set (map c_ID newC) - ?seen" by (rule add_unseen_ids)
  then show ?thesis
    using add_unseen_distinct [of ?seen newC] add_unseen_subset [of ?seen newC]
    by (intro exI [of _ "add_unseen ?seen newC"]) (auto simp: MergeExpanded_def)
qed

text \<open>
  The batch of a round is the first hundred open child ids of the thread, in order.
\<close>

theorem collect_batch_first_100:
  "fst (collect_batch 0 gs [] []) = take 100 (open_ids gs)"
  using collect_batch_ids [of "[]" 0 gs "[]"] by (simp add: maxBatch_def)

text \<open>
  Every round makes progress: after merging the answer to a batch, the old gaps of the
  thread hold at least as many open ids fewer as the batch had, and the new gaps follow them.
\<close>

theorem MergeExpanded_progress:
  assumes "collect_batch 0 (th_Gaps th) [] [] = (batch, used)"
  shows "\<exists>kept. th_Gaps (MergeExpanded th newC newG batch used) = kept @ newG \<and>
    length (open_ids kept) + length batch \<le> length (open_ids (th_Gaps th)) \<and> list_all keep_gap kept"
  using merge_progress [OF assms, of "\<lambda>_. 1"]
  by (intro exI [of _ "filter keep_gap (strip_used (set batch) used (th_Gaps th))"])
     (simp add: MergeExpanded_def list_all_iff sum_list_triv)

definition example_gaps :: "Gap list" where
  "example_gaps =
     [\<lparr>gap_Type = ''continue'', gap_ParentID = ''p'', gap_Depth = 0, gap_Count = 0, gap_Children = []\<rparr>,
      \<lparr>gap_Type = ''more'', gap_ParentID = ''p'', gap_Depth = 0, gap_Count = 2, gap_Children = [''x'', ''y'']\<rparr>]"

definition example_open_thread :: Thread where
  "example_open_thread = \<lparr>th_Post = \<lparr>post_ID = ''p'', post_Title = [], post_Author = [], post_Subreddit = [],
       post_Score = 1, post_UpvoteRatio = zero_f64, post_NumComments = 2, post_Created = 0, post_URL = [],
       post_Selftext = [], post_Permalink = ''/r/a/comments/p/''\<rparr>,
     th_Comments = [], th_Gaps = example_gaps\<rparr>"

theorem MergeExpanded_progress_witness:
  "\<exists>kept. th_Gaps (MergeExpanded example_open_thread [] [] [''x'', ''y''] [1]) = kept @ [] \<and>
    length (open_ids kept) + 2 \<le> 2 \<and> list_all keep_gap kept"
proof -
  have "collect_batch 0 (th_Gaps example_open_thread) [] [] = ([''x'', ''y''], [1])"
    by (simp add: example_open_thread_def example_gaps_def maxBatch_def)
  from MergeExpanded_progress [OF this, of "[]" "[]"] show ?thesis
    by (simp add: example_open_thread_def example_gaps_def)
qed

end
