(* ===== verification/Limiter.thy ===== *)
theory Limiter
  imports Go_World Go_Url
begin

text \<open>
  \<open>internal/httpx/limiter.go\<close>. Callers see \<open>Acquire\<close> and the release function it returns
  (\<open>with_slot\<close> is the pattern acquire, defer release). The concurrent behaviour is a step
  relation over the goroutines that call \<open>Acquire\<close> and the per-host slots: a semaphore, and
  the time of the last release under a mutex. Time is in nanoseconds; the zero value of
  \<open>lastSend\<close>, for which \<open>time.Since\<close> saturates, is \<open>None\<close>.
\<close>

section \<open>The caller's view\<close>

definition slotFor :: "string \<Rightarrow> string res" where
  \<comment> \<open>the key of the slot; the error of url.Parse is dropped and its nil URL is dereferenced\<close>
  "slotFor rawURL = (case url_Parse rawURL of
       None \<Rightarrow> Panic ''nil pointer dereference''
     | Some u \<Rightarrow> Ok (Hostname u))"

definition Acquire :: "'w sys \<Rightarrow> string \<Rightarrow> 'w \<Rightarrow> string res \<times> 'w" where
  \<comment> \<open>the host whose slot the returned function releases\<close>
  "Acquire S rawURL w = (case slotFor rawURL of
       Ok h \<Rightarrow> (Ok h, sys_acquire S h w)
     | Fail e \<Rightarrow> (Fail e, w)
     | Panic m \<Rightarrow> (Panic m, w))"

definition with_slot :: "'w sys \<Rightarrow> string \<Rightarrow> ('w \<Rightarrow> 'a res \<times> 'w) \<Rightarrow> 'w \<Rightarrow> 'a res \<times> 'w" where
  \<comment> \<open>release := Acquire(rawURL); defer release(); body\<close>
  "with_slot S rawURL body w = andThen (Acquire S rawURL w) (\<lambda>h w1.
     case body w1 of (r, w2) \<Rightarrow> (r, sys_release S h w2))"

lemma slotFor_cases: "(\<exists>h. slotFor rawURL = Ok h) \<or> (\<exists>m. slotFor rawURL = Panic m)"
  by (cases "url_Parse rawURL") (simp_all add: slotFor_def)

lemma with_slot_result:
  "slotFor rawURL = Ok h \<Longrightarrow> fst (with_slot S rawURL body w) = fst (body (sys_acquire S h w))"
  by (simp add: with_slot_def Acquire_def split: prod.splits)

lemma with_slot_panic: "slotFor rawURL = Panic m \<Longrightarrow> with_slot S rawURL body w = (Panic m, w)"
  by (simp add: with_slot_def Acquire_def)

definition bracketed :: "(string \<Rightarrow> bool) \<Rightarrow> (event list \<Rightarrow> bool) \<Rightarrow> event list \<Rightarrow> bool" where
  \<comment> \<open>nothing, or an acquisition and the release of one of these hosts around the events of the body\<close>
  "bracketed host Q ls \<longleftrightarrow> ls = [] \<or> (\<exists>h es. host h \<and> ls = EvAcquire h # es @ [EvRelease h] \<and> Q es)"

lemma bracketed_weaken:
  "bracketed host Q ls \<Longrightarrow> (\<And>h. host h \<Longrightarrow> host' h) \<Longrightarrow> (\<And>es. Q es \<Longrightarrow> Q' es) \<Longrightarrow> bracketed host' Q' ls"
  by (auto simp: bracketed_def)

lemma with_slot_log:
  assumes "\<And>w l. emits Q (body (w, l)) l"
  shows "emits (bracketed (\<lambda>h. slotFor rawURL = Ok h) Q) (with_slot (logged S) rawURL body (w, l)) l"
proof (cases "slotFor rawURL")
  case (Ok h)
  obtain r w2 es where "body (sys_acquire S h w, l @ [EvAcquire h]) = (r, (w2, (l @ [EvAcquire h]) @ es))" "Q es"
    using assms [of "sys_acquire S h w" "l @ [EvAcquire h]"] unfolding emits_def
    by (metis prod.collapse)
  with Ok show ?thesis
    by (auto simp: with_slot_def Acquire_def emits_def bracketed_def)
qed (auto simp: with_slot_def Acquire_def emits_def bracketed_def)

section \<open>Slots and goroutines\<close>

text \<open>With a negative cap \<open>slotFor\<close> panics when it makes the channel, so no call gets any further.\<close>

datatype proc =
    Idle                       \<comment> \<open>not in Acquire\<close>
  | Waiting string             \<comment> \<open>blocked on the send to the semaphore of the host\<close>
  | Checking string            \<comment> \<open>holds a semaphore unit, about to read lastSend\<close>
  | Sleeping string int        \<comment> \<open>time.Sleep until the given time\<close>
  | Holding string             \<comment> \<open>Acquire has returned\<close>
  | Releasing string           \<comment> \<open>lastSend is set, about to receive from the semaphore\<close>

record lstate =
  now :: int
  sem :: "string \<Rightarrow> int"               \<comment> \<open>units taken\<close>
  lastSend :: "string \<Rightarrow> int option"
  procs :: "proc list"

definition sleep_time :: "int \<Rightarrow> int \<Rightarrow> int option \<Rightarrow> int \<Rightarrow> int option" where
  \<comment> \<open>how long Acquire sleeps at a time, None for not at all; j is rand.Intn(500)\<close>
  "sleep_time minDelay t prev j = (case prev of
       None \<Rightarrow> None
     | Some l \<Rightarrow> if t - l < minDelay then Some (minDelay - (t - l) + j * 1000000) else None)"

inductive lstep :: "int \<Rightarrow> int \<Rightarrow> lstate \<Rightarrow> lstate \<Rightarrow> bool" for cap minDelay where
  tick: "0 < d \<Longrightarrow> lstep cap minDelay s (s\<lparr>now := now s + d\<rparr>)"
| call: "p < length (procs s) \<Longrightarrow> procs s ! p = Idle \<Longrightarrow> 0 \<le> cap \<Longrightarrow>
    lstep cap minDelay s (s\<lparr>procs := (procs s)[p := Waiting h]\<rparr>)"
| enter: "p < length (procs s) \<Longrightarrow> procs s ! p = Waiting h \<Longrightarrow> sem s h < cap \<Longrightarrow>
    lstep cap minDelay s (s\<lparr>sem := (sem s)(h := sem s h + 1), procs := (procs s)[p := Checking h]\<rparr>)"
| sleep: "p < length (procs s) \<Longrightarrow> procs s ! p = Checking h \<Longrightarrow> 0 \<le> j \<Longrightarrow> j < 500 \<Longrightarrow>
    sleep_time minDelay (now s) (lastSend s h) j = Some d \<Longrightarrow>
    lstep cap minDelay s (s\<lparr>procs := (procs s)[p := Sleeping h (now s + d)]\<rparr>)"
| go: "p < length (procs s) \<Longrightarrow> procs s ! p = Checking h \<Longrightarrow>
    sleep_time minDelay (now s) (lastSend s h) 0 = None \<Longrightarrow>
    lstep cap minDelay s (s\<lparr>procs := (procs s)[p := Holding h]\<rparr>)"
| wake: "p < length (procs s) \<Longrightarrow> procs s ! p = Sleeping h t \<Longrightarrow> t \<le> now s \<Longrightarrow>
    lstep cap minDelay s (s\<lparr>procs := (procs s)[p := Holding h]\<rparr>)"
| release: "p < length (procs s) \<Longrightarrow> procs s ! p = Holding h \<Longrightarrow>
    lstep cap minDelay s (s\<lparr>lastSend := (lastSend s)(h := Some (now s)), procs := (procs s)[p := Releasing h]\<rparr>)"
| return: "p < length (procs s) \<Longrightarrow> procs s ! p = Releasing h \<Longrightarrow>
    lstep cap minDelay s (s\<lparr>sem := (sem s)(h := sem s h - 1), procs := (procs s)[p := Idle]\<rparr>)"

definition linit :: "nat \<Rightarrow> lstate" where
  "linit n = \<lparr>now = 0, sem = (\<lambda>_. 0), lastSend = (\<lambda>_. None), procs = replicate n Idle\<rparr>"

definition lreachable :: "int \<Rightarrow> int \<Rightarrow> nat \<Rightarrow> lstate \<Rightarrow> bool" where
  "lreachable cap minDelay n s \<longleftrightarrow> (lstep cap minDelay)\<^sup>*\<^sup>* (linit n) s"

fun holds_unit :: "string \<Rightarrow> proc \<Rightarrow> bool" where
  "holds_unit h (Checking h') \<longleftrightarrow> h' = h"
| "holds_unit h (Sleeping h' t) \<longleftrightarrow> h' = h"
| "holds_unit h (Holding h') \<longleftrightarrow> h' = h"
| "holds_unit h (Releasing h') \<longleftrightarrow> h' = h"
| "holds_unit h p \<longleftrightarrow> False"

abbreviation units :: "lstate \<Rightarrow> string \<Rightarrow> int" where
  "units s h \<equiv> int (length (filter (holds_unit h) (procs s)))"

definition sem_inv :: "int \<Rightarrow> string \<Rightarrow> lstate \<Rightarrow> bool" where
  "sem_inv cap h s \<longleftrightarrow> sem s h = units s h \<and> sem s h \<le> max 0 cap"

lemma filter_update_nat:
  "p < length xs \<Longrightarrow> length (filter P (xs[p := x])) + (if P (xs ! p) then 1 else 0) =
     length (filter P xs) + (if P x then 1 else 0)"
proof (induction xs arbitrary: p)
  case (Cons a xs)
  then show ?case by (cases p) (auto split: if_splits)
qed simp

lemma filter_update:
  "p < length xs \<Longrightarrow> int (length (filter P (xs[p := x]))) =
     int (length (filter P xs)) - (if P (xs ! p) then 1 else 0) + (if P x then 1 else 0)"
  using filter_update_nat [of p xs P x] by (simp split: if_splits)

lemma sem_inv_init: "sem_inv cap h (linit n)"
  by (simp add: sem_inv_def linit_def)

lemma sem_inv_step: "lstep cap minDelay s s' \<Longrightarrow> sem_inv cap h s \<Longrightarrow> sem_inv cap h s'"
  by (induction rule: lstep.induct) (auto simp: sem_inv_def filter_update)

lemma lreachable_invariant:
  assumes "lreachable cap minDelay n s" "I (linit n)"
    and "\<And>s s'. lstep cap minDelay s s' \<Longrightarrow> I s \<Longrightarrow> I s'"
  shows "I s"
  using assms(1) unfolding lreachable_def
  by (induction rule: rtranclp_induct) (auto intro: assms(2,3))

lemma lprocs_length:
  assumes "lreachable cap md n s"
  shows "length (procs s) = n"
proof (rule lreachable_invariant [OF assms])
  show "length (procs (linit n)) = n" by (simp add: linit_def)
next
  fix s s' assume "lstep cap md s s'" "length (procs s) = n"
  then show "length (procs s') = n" by cases simp_all
qed

lemma sem_inv_reachable: "lreachable cap minDelay n s \<Longrightarrow> sem_inv cap h s"
  by (erule lreachable_invariant) (auto intro: sem_inv_init sem_inv_step)

section \<open>Spacing with one unit\<close>

definition gap_inv :: "int \<Rightarrow> string \<Rightarrow> lstate \<Rightarrow> bool" where
  \<comment> \<open>a sleeper wakes, and a holder was let in, no earlier than the delay after the last release\<close>
  "gap_inv minDelay h s \<longleftrightarrow> (\<forall>p < length (procs s). \<forall>l. lastSend s h = Some l \<longrightarrow>
     (case procs s ! p of Sleeping h' t \<Rightarrow> h' = h \<longrightarrow> l + minDelay \<le> t
        | Holding h' \<Rightarrow> h' = h \<longrightarrow> l + minDelay \<le> now s | _ \<Rightarrow> True))"

lemma one_unit:
  assumes "sem_inv cap h s" "cap \<le> 1" "p < length (procs s)" "q < length (procs s)"
    and "holds_unit h (procs s ! p)" "holds_unit h (procs s ! q)"
  shows "p = q"
proof (rule ccontr)
  assume "p \<noteq> q"
  have "{p, q} \<subseteq> {i. i < length (procs s) \<and> holds_unit h (procs s ! i)}" using assms by auto
  then have "card {p, q} \<le> length (filter (holds_unit h) (procs s))"
    unfolding length_filter_conv_card by (intro card_mono) auto
  with \<open>p \<noteq> q\<close> have "2 \<le> length (filter (holds_unit h) (procs s))" by simp
  with assms(1,2) show False by (auto simp: sem_inv_def)
qed

lemma gap_inv_update:
  assumes "gap_inv md h s" "lastSend s' h = lastSend s h" "now s \<le> now s'" "procs s' = (procs s)[p := x]"
    and "\<And>l. lastSend s h = Some l \<Longrightarrow>
      (case x of Sleeping h' t \<Rightarrow> h' = h \<longrightarrow> l + md \<le> t | Holding h' \<Rightarrow> h' = h \<longrightarrow> l + md \<le> now s' | _ \<Rightarrow> True)"
  shows "gap_inv md h s'"
  unfolding gap_inv_def
proof (intro allI impI)
  fix q l assume q: "q < length (procs s')" and l: "lastSend s' h = Some l"
  have old: "case procs s ! q of Sleeping h' t \<Rightarrow> h' = h \<longrightarrow> l + md \<le> t
      | Holding h' \<Rightarrow> h' = h \<longrightarrow> l + md \<le> now s | _ \<Rightarrow> True"
    using assms(1,2,4) q l by (simp add: gap_inv_def)
  show "case procs s' ! q of Sleeping h' t \<Rightarrow> h' = h \<longrightarrow> l + md \<le> t
      | Holding h' \<Rightarrow> h' = h \<longrightarrow> l + md \<le> now s' | _ \<Rightarrow> True"
  proof (cases "q = p \<and> p < length (procs s)")
    case True
    with assms(2,4,5) l show ?thesis by simp
  next
    case False
    then have "procs s' ! q = procs s ! q" using assms(4) q by (auto simp: nth_list_update)
    with old assms(3) show ?thesis by (auto split: proc.splits)
  qed
qed

lemma gap_inv_step:
  assumes "lstep cap md s s'" "sem_inv cap h s" "cap \<le> 1" "gap_inv md h s"
  shows "gap_inv md h s'"
  using assms
proof (cases rule: lstep.cases)
  case (tick d)
  with assms(4) show ?thesis by (intro gap_inv_update [of md h s s' "length (procs s)" Idle]) (auto simp: list_update_beyond)
next
  case (sleep p h' j d)
  with assms(4) show ?thesis
    by (intro gap_inv_update [of md h s s' p]) (auto simp: sleep_time_def split: if_splits)
next
  case (go p h')
  with assms(4) show ?thesis
    by (intro gap_inv_update [of md h s s' p]) (auto simp: sleep_time_def split: if_splits)
next
  case (wake p h' t)
  have "lastSend s h = Some l \<Longrightarrow> h' = h \<Longrightarrow> l + md \<le> t" for l
    using assms(4) wake unfolding gap_inv_def by (auto dest!: spec [of _ p])
  with wake assms(4) show ?thesis
    by (intro gap_inv_update [of md h s s' p]) (auto dest: order_trans)
next
  case (release p h')
  show ?thesis
  proof (cases "h' = h")
    case True
    have only: "q = p" if "q < length (procs s)" "holds_unit h (procs s ! q)" for q
      using one_unit [OF assms(2,3)] that release True by auto
    show ?thesis
      unfolding gap_inv_def
    proof (intro allI impI)
      fix q l assume q: "q < length (procs s')" "lastSend s' h = Some l"
      show "case procs s' ! q of Sleeping h' t \<Rightarrow> h' = h \<longrightarrow> l + md \<le> t
        | Holding h' \<Rightarrow> h' = h \<longrightarrow> l + md \<le> now s' | _ \<Rightarrow> True"
        using only [of q] q release by (cases "q = p") (auto split: proc.splits)
    qed
  next
    case False
    with release assms(4) show ?thesis by (intro gap_inv_update [of md h s s' p]) auto
  qed
next
  case (call p h')
  with assms(4) show ?thesis by (intro gap_inv_update [of md h s s' p]) auto
next
  case (enter p h')
  with assms(4) show ?thesis by (intro gap_inv_update [of md h s s' p]) auto
next
  case (return p h')
  with assms(4) show ?thesis by (intro gap_inv_update [of md h s s' p]) auto
qed

lemma gap_inv_init: "gap_inv md h (linit n)"
  by (simp add: gap_inv_def linit_def)

lemma spacing_reachable:
  assumes "lreachable cap md n s" "cap \<le> 1"
  shows "gap_inv md h s"
proof -
  have "sem_inv cap h s \<and> gap_inv md h s"
    using assms(1)
    by (rule lreachable_invariant)
       (auto intro: sem_inv_init gap_inv_init sem_inv_step gap_inv_step [OF _ _ assms(2)])
  then show ?thesis ..
qed

section \<open>A waiting goroutine can always get its slot\<close>

abbreviation lsteps :: "int \<Rightarrow> int \<Rightarrow> lstate \<Rightarrow> lstate \<Rightarrow> bool" where
  "lsteps cap md \<equiv> (lstep cap md)\<^sup>*\<^sup>*"

lemma sleeping_to_holding:
  assumes "p < length (procs s)" "procs s ! p = Sleeping h t"
  shows "\<exists>s'. lsteps cap md s s' \<and> procs s' = (procs s)[p := Holding h] \<and> sem s' = sem s"
proof -
  let ?s1 = "s\<lparr>now := now s + max 1 (t - now s)\<rparr>"
  have 1: "lstep cap md s ?s1" by (rule tick) simp
  have 2: "lstep cap md ?s1 (?s1\<lparr>procs := (procs ?s1)[p := Holding h]\<rparr>)"
    by (rule wake [where t = t]) (use assms in auto)
  from 1 2 have "lsteps cap md s (?s1\<lparr>procs := (procs ?s1)[p := Holding h]\<rparr>)"
    by (meson r_into_rtranclp rtranclp.rtrancl_into_rtrancl)
  then show ?thesis by (intro exI [of _ "?s1\<lparr>procs := (procs ?s1)[p := Holding h]\<rparr>"]) simp
qed

lemma checking_to_holding:
  assumes "p < length (procs s)" "procs s ! p = Checking h"
  shows "\<exists>s'. lsteps cap md s s' \<and> procs s' = (procs s)[p := Holding h] \<and> sem s' = sem s"
proof (cases "sleep_time md (now s) (lastSend s h) 0")
  case None
  from go [OF assms None] show ?thesis by (intro exI conjI, rule r_into_rtranclp) auto
next
  case (Some d)
  let ?s1 = "s\<lparr>procs := (procs s)[p := Sleeping h (now s + d)]\<rparr>"
  have "lstep cap md s ?s1" using sleep [OF assms _ _ Some] by simp
  moreover obtain s' where "lsteps cap md ?s1 s'" "procs s' = (procs ?s1)[p := Holding h]" "sem s' = sem ?s1"
    using sleeping_to_holding [of p ?s1 h "now s + d" cap md] assms(1) by auto
  ultimately show ?thesis by (intro exI [of _ s']) (auto intro: converse_rtranclp_into_rtranclp)
qed

lemma unit_to_idle:
  assumes "p < length (procs s)" "holds_unit h (procs s ! p)"
  shows "\<exists>s'. lsteps cap md s s' \<and> procs s' = (procs s)[p := Idle] \<and> sem s' = (sem s)(h := sem s h - 1)"
proof -
  have ret: "\<exists>s'. lsteps cap md u s' \<and> procs s' = (procs u)[p := Idle] \<and> sem s' = (sem u)(h := sem u h - 1)"
    if "p < length (procs u)" "procs u ! p = Releasing h" for u
    using lstep.return [OF that] by (intro exI conjI, rule r_into_rtranclp) auto
  have hold: "\<exists>s'. lsteps cap md u s' \<and> procs s' = (procs u)[p := Idle] \<and> sem s' = (sem u)(h := sem u h - 1)"
    if u: "p < length (procs u)" "procs u ! p = Holding h" for u
  proof -
    let ?u1 = "u\<lparr>lastSend := (lastSend u)(h := Some (now u)), procs := (procs u)[p := Releasing h]\<rparr>"
    have "lstep cap md u ?u1" using release [OF u] .
    moreover obtain s' where "lsteps cap md ?u1 s'" "procs s' = (procs ?u1)[p := Idle]" "sem s' = (sem ?u1)(h := sem ?u1 h - 1)"
      using ret [of ?u1] u by auto
    ultimately show ?thesis by (intro exI [of _ s']) (auto intro: converse_rtranclp_into_rtranclp)
  qed
  have via: ?thesis if "lsteps cap md s u" "procs u = (procs s)[p := Holding h]" "sem u = sem s" for u
    using hold [of u] that assms(1) by (auto intro: rtranclp_trans)
  from assms(2) consider "procs s ! p = Checking h" | t where "procs s ! p = Sleeping h t"
    | "procs s ! p = Holding h" | "procs s ! p = Releasing h"
    by (cases "procs s ! p") auto
  then show ?thesis
  proof cases
    case 1
    from checking_to_holding [OF assms(1) this, of cap md] via show ?thesis by blast
  next
    case 2
    from sleeping_to_holding [OF assms(1) this, of cap md] via show ?thesis by blast
  next
    case 3
    from hold [OF assms(1) this] show ?thesis .
  next
    case 4
    from ret [OF assms(1) this] show ?thesis .
  qed
qed

lemma waiting_to_holding:
  assumes "p < length (procs s)" "procs s ! p = Waiting h" "sem s h < cap"
  shows "\<exists>s'. lsteps cap md s s' \<and> procs s' = (procs s)[p := Holding h]"
proof -
  let ?s1 = "s\<lparr>sem := (sem s)(h := sem s h + 1), procs := (procs s)[p := Checking h]\<rparr>"
  have "lstep cap md s ?s1" using enter [OF assms] .
  moreover obtain s' where "lsteps cap md ?s1 s'" "procs s' = (procs ?s1)[p := Holding h]"
    using checking_to_holding [of p ?s1 h cap md] assms(1) by auto
  ultimately show ?thesis by (intro exI [of _ s']) (auto intro: converse_rtranclp_into_rtranclp)
qed

lemma waiting_served:
  assumes "sem_inv cap h s" "1 \<le> cap" "p < length (procs s)" "procs s ! p = Waiting h"
  shows "\<exists>s'. lsteps cap md s s' \<and> procs s' ! p = Holding h"
proof (cases "sem s h < cap")
  case True
  from waiting_to_holding [OF assms(3,4) this, of md] assms(3) show ?thesis by auto
next
  case False
  then have "filter (holds_unit h) (procs s) \<noteq> []" using assms(1,2) by (auto simp: sem_inv_def)
  then obtain q where q: "q < length (procs s)" "holds_unit h (procs s ! q)"
    by (auto simp: filter_empty_conv in_set_conv_nth)
  from unit_to_idle [OF this, of cap md] obtain u where
    u: "lsteps cap md s u" "procs u = (procs s)[q := Idle]" "sem u = (sem s)(h := sem s h - 1)" by blast
  have "p \<noteq> q" using assms(4) q(2) by auto
  moreover have "sem u h < cap" using u(3) assms(1,2) by (auto simp: sem_inv_def)
  ultimately obtain s' where "lsteps cap md u s'" "procs s' = (procs u)[p := Holding h]"
    using waiting_to_holding [of p u h cap md] u assms(3,4) by auto
  with u assms(3) show ?thesis by (auto intro: rtranclp_trans)
qed

section \<open>Properties\<close>

text \<open>
  C27: In every reachable state of the limiter, for every interleaving of any number of
  goroutines, at most \<open>maxConcurrent\<close> of them are between the semaphore send and receive of a
  host, and the semaphore counts exactly those; with a cap of 0 or less none ever gets in.
\<close>

theorem limiter_cap:
  assumes "lreachable cap minDelay n s"
  shows "sem s h = units s h \<and> units s h \<le> max 0 cap"
  using sem_inv_reachable [OF assms, of h] by (simp add: sem_inv_def)

theorem limiter_cap_witness:
  "units (linit 3) ''a'' \<le> max 0 2"
  using limiter_cap [of 2 0 3 "linit 3" "''a''"] by (simp add: lreachable_def)

text \<open>
  With a cap of one, whoever holds the slot of a host was let in at least the minimum
  delay after the last release of that slot.
\<close>

theorem limiter_spacing:
  assumes "lreachable 1 minDelay n s" "p < length (procs s)" "procs s ! p = Holding h"
    and "lastSend s h = Some l"
  shows "l + minDelay \<le> now s"
proof -
  have "gap_inv minDelay h s" using assms(1) by (rule spacing_reachable) simp
  with assms show ?thesis unfolding gap_inv_def by (auto dest!: spec [of _ p])
qed

text \<open>A goroutine that passes once and, seven units later, is let in again.\<close>

lemma reach_step: "lreachable cap md n s \<Longrightarrow> lstep cap md s s' \<Longrightarrow> lreachable cap md n s'"
  by (simp add: lreachable_def)

lemma holding_reachable:
  "\<exists>s. lreachable 1 5 1 s \<and> procs s = [Holding h] \<and> lastSend s h = Some 0 \<and> now s = 7"
proof -
  let ?a = "linit 1"
  let ?b = "?a\<lparr>procs := [Waiting h]\<rparr>"
  let ?c = "?b\<lparr>sem := (sem ?b)(h := sem ?b h + 1), procs := [Checking h]\<rparr>"
  let ?d = "?c\<lparr>procs := [Holding h]\<rparr>"
  let ?e = "?d\<lparr>lastSend := (lastSend ?d)(h := Some (now ?d)), procs := [Releasing h]\<rparr>"
  let ?f = "?e\<lparr>sem := (sem ?e)(h := sem ?e h - 1), procs := [Idle]\<rparr>"
  let ?g = "?f\<lparr>now := now ?f + 7\<rparr>"
  let ?b' = "?g\<lparr>procs := [Waiting h]\<rparr>"
  let ?c' = "?b'\<lparr>sem := (sem ?b')(h := sem ?b' h + 1), procs := [Checking h]\<rparr>"
  let ?d' = "?c'\<lparr>procs := [Holding h]\<rparr>"
  have s0: "lreachable 1 5 1 ?a" by (simp add: lreachable_def)
  have s1: "lstep 1 5 ?a ?b" using call [of 0 ?a 1 5 h] by (simp add: linit_def)
  have s2: "lstep 1 5 ?b ?c" using enter [of 0 ?b h 1 5] by (simp add: linit_def)
  have s3: "lstep 1 5 ?c ?d" using go [of 0 ?c h 5 1] by (simp add: linit_def sleep_time_def)
  have s4: "lstep 1 5 ?d ?e" using release [of 0 ?d h 1 5] by (simp add: linit_def)
  have s5: "lstep 1 5 ?e ?f" using lstep.return [of 0 ?e h 1 5] by (simp add: linit_def)
  have s6: "lstep 1 5 ?f ?g" by (rule tick) simp
  have s7: "lstep 1 5 ?g ?b'" using call [of 0 ?g 1 5 h] by (simp add: linit_def)
  have s8: "lstep 1 5 ?b' ?c'" using enter [of 0 ?b' h 1 5] by (simp add: linit_def)
  have s9: "lstep 1 5 ?c' ?d'" using go [of 0 ?c' h 5 1] by (simp add: linit_def sleep_time_def)
  have "lreachable 1 5 1 ?d'" by (rule reach_step [OF reach_step [OF reach_step [OF reach_step [OF reach_step [OF reach_step [OF reach_step [OF reach_step [OF reach_step [OF s0 s1] s2] s3] s4] s5] s6] s7] s8] s9])
  then show ?thesis by (intro exI [of _ ?d']) (simp add: linit_def)
qed

theorem limiter_spacing_witness:
  "\<exists>s :: lstate. procs s ! 0 = Holding ''a'' \<and> lastSend s ''a'' = Some 0 \<and> 0 + 5 \<le> now s"
proof -
  obtain s where s: "lreachable 1 5 1 s" "procs s = [Holding ''a'']" "lastSend s ''a'' = Some 0"
    using holding_reachable [of "''a''"] by blast
  with limiter_spacing [OF s(1), of 0 "''a''" 0] show ?thesis by (intro exI [of _ s]) simp
qed

text \<open>
  The limiter does not starve by construction: with a positive cap, from every reachable
  state in which a goroutine waits for a host there is a continuation in which it holds it.
\<close>

theorem limiter_no_deadlock:
  assumes "lreachable cap minDelay n s" "1 \<le> cap"
    and "p < length (procs s)" "procs s ! p = Waiting h"
  shows "\<exists>s'. (lstep cap minDelay)\<^sup>*\<^sup>* s s' \<and> procs s' ! p = Holding h"
  using sem_inv_reachable [OF assms(1)] assms(2-4) by (rule waiting_served)

theorem limiter_no_deadlock_witness:
  "\<exists>s'. (lstep 1 5)\<^sup>*\<^sup>* ((linit 1)\<lparr>procs := [Waiting ''a'']\<rparr>) s' \<and> procs s' ! 0 = Holding ''a''"
proof (rule limiter_no_deadlock)
  have "lstep 1 5 (linit 1) ((linit 1)\<lparr>procs := [Waiting ''a'']\<rparr>)"
    using call [of 0 "linit 1" 1 5 "''a''"] by (simp add: linit_def)
  then show "lreachable 1 5 1 ((linit 1)\<lparr>procs := [Waiting ''a'']\<rparr>)"
    by (simp add: lreachable_def)
qed (simp_all add: linit_def)

text \<open>
  With a cap of two the delay is not kept between requests that overlap: two goroutines
  hold the slots of one host at the same moment, whatever the minimum delay is, because the
  time of the last request is only recorded when a request ends.
\<close>

theorem limiter_overlap:
  "\<exists>s. lreachable 2 minDelay 2 s \<and> now s = 0 \<and> procs s = [Holding h, Holding h]"
proof -
  let ?a = "linit 2"
  let ?b = "?a\<lparr>procs := [Waiting h, Idle]\<rparr>"
  let ?c = "?b\<lparr>sem := (sem ?b)(h := sem ?b h + 1), procs := [Checking h, Idle]\<rparr>"
  let ?d = "?c\<lparr>procs := [Holding h, Idle]\<rparr>"
  let ?e = "?d\<lparr>procs := [Holding h, Waiting h]\<rparr>"
  let ?f = "?e\<lparr>sem := (sem ?e)(h := sem ?e h + 1), procs := [Holding h, Checking h]\<rparr>"
  let ?g = "?f\<lparr>procs := [Holding h, Holding h]\<rparr>"
  have two: "procs ?a = [Idle, Idle]" by (simp add: linit_def numeral_2_eq_2)
  have s0: "lreachable 2 minDelay 2 ?a" by (simp add: lreachable_def)
  have s1: "lstep 2 minDelay ?a ?b" using call [of 0 ?a 2 minDelay h] two by simp
  have s2: "lstep 2 minDelay ?b ?c" using enter [of 0 ?b h 2 minDelay] by (simp add: linit_def)
  have s3: "lstep 2 minDelay ?c ?d" using go [of 0 ?c h minDelay 2] by (simp add: linit_def sleep_time_def)
  have s4: "lstep 2 minDelay ?d ?e" using call [of 1 ?d 2 minDelay h] by simp
  have s5: "lstep 2 minDelay ?e ?f" using enter [of 1 ?e h 2 minDelay] by (simp add: linit_def)
  have s6: "lstep 2 minDelay ?f ?g" using go [of 1 ?f h minDelay 2] by (simp add: linit_def sleep_time_def)
  have "lreachable 2 minDelay 2 ?g" by (rule reach_step [OF reach_step [OF reach_step [OF reach_step [OF reach_step [OF reach_step [OF s0 s1] s2] s3] s4] s5] s6])
  then show ?thesis by (intro exI [of _ ?g]) (simp add: linit_def)
qed

end
