(* ===== verification/Reddit_Engine.thy ===== *)
theory Reddit_Engine
  imports Reddit_Fetcher Reddit_Merge Limiter
begin

text \<open>
  \<open>internal/engine/reddit/engine.go\<close>: options, the bounded expansion of collapsed branches,
  encoding and the whole \<open>Crawl\<close>. The TOON encoder is a third-party package: a parameter.
  The engine's fields are the crawl4ai address of its fetcher, the timeout and the default
  options; the limiter and the HTTP client are operations of the environment.
\<close>

section \<open>Options\<close>

definition MaxExpansionRounds :: int where
  "MaxExpansionRounds = 40"

record Engine =
  re_crawl4aiURL :: string
  re_timeout :: int
  re_defaultOpts :: Options

definition NewEngine :: "string \<Rightarrow> int \<Rightarrow> Options \<Rightarrow> Engine" where
  "NewEngine crawl4aiURL timeout opts =
     \<lparr>re_crawl4aiURL = crawl4aiURL, re_timeout = (if timeout = 0 then 4 * 60 * second else timeout),
      re_defaultOpts = opts\<rparr>"

definition resolveOptions :: "Engine \<Rightarrow> EngineOptions \<Rightarrow> Options" where
  "resolveOptions E eo =
     (let opts0 = re_defaultOpts E;
          opts1 = (if RedditFormat eo = ''toon'' \<or> RedditFormat eo = ''json''
                   then opts0\<lparr>Format := RedditFormat eo\<rparr> else opts0);
          opts2 = (if RedditKeepDepth eo then opts1\<lparr>KeepDepth := True\<rparr> else opts1);
          opts3 = (if RedditKeepCreated eo then opts2\<lparr>KeepCreated := True\<rparr> else opts2);
          opts4 = (if 0 < RedditMaxRounds eo
                   then (if MaxExpansionRounds < RedditMaxRounds eo
                         then opts3\<lparr>MaxRounds := MaxExpansionRounds\<rparr>
                         else opts3\<lparr>MaxRounds := RedditMaxRounds eo\<rparr>)
                   else opts3);
          opts5 = (if MaxRounds opts4 = 0 then opts4\<lparr>MaxRounds := 3\<rparr> else opts4)
      in if Format opts5 = [] then opts5\<lparr>Format := ''toon''\<rparr> else opts5)"

definition OptionsFromQuery :: "(string \<Rightarrow> string) \<Rightarrow> Options \<Rightarrow> Options" where
  \<comment> \<open>q gives the first value of a query parameter, empty when absent (url.Values.Get)\<close>
  "OptionsFromQuery q opts0 =
     (let opts1 = (if q ''format'' = ''json'' \<or> q ''format'' = ''toon'' then opts0\<lparr>Format := q ''format''\<rparr> else opts0);
          opts2 = (if q ''depth'' = ''1'' then opts1\<lparr>KeepDepth := True\<rparr> else opts1);
          opts3 = (if q ''nocreated'' = ''1'' then opts2\<lparr>KeepCreated := False\<rparr> else opts2);
          ex = q ''expand''
      in if ex = [] then opts3
         else if ex \<in> {''full'', ''all'', ''max''} then opts3\<lparr>MaxRounds := MaxExpansionRounds\<rparr>
         else (case Atoi ex of
             Some n \<Rightarrow> if 0 \<le> n then opts3\<lparr>MaxRounds := min n MaxExpansionRounds\<rparr> else opts3
           | None \<Rightarrow> opts3))"

section \<open>Expansion\<close>

fun expand_loop :: "'w sys \<Rightarrow> platform \<Rightarrow> string \<Rightarrow> ctx \<Rightarrow> Options \<Rightarrow> string \<Rightarrow> nat \<Rightarrow> int \<Rightarrow> int \<Rightarrow> Thread
    \<Rightarrow> 'w \<Rightarrow> (Thread \<times> int) res \<times> 'w" where
  \<comment> \<open>iterations left, round, rounds performed\<close>
  "expand_loop S P url c opts linkID 0 round rounds th w = (Ok (th, rounds), w)"
| "expand_loop S P url c opts linkID (Suc n) round rounds th w =
     (case collect_batch 0 (th_Gaps th) [] [] of (batchIDs, usedGapIdx) \<Rightarrow>
        if batchIDs = [] then (Ok (th, rounds), w)
        else (case FetchMoreChildren S P url c linkID batchIDs w of
            (Fail err, w1) \<Rightarrow> (Ok (th, rounds), w1)
          | (Panic m, w1) \<Rightarrow> (Panic m, w1)
          | (Ok moreJSON, w1) \<Rightarrow>
             (case ParseMoreChildren P moreJSON opts of
                Fail perr \<Rightarrow> (Ok (th, rounds), w1)
              | Panic m \<Rightarrow> (Panic m, w1)
              | Ok (newComments, newGaps) \<Rightarrow>
                 (let th' = MergeExpanded th newComments newGaps batchIDs usedGapIdx
                  in if newComments = [] \<and> newGaps = [] then (Ok (th', round + 1), w1)
                     else expand_loop S P url c opts linkID n (round + 1) (round + 1) th' w1))))"

definition expandGaps :: "'w sys \<Rightarrow> platform \<Rightarrow> string \<Rightarrow> ctx \<Rightarrow> Thread \<Rightarrow> Options \<Rightarrow> 'w \<Rightarrow> (Thread \<times> int) res \<times> 'w" where
  \<comment> \<open>the expanded thread and the rounds performed\<close>
  "expandGaps S P url c th opts w =
     expand_loop S P url c opts (kindPostPrefix @ post_ID (th_Post th)) (nat (MaxRounds opts)) 0 0 th w"

section \<open>Encoding\<close>

definition omit_empty :: "string \<Rightarrow> string \<Rightarrow> (string \<times> json) list" where
  "omit_empty name s = (if s = [] then [] else [(name, JStr s)])"

definition json_int :: "int \<Rightarrow> json" where "json_int n = JNum (Itoa n)"

definition opt_int :: "string \<Rightarrow> int option \<Rightarrow> (string \<times> json) list" where
  "opt_int name v = (case v of None \<Rightarrow> [] | Some n \<Rightarrow> [(name, json_int n)])"

definition post_json :: "Post \<Rightarrow> json" where
  "post_json p = JObj
     ([(''id'', JStr (post_ID p)), (''title'', JStr (post_Title p)), (''author'', JStr (post_Author p)),
       (''subreddit'', JStr (post_Subreddit p)), (''score'', json_int (post_Score p)),
       (''upvote_ratio'', JNum (format_f64 (post_UpvoteRatio p))), (''num_comments'', json_int (post_NumComments p)),
       (''created'', json_int (post_Created p)), (''url'', JStr (post_URL p))] @
      omit_empty ''selftext'' (post_Selftext p) @ [(''permalink'', JStr (post_Permalink p))])"

definition comment_json :: "Comment \<Rightarrow> json" where
  "comment_json c = JObj
     ([(''id'', JStr (c_ID c)), (''parent_id'', JStr (c_ParentID c)), (''author'', JStr (c_Author c)),
       (''score'', json_int (c_Score c)), (''body'', JStr (c_Body c))] @
      opt_int ''depth'' (c_Depth c) @ opt_int ''created'' (c_Created c))"

definition gap_json :: "Gap \<Rightarrow> json" where
  "gap_json g = JObj
     ([(''type'', JStr (gap_Type g)), (''parent_id'', JStr (gap_ParentID g)), (''depth'', json_int (gap_Depth g))] @
      (if gap_Count g = 0 then [] else [(''count'', json_int (gap_Count g))]) @
      (if gap_Children g = [] then [] else [(''children'', JArr (map JStr (gap_Children g)))]))"

definition thread_json :: "Thread \<Rightarrow> json" where
  \<comment> \<open>a thread without comments has a nil slice, which is written as null\<close>
  "thread_json t = JObj
     ([(''post'', post_json (th_Post t)),
       (''comments'', if th_Comments t = [] then JNull else JArr (map comment_json (th_Comments t)))] @
      (if th_Gaps t = [] then [] else [(''gaps'', JArr (map gap_json (th_Gaps t)))]))"

type_synonym toon = "Thread \<Rightarrow> go_error + string"   \<comment> \<open>toon.Marshal(thread, WithLengthMarkers(true))\<close>

definition encode :: "toon \<Rightarrow> Thread \<Rightarrow> string \<Rightarrow> string res" where
  "encode toon th fmt =
     (if fmt = ''json'' then Ok (Marshal (thread_json th))
      else case toon th of Inl e \<Rightarrow> Fail e | Inr s \<Rightarrow> Ok s)"

section \<open>Crawl\<close>

definition drop_children :: "Gap \<Rightarrow> Gap" where
  "drop_children g = (if gap_Type g = ''more'' then g\<lparr>gap_Children := []\<rparr> else g)"

definition crawl_document :: "toon \<Rightarrow> Options \<Rightarrow> Thread \<Rightarrow> Document res" where
  \<comment> \<open>from the expanded thread to the document\<close>
  "crawl_document toon opts th0 =
     (let th = th0\<lparr>th_Gaps := map drop_children (th_Gaps th0)\<rparr>
      in case wrap_err ''encode'' (encode toon th (Format opts)) of
           Fail e \<Rightarrow> Fail e
         | Panic m \<Rightarrow> Panic m
         | Ok encoded \<Rightarrow> Ok \<lparr>PageContent = encoded, Metadata =
             [''source'' \<mapsto> ''https://www.reddit.com'' @ post_Permalink (th_Post th),
              ''status_code'' \<mapsto> ''200'', ''format'' \<mapsto> Format opts,
              ''comments'' \<mapsto> Itoa (int (length (th_Comments th))),
              ''gaps'' \<mapsto> Itoa (int (length (th_Gaps th))),
              ''total_comments'' \<mapsto> Itoa (post_NumComments (th_Post th))]\<rparr>)"

definition crawl_thread :: "'w sys \<Rightarrow> platform \<Rightarrow> toon \<Rightarrow> string \<Rightarrow> ctx \<Rightarrow> Options \<Rightarrow> string \<Rightarrow> 'w \<Rightarrow> Document res \<times> 'w" where
  \<comment> \<open>the part that holds the limiter's slot\<close>
  "crawl_thread S P toon url c opts permalink w =
     andThen (apfst (wrap_err ''fetch thread'') (FetchThread S P url c permalink w)) (\<lambda>threadJSON w1.
     andThen (wrap_err ''parse thread'' (ParseThread P threadJSON opts), w1) (\<lambda>th w2.
     andThen (expandGaps S P url c th opts w2) (\<lambda>(th', rounds) w3.
       (crawl_document toon opts th', w3))))"

definition canonical_url :: "'w sys \<Rightarrow> string \<Rightarrow> ctx \<Rightarrow> string \<Rightarrow> 'w \<Rightarrow> string res \<times> 'w" where
  \<comment> \<open>share links are resolved in the browser\<close>
  "canonical_url S url c rawURL w =
     (if IsShareURL rawURL
      then apfst (wrap_err ''resolve share url'') (ResolveShareURL S url c rawURL w)
      else (Ok rawURL, w))"

definition Crawl :: "'w sys \<Rightarrow> platform \<Rightarrow> toon \<Rightarrow> Engine \<Rightarrow> ctx \<Rightarrow> string \<Rightarrow> EngineOptions \<Rightarrow> 'w \<Rightarrow> Document res \<times> 'w" where
  "Crawl S P toon E ctx rawURL eo w =
     (let opts = resolveOptions E eo;
          url = re_crawl4aiURL E;
          c = WithTimeout ctx (re_timeout E)
      in andThen (canonical_url S url c rawURL w) (\<lambda>rawURL' w1.
         andThen (wrap_err ''normalize url'' (NormalizePermalink rawURL'), w1) (\<lambda>permalink w2.
           with_slot S (''https://reddit.com'' @ permalink) (crawl_thread S P toon url c opts permalink) w2)))"

section \<open>The fetches never panic\<close>

definition no_panic :: "'a res \<Rightarrow> bool" where
  "no_panic r \<longleftrightarrow> (\<forall>m. r \<noteq> Panic m)"

lemma no_panic_simps [simp]:
  "no_panic (Ok x)" "no_panic (Fail e)" "\<not> no_panic (Panic m)" "no_panic (wrap_err p r) = no_panic r"
  by (cases r; simp add: no_panic_def)+

lemma no_panic_andThen:
  "no_panic (fst r) \<Longrightarrow> (\<And>x. fst r = Ok x \<Longrightarrow> no_panic (fst (k x (snd r)))) \<Longrightarrow> no_panic (fst (andThen r k))"
  by (cases r; cases "fst r") auto

lemma DoRetry_once:
  "(\<exists>e. fst (DoRetry S c m u b h (no_config\<lparr>MaxAttempts := 1\<rparr>) w) = Fail e) \<or>
   (\<exists>resp. fst (DoRetry S c m u b h (no_config\<lparr>MaxAttempts := 1\<rparr>) w) = Ok (Some resp))"
proof -
  have "nat (MaxAttempts (retry_defaults (no_config\<lparr>MaxAttempts := 1\<rparr>))) = Suc 0"
    by (simp add: retry_defaults_def)
  then show ?thesis
    unfolding DoRetry_def Let_def
    by (auto simp: try_once_def split: sum.splits prod.splits if_splits)
qed

lemma exec_result_no_panic: "no_panic (exec_result resp)"
  by (simp add: exec_result_def js_result_def read_all_limit_def Let_def split: option.splits)

lemma browserExec_no_panic: "no_panic (fst (browserExec S url c nav js sid jo w))"
proof (cases "url = []")
  case False
  let ?d = "DoRetry S c ''POST'' url (Some (Marshal (exec_request nav js sid jo)))
    [(''Content-Type'', ''application/json'')] (no_config\<lparr>MaxAttempts := 1\<rparr>) w"
  obtain r w1 where d: "?d = (r, w1)" by (rule prod.exhaust)
  with DoRetry_once [of S c "''POST''" url "Some (Marshal (exec_request nav js sid jo))"
      "[(''Content-Type'', ''application/json'')]" w]
  consider e where "r = Fail e" | resp where "r = Ok (Some resp)" by auto
  then show ?thesis using False d exec_result_no_panic by cases (simp_all add: browserExec_def)
qed (simp add: browserExec_def)

lemma browserFetch_no_panic: "no_panic (fst (browserFetch S P url c nav js sid jo w))"
  unfolding browserFetch_def
  by (rule no_panic_andThen [OF browserExec_no_panic])
     (simp add: fetch_result_def split: option.splits)

lemma fetches_no_panic:
  "no_panic (fst (FetchThread S P url c permalink w))"
  "no_panic (fst (FetchMoreChildren S P url c linkID ids w))"
  "no_panic (fst (ResolveShareURL S url c share w))"
  by (simp_all add: FetchThread_def FetchMoreChildren_def ResolveShareURL_def Let_def
      browserFetch_no_panic no_panic_andThen [OF browserExec_no_panic])

lemma ParseMoreChildren_no_panic: "no_panic (ParseMoreChildren P raw opts)"
  by (simp add: ParseMoreChildren_def split: option.splits)

lemma ParseThread_no_panic: "no_panic (ParseThread P raw opts)"
  by (simp add: ParseThread_def Let_def case_prod_unfold split: option.splits)

lemma crawl_document_no_panic: "no_panic (crawl_document toon opts th)"
  by (simp add: crawl_document_def encode_def Let_def split: sum.splits)

section \<open>Expansion\<close>

definition keeps_comments :: "Thread \<Rightarrow> Thread \<Rightarrow> bool" where
  \<comment> \<open>the comments are kept in place, and distinct ids stay distinct\<close>
  "keeps_comments th th' \<longleftrightarrow> th_Post th' = th_Post th \<and>
     (\<exists>added. th_Comments th' = th_Comments th @ added) \<and>
     (distinct (map c_ID (th_Comments th)) \<longrightarrow> distinct (map c_ID (th_Comments th')))"

lemma keeps_refl [simp]: "keeps_comments th th"
  by (simp add: keeps_comments_def)

lemma keeps_trans: "keeps_comments a b \<Longrightarrow> keeps_comments b c \<Longrightarrow> keeps_comments a c"
  unfolding keeps_comments_def by (metis append.assoc)

lemma keeps_merge: "keeps_comments th (MergeExpanded th nc ng req used)"
  using add_unseen_distinct add_unseen_ids [of "set (map c_ID (th_Comments th))" nc]
  by (auto simp: keeps_comments_def MergeExpanded_def)

lemma expand_loop_result:
  "\<exists>th' r. fst (expand_loop S P url c opts link n round rounds th w) = Ok (th', r) \<and>
     keeps_comments th th' \<and> (r = rounds \<or> (round < r \<and> r \<le> round + int n))"
proof (induction n arbitrary: round rounds th w)
  case (Suc n)
  obtain batch used where b: "collect_batch 0 (th_Gaps th) [] [] = (batch, used)" by fastforce
  obtain r w1 where f: "FetchMoreChildren S P url c link batch w = (r, w1)" by fastforce
  have np: "no_panic r" using fetches_no_panic(2) [of S P url c link batch w] f by simp
  show ?case
  proof (cases "batch = []")
    case False
    show ?thesis
    proof (cases r)
      case (Ok json)
      show ?thesis
      proof (cases "ParseMoreChildren P json opts")
        case parsed: (Ok cg)
        obtain nc ng where cg: "cg = (nc, ng)" by (cases cg)
        let ?th = "MergeExpanded th nc ng batch used"
        show ?thesis
        proof (cases "nc = [] \<and> ng = []")
          case True
          with b f Ok parsed cg False keeps_merge [of th nc ng batch used] show ?thesis by simp
        next
          case more: False
          obtain th' r' where rec: "fst (expand_loop S P url c opts link n (round + 1) (round + 1) ?th w1) = Ok (th', r')"
            "keeps_comments ?th th'" "r' = round + 1 \<or> (round + 1 < r' \<and> r' \<le> round + 1 + int n)"
            using Suc.IH by blast
          have "fst (expand_loop S P url c opts link (Suc n) round rounds th w) = Ok (th', r')"
            using b f Ok parsed cg False more rec(1) by (auto simp: Let_def)
          moreover have "keeps_comments th th'" using keeps_merge rec(2) by (rule keeps_trans)
          ultimately show ?thesis using rec(3) by auto
        qed
      next
        case (Panic m)
        with ParseMoreChildren_no_panic [of P json opts] show ?thesis by simp
      qed (use b f Ok False in simp)
    qed (use b f np False in simp_all)
  qed (use b in simp)
qed simp

lemma expandGaps_result:
  "\<exists>th' r. fst (expandGaps S P url c th opts w) = Ok (th', r) \<and> keeps_comments th th' \<and>
     0 \<le> r \<and> r \<le> max 0 (MaxRounds opts)"
proof -
  obtain th' r where "fst (expandGaps S P url c th opts w) = Ok (th', r)" "keeps_comments th th'"
    "r = 0 \<or> (0 < r \<and> r \<le> 0 + int (nat (MaxRounds opts)))"
    using expand_loop_result [of S P url c opts "kindPostPrefix @ post_ID (th_Post th)" "nat (MaxRounds opts)" 0 0 th w]
    unfolding expandGaps_def by blast
  then show ?thesis by (intro exI [of _ th'] exI [of _ r]) (auto simp: max_def)
qed

section \<open>Requests\<close>

definition posts_to :: "string \<Rightarrow> nat \<Rightarrow> event list \<Rightarrow> bool" where
  \<comment> \<open>at most n events, all of them HTTP POSTs to the one address\<close>
  "posts_to url n ls \<longleftrightarrow> length ls \<le> n \<and>
     list_all (\<lambda>e. case e of EvHttp c q \<Rightarrow> req_method q = ''POST'' \<and> req_url q = url | _ \<Rightarrow> False) ls"

lemma posts_to_append: "posts_to url n a \<Longrightarrow> posts_to url m b \<Longrightarrow> posts_to url (n + m) (a @ b)"
  by (simp add: posts_to_def)

lemma posts_to_mono: "posts_to url n a \<Longrightarrow> n \<le> m \<Longrightarrow> posts_to url m a"
  by (simp add: posts_to_def)

lemma posts_to_Nil [simp]: "posts_to url n []"
  by (simp add: posts_to_def)

lemma at_most_once_posts: "at_most_once (exec_http c url body) ls \<Longrightarrow> posts_to url 1 ls"
  by (auto simp: at_most_once_def posts_to_def exec_http_def)

lemma fetch_posts:
  "emits (posts_to url 1) (FetchThread (logged S) P url c permalink (w, l)) l"
  "emits (posts_to url 1) (FetchMoreChildren (logged S) P url c link ids (w, l)) l"
  "emits (posts_to url 1) (ResolveShareURL (logged S) url c share (w, l)) l"
proof -
  have fetch: "emits (posts_to url 1) (browserFetch (logged S) P url c nav js sid jo (w, l)) l" for nav js sid jo
    using browserFetch_log at_most_once_posts by (rule emits_weaken)
  have exec: "emits (posts_to url 1) (browserExec (logged S) url c nav js sid jo (w, l)) l" for nav js sid jo
    using browserExec_log at_most_once_posts by (rule emits_weaken)
  show "emits (posts_to url 1) (FetchThread (logged S) P url c permalink (w, l)) l"
    "emits (posts_to url 1) (FetchMoreChildren (logged S) P url c link ids (w, l)) l"
    by (simp_all only: FetchThread_def FetchMoreChildren_def Let_def fetch)
  show "emits (posts_to url 1) (ResolveShareURL (logged S) url c share (w, l)) l"
    unfolding ResolveShareURL_def
    by (rule emits_andThen [OF exec, where R = "\<lambda>ls. ls = []"]) (simp_all add: emits_nothing)
qed

lemma expand_loop_posts:
  "emits (posts_to url n) (expand_loop (logged S) P url c opts link n round rounds th (w, l)) l"
proof (induction n arbitrary: round rounds th w l)
  case (Suc n)
  obtain batch used where b: "collect_batch 0 (th_Gaps th) [] [] = (batch, used)" by fastforce
  obtain r w1 ls where f: "FetchMoreChildren (logged S) P url c link batch (w, l) = (r, (w1, l @ ls))"
    and ls: "posts_to url 1 ls"
    using fetch_posts(2) [of url S P c link batch w l] unfolding emits_def by (metis prod.collapse)
  have one: "posts_to url (Suc n) ls" using ls by (rule posts_to_mono) simp
  show ?case
  proof (cases "batch = []")
    case False
    show ?thesis
    proof (cases r)
      case (Ok json)
      show ?thesis
      proof (cases "ParseMoreChildren P json opts")
        case parsed: (Ok cg)
        obtain nc ng where cg: "cg = (nc, ng)" by (cases cg)
        let ?e = "expand_loop (logged S) P url c opts link n (round + 1) (round + 1)
          (MergeExpanded th nc ng batch used) (w1, l @ ls)"
        obtain ls' where "snd (snd ?e) = (l @ ls) @ ls'" "posts_to url n ls'"
          using Suc.IH unfolding emits_def by blast
        moreover have "posts_to url (Suc n) (ls @ ls')"
          using posts_to_append [OF ls \<open>posts_to url n ls'\<close>] by simp
        ultimately show ?thesis
          using b f Ok parsed cg False one by (auto simp: emits_def Let_def)
      qed (use b f Ok False one in \<open>auto simp: emits_def\<close>)
    qed (use b f False one in \<open>auto simp: emits_def\<close>)
  qed (use b in \<open>auto simp: emits_def\<close>)
qed (simp add: emits_nothing)

section \<open>The whole crawl\<close>

lemma crawl_thread_no_panic: "no_panic (fst (crawl_thread S P toon url c opts permalink w))"
proof -
  have "no_panic (fst (expandGaps S P url c th opts w2))" for th w2
    using expandGaps_result [of S P url c th opts w2] by auto
  then show ?thesis
    unfolding crawl_thread_def
    by (intro no_panic_andThen)
       (simp_all add: fetches_no_panic ParseThread_no_panic crawl_document_no_panic case_prod_unfold)
qed

lemma emits_apfst: "emits Q r l \<Longrightarrow> emits Q (apfst f r) l"
  by (simp add: emits_def)

lemma crawl_thread_posts:
  "emits (posts_to url (1 + nat (MaxRounds opts))) (crawl_thread (logged S) P toon url c opts permalink (w, l)) l"
  unfolding crawl_thread_def
proof (rule emits_andThen [OF emits_apfst [OF fetch_posts(1)], where R = "posts_to url (nat (MaxRounds opts))"])
  fix json w1 l1
  show "emits (posts_to url (nat (MaxRounds opts)))
     (andThen (wrap_err ''parse thread'' (ParseThread P json opts), (w1, l1)) (\<lambda>th w2.
        andThen (expandGaps (logged S) P url c th opts w2) (\<lambda>(th', rounds) w3. (crawl_document toon opts th', w3)))) l1"
  proof (rule emits_andThen [where Q = "\<lambda>ls. ls = []" and R = "posts_to url (nat (MaxRounds opts))"])
    fix th w2 l2
    show "emits (posts_to url (nat (MaxRounds opts)))
       (andThen (expandGaps (logged S) P url c th opts (w2, l2)) (\<lambda>(th', rounds) w3. (crawl_document toon opts th', w3))) l2"
      unfolding expandGaps_def
      by (rule emits_andThen [OF expand_loop_posts, where R = "\<lambda>ls. ls = []"])
         (auto simp: emits_nothing split: prod.splits)
  qed (simp_all add: emits_nothing)
next
  fix a b assume "posts_to url 1 a" "posts_to url (nat (MaxRounds opts)) b"
  then show "posts_to url (1 + nat (MaxRounds opts)) (a @ b)" by (rule posts_to_append)
next
  fix a assume "posts_to url 1 a"
  then show "posts_to url (1 + nat (MaxRounds opts)) a" by (rule posts_to_mono) simp
qed

definition share_posts :: "string \<Rightarrow> nat" where
  \<comment> \<open>how many requests the resolution of an address may take\<close>
  "share_posts rawURL = (if IsShareURL rawURL then 1 else 0)"

lemma canonical_url_posts: "emits (posts_to url (share_posts rawURL)) (canonical_url (logged S) url c rawURL (w, l)) l"
  unfolding canonical_url_def share_posts_def
  by (cases "IsShareURL rawURL") (simp_all only: if_True if_False emits_apfst fetch_posts emits_nothing posts_to_Nil)

definition crawl_trace :: "string \<Rightarrow> nat \<Rightarrow> nat \<Rightarrow> event list \<Rightarrow> bool" where
  \<comment> \<open>at most k POSTs to resolve a share link, then at most n POSTs inside one acquisition and
     release of the slot of reddit.com\<close>
  "crawl_trace url k n ls \<longleftrightarrow>
     (\<exists>a b. ls = a @ b \<and> posts_to url k a \<and> bracketed ((=) ''reddit.com'') (posts_to url n) b)"

text \<open>The slot of a thread is that of reddit.com, whatever the permalink.\<close>

lemma cut_at_fst: "fst (cut_at s d) = takeWhile (\<lambda>c. c \<noteq> d) s"
proof (cases "d \<in> set s")
  case False
  then have "takeWhile (\<lambda>c. c \<noteq> d) s = s" unfolding takeWhile_eq_all_conv by blast
  with False show ?thesis by (simp only: cut_at_def if_False fst_conv)
qed (simp add: cut_at_def)

lemma parse_reddit_com:
  assumes "parse_nofrag (''https://reddit.com/'' @ a) = Some u"
  shows "Host u = ''reddit.com''"
proof -
  obtain b query found where query: "cut_at (''//reddit.com/'' @ a) CHR ''?'' = (''//reddit.com/'' @ b, query, found)"
    using cut_at_fst [of "''//reddit.com/'' @ a" "CHR ''?''"] by (cases "cut_at (''//reddit.com/'' @ a) CHR ''?''") simp
  have "getScheme (''https://reddit.com/'' @ a) = Some (''https'', ''//reddit.com/'' @ a)"
    by (simp add: getScheme_def is_lower_def is_upper_def is_digit_def)
  moreover have "ascii_lower ''https'' = ''https''" "parseAuthority ''reddit.com'' = Some ''reddit.com''" by code_simp+
  ultimately show ?thesis
    using assms query by (auto simp: parse_nofrag_def parse_rest_def has_prefix_def split: if_splits)
qed

lemma reddit_slot:
  assumes "has_prefix p ''/''" "slotFor (''https://reddit.com'' @ p) = Ok h"
  shows "h = ''reddit.com''"
proof -
  obtain q where p: "p = CHR ''/'' # q" using assms(1) by (auto simp: has_prefix_iff)
  have "fst (cut_at (''https://reddit.com'' @ p) CHR ''#'') = ''https://reddit.com/'' @ takeWhile (\<lambda>c. c \<noteq> CHR ''#'') q"
    by (simp add: cut_at_fst p)
  then obtain u where "parse_nofrag (''https://reddit.com/'' @ takeWhile (\<lambda>c. c \<noteq> CHR ''#'') q) = Some u" "h = Hostname u"
    using assms(2) by (auto simp: slotFor_def url_Parse_def split: option.splits prod.splits if_splits)
  with parse_reddit_com show ?thesis by (simp add: Hostname_def cut_last_def has_prefix_def)
qed

lemma permalink_slot:
  assumes "NormalizePermalink u = Ok p" "slotFor (''https://reddit.com'' @ p) = Ok h"
  shows "h = ''reddit.com''"
proof -
  have "canonical_permalink p"
    using assms(1) FindSubmatch_permalink by (auto simp: NormalizePermalink_def split: option.splits)
  then have "has_prefix p ''/''" by (auto simp: canonical_permalink_def has_prefix_def)
  from reddit_slot [OF this assms(2)] show ?thesis .
qed

lemma Crawl_trace:
  "emits (crawl_trace (re_crawl4aiURL E) (share_posts rawURL) (1 + nat (MaxRounds (resolveOptions E eo))))
     (Crawl (logged S) P toon E ctx rawURL eo (w, l)) l"
proof -
  let ?url = "re_crawl4aiURL E" and ?n = "1 + nat (MaxRounds (resolveOptions E eo))"
  let ?b = "bracketed ((=) ''reddit.com'') (posts_to ?url ?n)"
  have slot: "emits ?b (with_slot (logged S) (''https://reddit.com'' @ permalink)
      (crawl_thread (logged S) P toon ?url c (resolveOptions E eo) permalink) (w, l)) l"
    if "NormalizePermalink u = Ok permalink" for u c permalink w l
    by (rule emits_weaken [OF with_slot_log [OF crawl_thread_posts]], erule bracketed_weaken)
       (rule permalink_slot [OF that, symmetric], assumption)
  have none: "?b []" by (simp add: bracketed_def)
  show ?thesis
    unfolding Crawl_def Let_def
  proof (rule emits_andThen [OF canonical_url_posts, where R = ?b])
    fix raw' w1 l1
    show "emits ?b (andThen (wrap_err ''normalize url'' (NormalizePermalink raw'), (w1, l1))
        (\<lambda>permalink. with_slot (logged S) (''https://reddit.com'' @ permalink)
           (crawl_thread (logged S) P toon ?url (WithTimeout ctx (re_timeout E)) (resolveOptions E eo) permalink))) l1"
    proof (rule emits_andThen [where Q = "\<lambda>ls. ls = []" and R = ?b])
      fix permalink w2 l2
      assume "fst (wrap_err ''normalize url'' (NormalizePermalink raw'), (w1, l1)) = Ok permalink"
      then have "NormalizePermalink raw' = Ok permalink" by simp
      then show "emits ?b (with_slot (logged S) (''https://reddit.com'' @ permalink)
        (crawl_thread (logged S) P toon ?url (WithTimeout ctx (re_timeout E)) (resolveOptions E eo) permalink) (w2, l2)) l2"
        by (rule slot)
    qed (simp_all add: emits_nothing bracketed_def)
  next
    fix a b assume "posts_to ?url (share_posts rawURL) a" "?b b"
    then show "crawl_trace ?url (share_posts rawURL) ?n (a @ b)" unfolding crawl_trace_def by blast
  next
    fix a assume "posts_to ?url (share_posts rawURL) a"
    then show "crawl_trace ?url (share_posts rawURL) ?n a" unfolding crawl_trace_def using none by (metis append_Nil2)
  qed
qed

lemma canonical_url_no_panic: "no_panic (fst (canonical_url S url c rawURL w))"
  by (simp add: canonical_url_def fetches_no_panic)

lemma NormalizePermalink_no_panic: "no_panic (NormalizePermalink u)"
  by (simp add: NormalizePermalink_def split: option.splits)

lemma Crawl_panic_cause:
  assumes "fst (Crawl S P toon E ctx rawURL eo w) = Panic m"
  shows "\<exists>u p. NormalizePermalink u = Ok p \<and> url_Parse (''https://reddit.com'' @ p) = None"
proof (rule ccontr)
  assume none: "\<not> ?thesis"
  have "no_panic (fst (Crawl S P toon E ctx rawURL eo w))"
    unfolding Crawl_def Let_def
  proof (intro no_panic_andThen)
    fix u p
    assume "fst (wrap_err ''normalize url'' (NormalizePermalink u),
        snd (canonical_url S (re_crawl4aiURL E) (WithTimeout ctx (re_timeout E)) rawURL w)) = Ok p"
    then have pk: "NormalizePermalink u = Ok p" by (cases "NormalizePermalink u") simp_all
    have "url_Parse (''https://reddit.com'' @ p) \<noteq> None"
    proof
      assume "url_Parse (''https://reddit.com'' @ p) = None"
      with pk have "\<exists>u p. NormalizePermalink u = Ok p \<and> url_Parse (''https://reddit.com'' @ p) = None"
        by (intro exI conjI)
      with none show False by (rule notE)
    qed
    then obtain x where "url_Parse (''https://reddit.com'' @ p) = Some x" by (cases "url_Parse (''https://reddit.com'' @ p)") simp_all
    then show "no_panic (fst (with_slot S (''https://reddit.com'' @ p)
        (crawl_thread S P toon (re_crawl4aiURL E) (WithTimeout ctx (re_timeout E)) (resolveOptions E eo) p)
        (snd (wrap_err ''normalize url'' (NormalizePermalink u),
           snd (canonical_url S (re_crawl4aiURL E) (WithTimeout ctx (re_timeout E)) rawURL w)))))"
      by (simp add: with_slot_result slotFor_def crawl_thread_no_panic)
  qed (simp_all add: canonical_url_no_panic NormalizePermalink_no_panic)
  with assms show False by simp
qed

lemma crawl_document_metadata:
  assumes "crawl_document toon opts th = Ok doc"
  shows "Metadata doc ''source'' = Some (''https://www.reddit.com'' @ post_Permalink (th_Post th)) \<and>
    Metadata doc ''status_code'' = Some ''200'' \<and> Metadata doc ''format'' = Some (Format opts) \<and>
    Metadata doc ''comments'' = Some (Itoa (int (length (th_Comments th))))"
  using assms by (auto simp: crawl_document_def Let_def split: res.splits)

lemma with_slot_Ok:
  "fst (with_slot S u body w) = Ok d \<Longrightarrow> \<exists>h. slotFor u = Ok h \<and> fst (body (sys_acquire S h w)) = Ok d"
  using slotFor_cases [of u] by (auto simp: with_slot_result with_slot_panic)

lemma crawl_thread_Ok:
  assumes "fst (crawl_thread S P toon url c opts permalink w) = Ok doc"
  shows "\<exists>th. crawl_document toon opts th = Ok doc"
  using assms unfolding crawl_thread_def andThen_Ok by (auto split: prod.splits)

lemma Crawl_Ok:
  assumes "fst (Crawl S P toon E ctx rawURL eo w) = Ok doc"
  shows "\<exists>th. crawl_document toon (resolveOptions E eo) th = Ok doc"
proof -
  let ?body = "\<lambda>permalink. crawl_thread S P toon (re_crawl4aiURL E) (WithTimeout ctx (re_timeout E))
    (resolveOptions E eo) permalink"
  from assms obtain permalink w2 where
    slot: "fst (with_slot S (''https://reddit.com'' @ permalink) (?body permalink) w2) = Ok doc"
    unfolding Crawl_def Let_def andThen_Ok by blast
  from with_slot_Ok [OF this] obtain h where "fst (?body permalink (sys_acquire S h w2)) = Ok doc"
    by blast
  then show ?thesis by (rule crawl_thread_Ok)
qed


section \<open>Properties\<close>

text \<open>
  Which options a crawl runs with: a positive round count of the request is used up to
  the hard cap of 40, otherwise the default holds as it is configured (3 when it is 0), above
  the cap too; a request can switch creation times on and never off; a format other than toon
  and json falls back to the default format.
\<close>

theorem resolveOptions_values:
  "MaxRounds (resolveOptions E eo) =
     (if 0 < RedditMaxRounds eo then min (RedditMaxRounds eo) 40
      else if MaxRounds (re_defaultOpts E) = 0 then 3 else MaxRounds (re_defaultOpts E)) \<and>
   KeepCreated (resolveOptions E eo) = (KeepCreated (re_defaultOpts E) \<or> RedditKeepCreated eo) \<and>
   KeepDepth (resolveOptions E eo) = (KeepDepth (re_defaultOpts E) \<or> RedditKeepDepth eo) \<and>
   Format (resolveOptions E eo) =
     (if RedditFormat eo \<in> {''toon'', ''json''} then RedditFormat eo
      else if Format (re_defaultOpts E) = [] then ''toon'' else Format (re_defaultOpts E))"
  by (intro conjI) (auto simp: resolveOptions_def Let_def MaxExpansionRounds_def)

text \<open>
  C17: Expansion always ends with a thread, whatever the upstream answers: it performs at
  most \<open>MaxRounds\<close> rounds, keeps the post and every comment already there in place, and adds
  no comment id twice.
\<close>

theorem expandGaps_total:
  "\<exists>th' rounds. fst (expandGaps S P url c th opts w) = Ok (th', rounds) \<and> keeps_comments th th' \<and>
     0 \<le> rounds \<and> rounds \<le> max 0 (MaxRounds opts)"
  by (rule expandGaps_result)

text \<open>
  C16: The traffic of one crawl: for a share link at most one POST that resolves it, for any other
  address none; then, inside exactly one acquisition and release of the slot of reddit.com, at most
  one POST more than the rounds allowed.  All of them go to the configured crawl4ai address, and
  there is no other call.
\<close>

theorem Crawl_traffic:
  "emits (crawl_trace (re_crawl4aiURL E) (share_posts rawURL) (1 + nat (MaxRounds (resolveOptions E eo))))
     (Crawl (logged S) P toon E ctx rawURL eo (w, l)) l"
  by (rule Crawl_trace)

text \<open>
  The one way a Reddit crawl can panic: the permalink cannot be parsed again as part of
  an address when the limiter looks up its slot.
\<close>

theorem Crawl_panics_only_in_limiter:
  assumes "fst (Crawl S P toon E ctx rawURL eo w) = Panic m"
  shows "\<exists>u p. NormalizePermalink u = Ok p \<and> url_Parse (''https://reddit.com'' @ p) = None"
  using assms by (rule Crawl_panic_cause)

lemma percent_permalink:
  "IsShareURL ''https://www.reddit.com/r/a%25zz/comments/abc'' = False"
  "NormalizePermalink ''https://www.reddit.com/r/a%25zz/comments/abc'' = Ok ''/r/a%zz/comments/abc''"
  "slotFor (''https://reddit.com'' @ ''/r/a%zz/comments/abc'') = Panic ''nil pointer dereference''"
  by code_simp+

lemma Crawl_percent:
  "fst (Crawl S P toon E ctx ''https://www.reddit.com/r/a%25zz/comments/abc'' eo w) = Panic ''nil pointer dereference''"
  by (simp only: Crawl_def Let_def canonical_url_def percent_permalink if_False andThen.simps wrap_err.simps
      with_slot_panic fst_conv)

theorem Crawl_panics_only_in_limiter_witness:
  "\<exists>u p. NormalizePermalink u = Ok p \<and> url_Parse (''https://reddit.com'' @ p) = None"
  by (rule Crawl_panics_only_in_limiter [of "steady (reply 200 [])" amd64 "\<lambda>_. Inr []"
        "NewEngine ''http://c/'' 0 \<lparr>KeepDepth = False, KeepCreated = True, MaxRounds = 3, Format = ''toon''\<rparr>"
        RequestCtx _ "\<lparr>RedditKeepDepth = False, RedditKeepCreated = False, RedditMaxRounds = 0, RedditFormat = []\<rparr>" "()",
        OF Crawl_percent])

text \<open>
  And it does: an escaped percent sign in the subreddit of an otherwise ordinary thread
  address makes every crawl of it panic with a nil dereference, before any request is sent.
\<close>

theorem Crawl_percent_panics:
  "Crawl S P toon E ctx ''https://www.reddit.com/r/a%25zz/comments/abc'' eo w = (Panic ''nil pointer dereference'', w)"
  by (simp only: Crawl_def Let_def canonical_url_def percent_permalink if_False andThen.simps wrap_err.simps
      with_slot_panic)

text \<open>
  A document that comes out of a crawl carries the metadata its callers rely on: the
  address of the thread, status 200, the format it is encoded in and the number of comments,
  and its content is the encoding of that thread with the ids of its gaps removed.
\<close>

theorem Crawl_document:
  assumes "fst (Crawl S P toon E ctx rawURL eo w) = Ok doc"
  shows "\<exists>th. let th' = th\<lparr>th_Gaps := map drop_children (th_Gaps th)\<rparr> in
    encode toon th' (Format (resolveOptions E eo)) = Ok (PageContent doc) \<and>
    open_ids (th_Gaps th') = [] \<and>
    Metadata doc ''source'' = Some (''https://www.reddit.com'' @ post_Permalink (th_Post th')) \<and>
    Metadata doc ''status_code'' = Some ''200'' \<and>
    Metadata doc ''format'' = Some (Format (resolveOptions E eo)) \<and>
    Metadata doc ''comments'' = Some (Itoa (int (length (th_Comments th'))))"
proof -
  obtain th where th: "crawl_document toon (resolveOptions E eo) th = Ok doc"
    using Crawl_Ok [OF assms] by blast
  let ?th = "th\<lparr>th_Gaps := map drop_children (th_Gaps th)\<rparr>"
  have "open_ids (map drop_children gs) = []" for gs
    by (induction gs) (auto simp: drop_children_def)
  moreover have "encode toon ?th (Format (resolveOptions E eo)) = Ok (PageContent doc)"
    using th by (auto simp: crawl_document_def Let_def split: res.splits)
  ultimately show ?thesis
    using crawl_document_metadata [OF th] unfolding Let_def by (intro exI [of _ th]) simp
qed

end
