(* ===== verification/Crawl4ai_Engine.thy ===== *)
theory Crawl4ai_Engine
  imports Reddit_Engine
begin

text \<open>
  \<open>internal/engine/crawl4ai/engine.go\<close>: the fallback engine.  A URL goes to crawl4ai's
  \<open>/crawl\<close> endpoint while the slot of its host is held, and the answer becomes a document or a
  classified failure.  The client and the limiter of the Go struct are the environment \<open>S\<close>.
\<close>

section \<open>The request and the response\<close>

record Crawl4aiEngine =
  ce_endpoint :: string

definition crawl_request :: "string \<Rightarrow> json" where
  \<comment> \<open>the encoder writes the members of a map in the order of their names\<close>
  "crawl_request rawURL = JObj
     [(''urls'', JArr [JStr rawURL]),
      (''crawler_config'', JObj
        [(''params'', JObj
           [(''delay_before_return_html'', JNum ''1''),
            (''exclude_external_images'', JBool True),
            (''exclude_external_links'', JBool True),
            (''exclude_social_media_links'', JBool True),
            (''excluded_tags'', JArr (map JStr [''nav'', ''footer'', ''header'', ''form'', ''aside''])),
            (''markdown_generator'', JObj
              [(''params'', JObj
                 [(''content_filter'', JObj
                    [(''params'', JObj
                       [(''threshold'', JNum ''0.48''), (''threshold_type'', JStr ''fixed'')]),
                     (''type'', JStr ''PruningContentFilter'')]),
                  (''options'', JObj [(''ignore_links'', JBool True)])]),
               (''type'', JStr ''DefaultMarkdownGenerator'')]),
            (''max_retries'', JNum ''2''),
            (''page_timeout'', JNum ''90000''),
            (''remove_overlay_elements'', JBool True),
            (''scan_full_page'', JBool True),
            (''scroll_delay'', JNum ''0.5''),
            (''wait_until'', JStr ''domcontentloaded''),
            (''word_count_threshold'', JNum ''10'')]),
         (''type'', JStr ''CrawlerRunConfig'')])]"

record crawlMarkdown =
  cm_RawMarkdown :: string
  cm_MarkdownWithCitations :: string
  cm_FitMarkdown :: string

record crawlResult =
  cr_URL :: string
  cr_Markdown :: crawlMarkdown
  cr_CleanedHTML :: string
  cr_Success :: bool
  cr_StatusCode :: int
  cr_ErrorMessage :: string

record crawlResponse =
  cp_Success :: bool
  cp_Results :: "crawlResult list"
  cp_Error :: string

definition zero_crawlResult :: crawlResult where
  "zero_crawlResult = \<lparr>cr_URL = [], cr_Markdown = \<lparr>cm_RawMarkdown = [], cm_MarkdownWithCitations = [],
     cm_FitMarkdown = []\<rparr>, cr_CleanedHTML = [], cr_Success = False, cr_StatusCode = 0, cr_ErrorMessage = []\<rparr>"

definition zero_crawlResponse :: crawlResponse where
  "zero_crawlResponse = \<lparr>cp_Success = False, cp_Results = [], cp_Error = []\<rparr>"

definition dec_crawlMarkdown :: "crawlMarkdown decoder" where
  "dec_crawlMarkdown = dec_struct
     [(''raw_markdown'', into cm_RawMarkdown cm_RawMarkdown_update dec_string),
      (''markdown_with_citations'', into cm_MarkdownWithCitations cm_MarkdownWithCitations_update dec_string),
      (''fit_markdown'', into cm_FitMarkdown cm_FitMarkdown_update dec_string)]"

definition dec_crawlResult :: "crawlResult decoder" where
  "dec_crawlResult = dec_struct
     [(''url'', into cr_URL cr_URL_update dec_string),
      (''markdown'', into cr_Markdown cr_Markdown_update dec_crawlMarkdown),
      (''cleaned_html'', into cr_CleanedHTML cr_CleanedHTML_update dec_string),
      (''success'', into cr_Success cr_Success_update dec_bool),
      (''status_code'', into cr_StatusCode cr_StatusCode_update dec_int),
      (''error_message'', into cr_ErrorMessage cr_ErrorMessage_update dec_string)]"

definition dec_crawlResponse :: "crawlResponse decoder" where
  "dec_crawlResponse = dec_struct
     [(''success'', into cp_Success cp_Success_update dec_bool),
      (''results'', into cp_Results cp_Results_update (dec_slice dec_crawlResult zero_crawlResult)),
      (''error'', into cp_Error cp_Error_update dec_string)]"

section \<open>From the response to a document\<close>

definition best_content :: "crawlResult \<Rightarrow> string" where
  \<comment> \<open>the fit markdown, else the raw markdown, else the cleaned HTML\<close>
  "best_content r =
     (let content = cm_FitMarkdown (cr_Markdown r);
          content = (if content = [] then cm_RawMarkdown (cr_Markdown r) else content)
      in if content = [] then cr_CleanedHTML r else content)"

definition scan_text :: "crawlResult \<Rightarrow> string" where
  \<comment> \<open>what is searched for a bot wall\<close>
  "scan_text r =
     (let content = best_content r in
      if cr_CleanedHTML r \<noteq> [] \<and> cr_CleanedHTML r \<noteq> content
      then cr_CleanedHTML r @ [CHR 0x0A] @ content else content)"

definition page_document :: "platform \<Rightarrow> string \<Rightarrow> crawlResult \<Rightarrow> Document res" where
  "page_document P rawURL r = (case Detect (pl_lower P) (scan_text r) of
       Some marker \<Rightarrow> Fail (FetchError KindCaptcha (cr_StatusCode r) marker None)
     | None \<Rightarrow>
        (if cr_StatusCode r = 403 \<or> cr_StatusCode r = 429 then
           Fail (FetchError (KindForStatus (cr_StatusCode r)) (cr_StatusCode r) [] (Some (EText
             (''crawl4ai page returned '' @ Itoa (cr_StatusCode r) @ '' (blocked)''))))
         else Ok \<lparr>PageContent = best_content r, Metadata =
           [''source'' \<mapsto> rawURL, ''status_code'' \<mapsto> Itoa (cr_StatusCode r)]\<rparr>))"

definition response_document :: "platform \<Rightarrow> string \<Rightarrow> crawlResponse \<Rightarrow> Document res" where
  "response_document P rawURL cr =
     (if \<not> cp_Success cr then
       (let msg = (if cp_Error cr = [] \<and> 0 < length (cp_Results cr)
                   then cr_ErrorMessage (hd (cp_Results cr)) else cp_Error cr)
        in Fail (FetchError KindUpstreamError 0 [] (Some (EText (''crawl failed: '' @ msg)))))
      else if cp_Results cr = [] then
        Fail (FetchError KindBadResponse 0 [] (Some (EText ''crawl returned no results'')))
      else page_document P rawURL (hd (cp_Results cr)))"

definition crawl_answer :: "platform \<Rightarrow> string \<Rightarrow> http_response \<Rightarrow> Document res" where
  \<comment> \<open>reading, status check and decoding\<close>
  "crawl_answer P rawURL resp = (case wrap_err ''read response'' (read_all_limit 10485760 resp) of
       Fail e \<Rightarrow> Fail e
     | Panic m \<Rightarrow> Panic m
     | Ok respBody \<Rightarrow>
        (if resp_status resp \<noteq> 200 then
           Fail (FetchError (KindForStatus (resp_status resp)) (resp_status resp) [] (Some (EText
             (''crawl4ai returned '' @ Itoa (resp_status resp) @ '': '' @ truncate_str respBody 200))))
         else (case json_Unmarshal dec_crawlResponse respBody zero_crawlResponse of
             None \<Rightarrow> Fail (FetchError KindBadResponse 0 [] (Some (EWrap ''decode response'' json_error)))
           | Some cr \<Rightarrow> response_document P rawURL cr)))"

definition crawl_exchange :: "'w sys \<Rightarrow> platform \<Rightarrow> string \<Rightarrow> ctx \<Rightarrow> string \<Rightarrow> 'w \<Rightarrow> Document res \<times> 'w" where
  \<comment> \<open>the part that holds the limiter's slot\<close>
  "crawl_exchange S P endpoint ctx rawURL w =
     (case DoRetry S ctx ''POST'' endpoint (Some (Marshal (crawl_request rawURL)))
         [(''Content-Type'', ''application/json'')] no_config w of
        (Fail err, w1) \<Rightarrow> (Fail (the (ClassifyClientError (Some err) KindUpstreamError)), w1)
      | (Panic m, w1) \<Rightarrow> (Panic m, w1)
      | (Ok None, w1) \<Rightarrow> (Panic ''nil response'', w1)
      | (Ok (Some resp), w1) \<Rightarrow> (crawl_answer P rawURL resp, w1))"

definition Crawl4ai_Crawl :: "'w sys \<Rightarrow> platform \<Rightarrow> Crawl4aiEngine \<Rightarrow> ctx \<Rightarrow> string \<Rightarrow> EngineOptions \<Rightarrow> 'w
    \<Rightarrow> Document res \<times> 'w" where
  "Crawl4ai_Crawl S P E ctx rawURL eo w =
     (if ce_endpoint E = [] then
        (Fail (EText ''crawl4ai endpoint not configured (set OMNIFEED_CRAWL4AI_URL)''), w)
      else with_slot S rawURL (crawl_exchange S P (ce_endpoint E) ctx rawURL) w)"

section \<open>Lemmas\<close>

lemma page_document_Ok:
  "page_document P rawURL r = Ok doc \<longleftrightarrow>
     Detect (pl_lower P) (scan_text r) = None \<and> cr_StatusCode r \<noteq> 403 \<and> cr_StatusCode r \<noteq> 429 \<and>
     doc = \<lparr>PageContent = best_content r, Metadata =
       [''source'' \<mapsto> rawURL, ''status_code'' \<mapsto> Itoa (cr_StatusCode r)]\<rparr>"
  by (auto simp: page_document_def split: option.splits)

lemma response_document_Ok:
  "response_document P rawURL cr = Ok doc \<longleftrightarrow>
     cp_Success cr \<and> cp_Results cr \<noteq> [] \<and> page_document P rawURL (hd (cp_Results cr)) = Ok doc"
  by (simp add: response_document_def Let_def)

lemma crawl_answer_Ok:
  "crawl_answer P rawURL resp = Ok doc \<longleftrightarrow> resp_status resp = 200 \<and>
     (\<exists>body cr. read_all_limit 10485760 resp = Ok body \<and>
        json_Unmarshal dec_crawlResponse body zero_crawlResponse = Some cr \<and> response_document P rawURL cr = Ok doc)"
  by (auto simp: crawl_answer_def split: res.splits option.splits)

lemma crawl_answer_no_panic [simp]: "no_panic (crawl_answer P rawURL resp)"
  by (auto simp: crawl_answer_def response_document_def page_document_def read_all_limit_def no_panic_def Let_def
      split: option.splits res.splits)

lemma DoRetry_default:
  "(\<exists>e. fst (DoRetry S c m u b h no_config w) = Fail e) \<or>
   (\<exists>msg. fst (DoRetry S c m u b h no_config w) = Panic msg) \<or>
   (\<exists>resp. fst (DoRetry S c m u b h no_config w) = Ok (Some resp))"
proof (cases "fst (DoRetry S c m u b h no_config w)")
  case (Ok r)
  have "nat (MaxAttempts (retry_defaults no_config)) \<noteq> 0" by simp
  with Ok retry_loop_result [OF refl, of S c "\<lparr>req_method = m, req_url = u, req_body = b, req_headers = h\<rparr>"
      "MaxDelay (retry_defaults no_config)" "nat (MaxAttempts (retry_defaults no_config))" True
      "BaseDelay (retry_defaults no_config)" None w]
  have "r \<noteq> None" by (auto simp: DoRetry_def Let_def)
  with Ok show ?thesis by auto
qed auto

definition crawl_http :: "string \<Rightarrow> string \<Rightarrow> http_request" where
  "crawl_http endpoint rawURL = \<lparr>req_method = ''POST'', req_url = endpoint,
     req_body = Some (Marshal (crawl_request rawURL)), req_headers = [(''Content-Type'', ''application/json'')]\<rparr>"

lemma crawl_exchange_Ok:
  assumes "fst (crawl_exchange S P url ctx rawURL w) = Ok doc"
  shows "\<exists>resp. answers S ctx (crawl_http url rawURL) resp \<and> crawl_answer P rawURL resp = Ok doc"
  using assms
  by (auto simp: crawl_exchange_def crawl_http_def split: prod.splits res.splits option.splits
      dest!: arg_cong [where f = fst]) (blast dest: DoRetry_source)

lemma Crawl4ai_Ok:
  assumes "fst (Crawl4ai_Crawl S P E ctx rawURL eo w) = Ok doc"
  shows "\<exists>resp. answers S ctx (crawl_http (ce_endpoint E) rawURL) resp \<and> crawl_answer P rawURL resp = Ok doc"
  using assms unfolding Crawl4ai_Crawl_def
  by (auto dest!: with_slot_Ok crawl_exchange_Ok split: if_splits)

lemma Crawl4ai_page:
  "fst (Crawl4ai_Crawl S P E ctx rawURL eo w) = Ok doc \<Longrightarrow> \<exists>r. page_document P rawURL r = Ok doc"
  by (auto dest!: Crawl4ai_Ok simp: crawl_answer_Ok response_document_Ok)

text \<open>What it sends: one request, retried, under the slot of the page's host.\<close>

lemma crawl_exchange_events:
  "emits (retry_events ctx (crawl_http url rawURL) 3) (crawl_exchange (logged S) P url ctx rawURL (w, l)) l"
proof -
  let ?r = "DoRetry (logged S) ctx ''POST'' url (Some (Marshal (crawl_request rawURL)))
    [(''Content-Type'', ''application/json'')] no_config (w, l)"
  have "snd (crawl_exchange (logged S) P url ctx rawURL (w, l)) = snd ?r"
    by (auto simp: crawl_exchange_def split: prod.splits res.splits option.splits)
  with DoRetry_events [of ctx "''POST''" url "Some (Marshal (crawl_request rawURL))"
      "[(''Content-Type'', ''application/json'')]" no_config S w l]
  show ?thesis by (simp add: emits_def crawl_http_def)
qed

lemma Crawl4ai_events:
  "emits (bracketed (\<lambda>h. slotFor rawURL = Ok h) (retry_events ctx (crawl_http (ce_endpoint E) rawURL) 3))
     (Crawl4ai_Crawl (logged S) P E ctx rawURL eo (w, l)) l"
  using with_slot_log [OF crawl_exchange_events, of rawURL]
  by (auto simp: Crawl4ai_Crawl_def emits_def bracketed_def)

text \<open>The request is valid JSON that carries exactly the given address.\<close>

lemma crawl_request_wf: "valid_utf8 rawURL \<Longrightarrow> json_parse (Marshal (crawl_request rawURL)) = Some (crawl_request rawURL)"
proof -
  assume u: "valid_utf8 rawURL"
  have "num_ok ''1''" "num_ok ''0.48''" "num_ok ''2''" "num_ok ''90000''" "num_ok ''0.5''" "num_ok ''10''"
    by code_simp+
  with u show ?thesis by (intro json_parse_Marshal) (simp add: crawl_request_def wf_json_eval)
qed

section \<open>A page\<close>

definition example_page :: json where
  "example_page = JObj [(''success'', JBool True), (''results'', JArr [JObj
     [(''success'', JBool True), (''status_code'', JNum ''200''),
      (''markdown'', JObj [(''fit_markdown'', JStr ''hello'')])]])]"

definition example_page_result :: crawlResult where
  "example_page_result = zero_crawlResult\<lparr>cr_Success := True, cr_StatusCode := 200,
     cr_Markdown := \<lparr>cm_RawMarkdown = [], cm_MarkdownWithCitations = [], cm_FitMarkdown = ''hello''\<rparr>\<rparr>"

lemma example_page_decoded:
  "json_Unmarshal dec_crawlResponse (Marshal example_page) zero_crawlResponse =
     Some \<lparr>cp_Success = True, cp_Results = [example_page_result], cp_Error = []\<rparr>"
proof -
  have "num_ok ''200''" by code_simp
  then have "json_parse (Marshal example_page) = Some example_page"
    by (intro json_parse_Marshal) (simp add: example_page_def wf_json_eval)
  moreover have "Atoi ''200'' = Some 200"
    by (simp add: Atoi_def is_digit_def in_int64_def min_int64_def max_int64_def)
  ultimately show ?thesis
    by (simp add: json_Unmarshal_def) (simp add: example_page_def dec_crawlResponse_def dec_crawlResult_def
        dec_crawlMarkdown_def find_field_def into_def zero_crawlResponse_def zero_crawlResult_def example_page_result_def)
qed

lemma example_page_crawl:
  "Crawl4ai_Crawl (steady (reply 200 (Marshal example_page))) amd64 \<lparr>ce_endpoint = ''http://c/crawl''\<rparr>
     RequestCtx ''https://a.b/'' eo () =
     (Ok \<lparr>PageContent = ''hello'', Metadata = [''source'' \<mapsto> ''https://a.b/'', ''status_code'' \<mapsto> ''200'']\<rparr>, ())"
proof -
  let ?S = "steady (reply 200 (Marshal example_page))"
  have url: "url_Parse ''http://c/crawl'' \<noteq> None" by code_simp
  have host: "slotFor ''https://a.b/'' = Ok ''a.b''" by code_simp
  have "length (Marshal example_page) < 1000" by code_simp
  then have length: "length (Marshal example_page) < 10485760" by simp
  have "scan_text example_page_result = ''hello''" "ToLower (pl_lower amd64) ''hello'' = ''hello''"
    "find_marker markers ''hello'' = None"
    by code_simp+
  then have detect: "Detect (pl_lower amd64) (scan_text example_page_result) = None"
    by (simp only: Detect_take) (simp add: scanLimit_def)
  have best: "best_content example_page_result = ''hello''" by code_simp
  have status: "Itoa 200 = ''200''" by code_simp
  have page: "page_document amd64 ''https://a.b/'' example_page_result =
      Ok \<lparr>PageContent = ''hello'', Metadata = [''source'' \<mapsto> ''https://a.b/'', ''status_code'' \<mapsto> ''200'']\<rparr>"
    using detect best status by (simp add: page_document_def) (simp add: example_page_result_def)
  have "DoRetry ?S RequestCtx ''POST'' ''http://c/crawl'' b h no_config () =
      (Ok (Some \<lparr>resp_status = 200, resp_retry_after = [], resp_body = Marshal example_page, resp_read_err = None\<rparr>), ())" for b h
    using url by (simp add: DoRetry_def Let_def try_once_def reply_def numeral_3_eq_3)
  then have "crawl_exchange ?S amd64 ''http://c/crawl'' RequestCtx ''https://a.b/'' () =
      (crawl_answer amd64 ''https://a.b/'' \<lparr>resp_status = 200, resp_retry_after = [], resp_body = Marshal example_page, resp_read_err = None\<rparr>, ())"
    by (simp add: crawl_exchange_def)
  moreover have "crawl_answer amd64 ''https://a.b/'' \<lparr>resp_status = 200, resp_retry_after = [], resp_body = Marshal example_page, resp_read_err = None\<rparr>
      = Ok \<lparr>PageContent = ''hello'', Metadata = [''source'' \<mapsto> ''https://a.b/'', ''status_code'' \<mapsto> ''200'']\<rparr>"
    using length by (simp add: crawl_answer_def read_all_limit_def example_page_decoded response_document_def page)
  ultimately show ?thesis
    using host by (simp add: Crawl4ai_Crawl_def with_slot_def Acquire_def)
qed

section \<open>Properties\<close>

text \<open>
  C39: A document of the crawl4ai engine is a page of an answer crawl4ai gave to this very request:
  the first result of a successful 200 response, in which no bot-wall marker was found and whose own
  status is neither 403 nor 429. Its content is the fit markdown, else the raw markdown, else the
  cleaned HTML, and it is labelled with the requested address.
\<close>

theorem Crawl4ai_document:
  assumes "fst (Crawl4ai_Crawl S P E ctx rawURL eo w) = Ok doc"
  shows "\<exists>resp body cr r rest. answers S ctx (crawl_http (ce_endpoint E) rawURL) resp \<and> resp_status resp = 200 \<and>
     read_all_limit 10485760 resp = Ok body \<and> json_Unmarshal dec_crawlResponse body zero_crawlResponse = Some cr \<and>
     cp_Success cr \<and> cp_Results cr = r # rest \<and>
     Detect (pl_lower P) (scan_text r) = None \<and> cr_StatusCode r \<notin> {403, 429} \<and>
     PageContent doc = (if cm_FitMarkdown (cr_Markdown r) \<noteq> [] then cm_FitMarkdown (cr_Markdown r)
       else if cm_RawMarkdown (cr_Markdown r) \<noteq> [] then cm_RawMarkdown (cr_Markdown r) else cr_CleanedHTML r) \<and>
     Metadata doc = [''source'' \<mapsto> rawURL, ''status_code'' \<mapsto> Itoa (cr_StatusCode r)]"
proof -
  obtain resp body cr where r: "answers S ctx (crawl_http (ce_endpoint E) rawURL) resp" "resp_status resp = 200"
    "read_all_limit 10485760 resp = Ok body" "json_Unmarshal dec_crawlResponse body zero_crawlResponse = Some cr"
    "response_document P rawURL cr = Ok doc"
    using Crawl4ai_Ok [OF assms] by (auto simp: crawl_answer_Ok)
  obtain p rest where "cp_Results cr = p # rest" "cp_Success cr" "page_document P rawURL p = Ok doc"
    using r(5) by (auto simp: response_document_Ok neq_Nil_conv)
  with r(1-4) show ?thesis
    by (intro exI [of _ resp] exI [of _ body] exI [of _ cr] exI [of _ p] exI [of _ rest])
       (simp add: page_document_Ok best_content_def Let_def)
qed

theorem Crawl4ai_document_witness:
  "\<exists>resp. answers (steady (reply 200 (Marshal example_page))) RequestCtx (crawl_http ''http://c/crawl'' ''https://a.b/'') resp \<and>
     resp_status resp = 200"
proof -
  let ?doc = "\<lparr>PageContent = ''hello'', Metadata = [''source'' \<mapsto> ''https://a.b/'', ''status_code'' \<mapsto> ''200'']\<rparr>"
  have "fst (Crawl4ai_Crawl (steady (reply 200 (Marshal example_page))) amd64 \<lparr>ce_endpoint = ''http://c/crawl''\<rparr>
     RequestCtx ''https://a.b/'' (undefined :: EngineOptions) ()) = Ok ?doc"
    by (simp only: example_page_crawl fst_conv)
  from Crawl4ai_document [OF this] show ?thesis by auto
qed

text \<open>
  A crawl through crawl4ai takes the slot of the page's host, sends at most three copies of
  one POST to the configured endpoint with jittered waits between them, and releases the slot;
  without a usable address or endpoint it does nothing at all.
\<close>

theorem Crawl4ai_traffic:
  "emits (bracketed (\<lambda>h. slotFor rawURL = Ok h) (retry_events ctx (crawl_http (ce_endpoint E) rawURL) 3))
     (Crawl4ai_Crawl (logged S) P E ctx rawURL eo (w, l)) l"
  by (rule Crawl4ai_events)

end
