(* ===== verification/Registry.thy ===== *)
theory Registry
  imports Ssrf Crawl4ai_Engine
begin

text \<open>
  \<open>internal/engine/registry.go\<close> and the \<open>Engine\<close> interface of \<open>internal/domain/document.go\<close>.
  An interface value is the record of its methods.  What the callers of an engine rely on is the
  locale \<open>engine_contract\<close>, interpreted on the two engines of the program; a registry of engines
  that keep the contract is an engine that keeps it (\<open>registry_contract\<close>).
\<close>

record 'w engine =
  en_Name :: string
  en_Matches :: "string \<Rightarrow> bool"
  en_Crawl :: "ctx \<Rightarrow> string \<Rightarrow> EngineOptions \<Rightarrow> 'w \<Rightarrow> Document res \<times> 'w"

record 'w Registry =
  rg_engines :: "'w engine list"
  rg_fallback :: "'w engine option"
  rg_blockPrivate :: bool

definition NewRegistry :: "'w Registry" where
  "NewRegistry = \<lparr>rg_engines = [], rg_fallback = None, rg_blockPrivate = False\<rparr>"

definition Register :: "'w engine \<Rightarrow> 'w Registry \<Rightarrow> 'w Registry" where
  "Register e r = r\<lparr>rg_engines := rg_engines r @ [e]\<rparr>"

definition Fallback :: "'w engine \<Rightarrow> 'w Registry \<Rightarrow> 'w Registry" where
  "Fallback e r = r\<lparr>rg_fallback := Some e\<rparr>"

definition BlockPrivateIPs :: "bool \<Rightarrow> 'w Registry \<Rightarrow> 'w Registry" where
  "BlockPrivateIPs block r = r\<lparr>rg_blockPrivate := block\<rparr>"

fun first_engine :: "'w engine list \<Rightarrow> string \<Rightarrow> 'w engine option" where
  "first_engine [] rawURL = None"
| "first_engine (e # es) rawURL = (if en_Matches e rawURL then Some e else first_engine es rawURL)"

definition Resolve :: "'w Registry \<Rightarrow> string \<Rightarrow> 'w engine option" where
  "Resolve r rawURL = (case first_engine (rg_engines r) rawURL of
       Some e \<Rightarrow> Some e
     | None \<Rightarrow> rg_fallback r)"

definition Registry_Crawl :: "'w sys \<Rightarrow> 'w Registry \<Rightarrow> ctx \<Rightarrow> string \<Rightarrow> EngineOptions \<Rightarrow> 'w \<Rightarrow> Document res \<times> 'w" where
  "Registry_Crawl S r ctx rawURL opts w = (case ValidateURL S rawURL (rg_blockPrivate r) w of
       (Some err, w1) \<Rightarrow> (Fail (EWrap ''url rejected'' err), w1)
     | (None, w1) \<Rightarrow> (case Resolve r rawURL of
           None \<Rightarrow> (Fail (EText (''no engine available for '' @ rawURL @ '' and no fallback configured'')), w1)
         | Some e \<Rightarrow> en_Crawl e ctx rawURL opts w1))"

section \<open>The two engines as interface values\<close>

definition reddit_engine :: "'w sys \<Rightarrow> platform \<Rightarrow> toon \<Rightarrow> Engine \<Rightarrow> 'w engine" where
  "reddit_engine S P toon E = \<lparr>en_Name = ''reddit'', en_Matches = IsRedditURL, en_Crawl = Crawl S P toon E\<rparr>"

definition crawl4ai_engine :: "'w sys \<Rightarrow> platform \<Rightarrow> Crawl4aiEngine \<Rightarrow> 'w engine" where
  "crawl4ai_engine S P E =
     \<lparr>en_Name = ''crawl4ai'', en_Matches = (\<lambda>_. False), en_Crawl = Crawl4ai_Crawl S P E\<rparr>"

section \<open>Resolution\<close>

lemma first_match_Some:
  "first_engine es u = Some e \<longleftrightarrow>
     (\<exists>pre post. es = pre @ e # post \<and> en_Matches e u \<and> (\<forall>x \<in> set pre. \<not> en_Matches x u))"
proof (induction es)
  case (Cons a es)
  note IH = Cons.IH
  show ?case
  proof
    assume h: "first_engine (a # es) u = Some e"
    show "\<exists>pre post. a # es = pre @ e # post \<and> en_Matches e u \<and> (\<forall>x \<in> set pre. \<not> en_Matches x u)"
    proof (cases "en_Matches a u")
      case True
      with h show ?thesis by (intro exI [of _ "[]"] exI [of _ es]) simp
    next
      case False
      with h Cons obtain pre post where "es = pre @ e # post" "en_Matches e u" "\<forall>x \<in> set pre. \<not> en_Matches x u"
        by auto
      with False show ?thesis by (intro exI [of _ "a # pre"] exI [of _ post]) simp
    qed
  next
    assume "\<exists>pre post. a # es = pre @ e # post \<and> en_Matches e u \<and> (\<forall>x \<in> set pre. \<not> en_Matches x u)"
    then obtain pre post where p: "a # es = pre @ e # post" "en_Matches e u" "\<forall>x \<in> set pre. \<not> en_Matches x u"
      by blast
    show "first_engine (a # es) u = Some e"
    proof (cases pre)
      case Nil
      with p show ?thesis by simp
    next
      case (Cons b pre')
      with p have "es = pre' @ e # post" "\<forall>x \<in> set pre'. \<not> en_Matches x u" "\<not> en_Matches a u" by auto
      with p(2) IH show ?thesis by auto
    qed
  qed
qed simp

lemma first_match_None: "first_engine es u = None \<longleftrightarrow> (\<forall>e \<in> set es. \<not> en_Matches e u)"
  by (induction es) auto

lemma Resolve_in: "Resolve r u = Some e \<Longrightarrow> e \<in> set (rg_engines r) \<or> rg_fallback r = Some e"
  by (auto simp: Resolve_def first_match_Some split: option.splits)

section \<open>What the callers of an engine rely on\<close>

locale engine_contract =
  fixes crawl :: "ctx \<Rightarrow> string \<Rightarrow> EngineOptions \<Rightarrow> 'w \<Rightarrow> Document res \<times> 'w"
  assumes has_source: "fst (crawl c u eo w) = Ok doc \<Longrightarrow> Metadata doc ''source'' \<noteq> None"
    and has_status: "fst (crawl c u eo w) = Ok doc \<Longrightarrow> Metadata doc ''status_code'' \<noteq> None"
begin

lemma labelled: "fst (crawl c u eo w) = Ok doc \<Longrightarrow> {''source'', ''status_code''} \<subseteq> dom (Metadata doc)"
  using has_source has_status by (auto simp: dom_def)

end

text \<open>
  All traffic of an engine goes to one upstream: a URL named by a caller is never contacted by
  the process itself.  Counting is left to the transports.
\<close>

fun event_to :: "string \<Rightarrow> event \<Rightarrow> bool" where
  "event_to upstream (EvHttp c q) \<longleftrightarrow> req_url q = upstream"
| "event_to upstream (EvMetric m) \<longleftrightarrow> False"
| "event_to upstream e \<longleftrightarrow> True"

definition only_to :: "string \<Rightarrow> event list \<Rightarrow> bool" where
  "only_to upstream ls \<longleftrightarrow> list_all (event_to upstream) ls"

fun is_lookup :: "event \<Rightarrow> bool" where
  "is_lookup (EvLookup h) = True"
| "is_lookup e = False"

locale proxied_engine = engine_contract crawl
  for crawl :: "ctx \<Rightarrow> string \<Rightarrow> EngineOptions \<Rightarrow> 'w \<times> event list \<Rightarrow> Document res \<times> 'w \<times> event list" +
  fixes upstream :: string
  assumes traffic: "emits (only_to upstream) (crawl c u eo (w, l)) l"

lemma Crawl_labelled:
  assumes "fst (Crawl S P toon E c u eo w) = Ok doc"
  shows "Metadata doc ''source'' \<noteq> None \<and> Metadata doc ''status_code'' \<noteq> None"
proof -
  obtain th where "crawl_document toon (resolveOptions E eo) th = Ok doc" using Crawl_Ok [OF assms] by blast
  from crawl_document_metadata [OF this] show ?thesis by auto
qed

lemma Crawl4ai_labelled:
  assumes "fst (Crawl4ai_Crawl S P E c u eo w) = Ok doc"
  shows "Metadata doc ''source'' \<noteq> None \<and> Metadata doc ''status_code'' \<noteq> None"
proof -
  obtain r where "page_document P u r = Ok doc" using Crawl4ai_page [OF assms] by blast
  then show ?thesis by (auto simp: page_document_Ok)
qed

interpretation reddit: engine_contract "Crawl S P toon E" for S P toon E
  by unfold_locales (auto dest: Crawl_labelled)

interpretation crawl4ai: engine_contract "Crawl4ai_Crawl S P E" for S P E
  by unfold_locales (auto dest: Crawl4ai_labelled)

lemma only_to_append [simp]: "only_to u (a @ b) \<longleftrightarrow> only_to u a \<and> only_to u b"
  by (simp add: only_to_def)

lemma only_to_simps [simp]:
  "only_to u []" "only_to u (EvAcquire h # es) = only_to u es" "only_to u (EvRelease h # es) = only_to u es"
  "only_to u (EvLookup h # es) = only_to u es"
  by (simp_all add: only_to_def)

lemma event_to_weaken: "list_all P ls \<Longrightarrow> (\<And>e. P e \<Longrightarrow> event_to u e) \<Longrightarrow> only_to u ls"
  by (simp add: only_to_def list_all_iff)

lemma lookups_only_to: "list_all is_lookup ls \<Longrightarrow> only_to u ls"
  by (erule event_to_weaken, erule is_lookup.elims) simp_all

lemma retry_events_only_to: "retry_events c q n ls \<Longrightarrow> only_to (req_url q) ls"
  unfolding retry_events_def by (elim conjE, erule event_to_weaken, erule retry_event.elims) simp_all

lemma bracketed_only_to: "bracketed host Q ls \<Longrightarrow> (\<And>es. Q es \<Longrightarrow> only_to u es) \<Longrightarrow> only_to u ls"
  by (auto simp: bracketed_def)

lemma posts_to_only_to: "posts_to u n ls \<Longrightarrow> only_to u ls"
  unfolding posts_to_def by (elim conjE, erule event_to_weaken) (simp split: event.splits)

lemma Crawl_only_to: "emits (only_to (re_crawl4aiURL E)) (Crawl (logged S) P toon E c u eo (w, l)) l"
proof (rule emits_weaken [OF Crawl_trace])
  fix ls
  assume "crawl_trace (re_crawl4aiURL E) (share_posts u) (1 + nat (MaxRounds (resolveOptions E eo))) ls"
  then obtain a b where ab: "ls = a @ b" "posts_to (re_crawl4aiURL E) (share_posts u) a"
    "bracketed ((=) ''reddit.com'') (posts_to (re_crawl4aiURL E) (1 + nat (MaxRounds (resolveOptions E eo)))) b"
    unfolding crawl_trace_def by blast
  from ab(1) posts_to_only_to [OF ab(2)] bracketed_only_to [OF ab(3) posts_to_only_to]
  show "only_to (re_crawl4aiURL E) ls" by simp
qed

lemma Crawl4ai_only_to: "emits (only_to (ce_endpoint E)) (Crawl4ai_Crawl (logged S) P E c u eo (w, l)) l"
proof -
  have "only_to (ce_endpoint E) es" if "retry_events c (crawl_http (ce_endpoint E) u) 3 es" for es
    using retry_events_only_to [OF that] by (simp add: crawl_http_def)
  from bracketed_only_to [OF _ this] show ?thesis by (rule emits_weaken [OF Crawl4ai_events])
qed

interpretation reddit_proxied: proxied_engine "Crawl (logged S) P toon E" "re_crawl4aiURL E" for S P toon E
  by unfold_locales (rule Crawl_only_to)

interpretation crawl4ai_proxied: proxied_engine "Crawl4ai_Crawl (logged S) P E" "ce_endpoint E" for S P E
  by unfold_locales (rule Crawl4ai_only_to)

section \<open>A registry is an engine\<close>

definition engines_of :: "'w Registry \<Rightarrow> 'w engine list" where
  \<comment> \<open>every engine a registry can dispatch to\<close>
  "engines_of r = rg_engines r @ (case rg_fallback r of None \<Rightarrow> [] | Some e \<Rightarrow> [e])"

lemma Resolve_engines_of: "Resolve r u = Some e \<Longrightarrow> e \<in> set (engines_of r)"
  by (auto simp: engines_of_def dest: Resolve_in)

lemma Registry_Ok:
  assumes "fst (Registry_Crawl S r c u eo w) = Ok doc"
  obtains e w1 where "e \<in> set (engines_of r)" "fst (en_Crawl e c u eo w1) = Ok doc"
    "ValidateURL S u (rg_blockPrivate r) w = (None, w1)"
  using assms that by (auto simp: Registry_Crawl_def split: prod.splits option.splits dest: Resolve_engines_of)

lemma registry_contract:
  assumes "\<And>e. e \<in> set (engines_of r) \<Longrightarrow> engine_contract (en_Crawl e)"
  shows "engine_contract (Registry_Crawl S r)"
  by unfold_locales
     (blast elim: Registry_Ok dest: engine_contract.has_source [OF assms] engine_contract.has_status [OF assms])+

lemma ValidateURL_lookups: "emits (list_all is_lookup) (ValidateURL (logged S) u b (w, l)) l"
proof -
  obtain w' ls where "snd (ValidateURL (logged S) u b (w, l)) = (w', l @ ls)"
    "ls = [] \<or> (\<exists>h. ls = [EvLookup h])"
    using ValidateURL_log [of S u b w l] by blast
  then show ?thesis by (auto simp: emits_def)
qed

lemma Registry_emits:
  assumes "\<And>e w l. Resolve r u = Some e \<Longrightarrow> emits Q (en_Crawl e c u eo (w, l)) l"
    and "\<And>a b. list_all is_lookup a \<Longrightarrow> Q b \<Longrightarrow> Q (a @ b)"
    and "\<And>a. list_all is_lookup a \<Longrightarrow> Q a"
  shows "emits Q (Registry_Crawl (logged S) r c u eo (w, l)) l"
proof -
  obtain v w1 ls where v: "ValidateURL (logged S) u (rg_blockPrivate r) (w, l) = (v, (w1, l @ ls))"
    "list_all is_lookup ls"
    using ValidateURL_lookups [of S u "rg_blockPrivate r" w l]
    by (cases "ValidateURL (logged S) u (rg_blockPrivate r) (w, l)") (auto simp: emits_def)
  show ?thesis
  proof (cases "v = None \<and> Resolve r u \<noteq> None")
    case True
    then obtain e where e: "Resolve r u = Some e" by blast
    have "emits Q (en_Crawl e c u eo (w1, l @ ls)) (l @ ls)"
      using assms(1) [OF e] .
    with v e True assms(2) show ?thesis by (auto simp: Registry_Crawl_def emits_def)
  next
    case False
    with v assms(3) show ?thesis by (auto simp: Registry_Crawl_def emits_def split: option.splits)
  qed
qed

lemma registry_proxied:
  assumes "\<And>e. e \<in> set (engines_of r) \<Longrightarrow> proxied_engine (en_Crawl e) upstream"
  shows "proxied_engine (Registry_Crawl (logged S) r) upstream"
proof (rule proxied_engine.intro)
  show "engine_contract (Registry_Crawl (logged S) r)"
    by (rule registry_contract) (rule proxied_engine.axioms(1) [OF assms])
  show "proxied_engine_axioms (Registry_Crawl (logged S) r) upstream"
  proof
    fix c u eo w l
    show "emits (only_to upstream) (Registry_Crawl (logged S) r c u eo (w, l)) l"
      by (rule Registry_emits)
         (simp_all add: proxied_engine.traffic [OF assms [OF Resolve_engines_of]] lookups_only_to)
  qed
qed

section \<open>Properties\<close>

text \<open>
  C4: The registry is the choke point of the SSRF guard: when private addresses are blocked,
  anything a crawl does beyond the name lookup of the guard itself happens only for a URL that
  is a safe target, and a crawl of any other URL is an error.
\<close>

theorem Registry_guards:
  assumes "rg_blockPrivate r" "\<not> safe_target (\<lambda>h. fst (sys_lookup S h w)) rawURL"
  shows "(\<exists>err. fst (Registry_Crawl (logged S) r ctx rawURL opts (w, l)) = Fail (EWrap ''url rejected'' err)) \<and>
    emits (list_all is_lookup) (Registry_Crawl (logged S) r ctx rawURL opts (w, l)) l"
proof -
  have "fst (ValidateURL (logged S) rawURL True (w, l)) \<noteq> None"
    using assms(2) by (simp add: ValidateURL_block_iff)
  then obtain err w1 l1 where v: "ValidateURL (logged S) rawURL True (w, l) = (Some err, (w1, l1))"
    by (cases "ValidateURL (logged S) rawURL True (w, l)") auto
  obtain w' ls where "snd (ValidateURL (logged S) rawURL True (w, l)) = (w', l @ ls)"
    "ls = [] \<or> (\<exists>h. ls = [EvLookup h])"
    using ValidateURL_log [of S rawURL True w l] by blast
  with v assms(1) show ?thesis by (auto simp: Registry_Crawl_def emits_def)
qed

theorem Registry_guards_witness:
  "\<exists>err. fst (Registry_Crawl (logged (steady (reply 200 []))) (BlockPrivateIPs True NewRegistry) RequestCtx
     ''http://127.0.0.1/'' \<lparr>RedditKeepDepth = False, RedditKeepCreated = False, RedditMaxRounds = 0, RedditFormat = []\<rparr>
     ((), [])) = Fail (EWrap ''url rejected'' err)"
proof -
  have unsafe: "\<not> safe_target (\<lambda>_. None) ''http://127.0.0.1/''" by code_simp
  have block: "rg_blockPrivate (BlockPrivateIPs True NewRegistry :: (unit \<times> event list) Registry)"
    by (simp add: BlockPrivateIPs_def)
  show ?thesis
    by (rule Registry_guards [OF block, THEN conjunct1]) (simp only: steady_simps fst_conv unsafe not_False_eq_True)
qed

text \<open>
  Dispatch is first match wins: a URL goes to the first registered engine that claims it,
  whatever is registered after that one, and to the fallback when no engine claims it.
\<close>

theorem Resolve_first_match:
  "Resolve (Fallback fb (foldl (\<lambda>r e. Register e r) NewRegistry es)) u =
     (case filter (\<lambda>e. en_Matches e u) es of [] \<Rightarrow> Some fb | e # _ \<Rightarrow> Some e)"
proof -
  have "rg_engines (foldl (\<lambda>r e. Register e r) r es) = rg_engines r @ es" for r :: "'a Registry"
    by (induction es arbitrary: r) (simp_all add: Register_def)
  moreover have "first_engine es u = (case filter (\<lambda>e. en_Matches e u) es of [] \<Rightarrow> None | e # _ \<Rightarrow> Some e)"
    by (induction es) simp_all
  ultimately show ?thesis
    by (simp add: Resolve_def Fallback_def NewRegistry_def split: list.splits)
qed

end
