(* ===== verification/Go_Http.thy ===== *)
theory Go_Http
  imports Go_World Go_Json Go_Url "HOL-Library.List_Lexorder" "HOL-Library.Char_ord"
begin

text \<open>
  The part of \<open>net/http\<close> the transports use: the request as a handler sees it, the reply it
  writes, \<open>http.Error\<close>, reading one JSON value from a size-limited body, and query parameters.
\<close>

record http_in =
  in_method :: string
  in_authorization :: string             \<comment> \<open>the Authorization header, empty when absent\<close>
  in_query :: string                     \<comment> \<open>the raw query string\<close>
  in_body :: string
  in_read_err :: "go_error option"       \<comment> \<open>how the body's stream ends\<close>

record http_reply =
  out_status :: int
  out_headers :: "(string \<times> string) list"
  out_body :: string

definition http_Error :: "string \<Rightarrow> int \<Rightarrow> http_reply" where
  "http_Error msg code = \<lparr>out_status = code,
     out_headers = [(''Content-Type'', ''text/plain; charset=utf-8''), (''X-Content-Type-Options'', ''nosniff'')],
     out_body = msg @ [CHR 0x0A]\<rparr>"

definition json_reply :: "int \<Rightarrow> json \<Rightarrow> http_reply" where
  \<comment> \<open>the content type, the status, and json.NewEncoder(w).Encode(body)\<close>
  "json_reply code body = \<lparr>out_status = code, out_headers = [(''Content-Type'', ''application/json'')],
     out_body = Marshal body @ [CHR 0x0A]\<rparr>"

definition json_of_map :: "(string \<rightharpoonup> string) \<Rightarrow> json" where
  \<comment> \<open>the encoder writes the keys of a map in byte order\<close>
  "json_of_map m = JObj (map (\<lambda>k. (k, JStr (the (m k)))) (sorted_list_of_set (dom m)))"

text \<open>
  \<open>json.NewDecoder(http.MaxBytesReader(w, body, n)).Decode(&v)\<close>: the first value of the stream
  is decoded and what follows it is ignored.  Beyond \<open>n\<close> bytes the reader fails, which is seen
  only if the value is not complete before; a value other than an object or an array is complete
  only with the byte after it or the end of the stream.
\<close>

fun bracketed_value :: "json \<Rightarrow> bool" where
  "bracketed_value (JArr vs) = True"
| "bracketed_value (JObj kvs) = True"
| "bracketed_value v = False"

definition Decode_limited :: "nat \<Rightarrow> 'a decoder \<Rightarrow> http_in \<Rightarrow> 'a \<Rightarrow> 'a option" where
  "Decode_limited n f r a =
     (let cut = take n (in_body r);
          fails = (n < length (in_body r) \<or> in_read_err r \<noteq> None)
      in case json_value maxNestingDepth (skip_space cut) of
           None \<Rightarrow> None
         | Some (v, rest) \<Rightarrow>
             if rest = [] \<and> fails \<and> \<not> bracketed_value v then None else f v a)"

definition query_pairs :: "string \<Rightarrow> (string \<times> string) list" where
  \<comment> \<open>url.ParseQuery: pairs with a semicolon or a bad escape are dropped, as are empty ones\<close>
  "query_pairs q = concat (map (\<lambda>kv.
     if kv = [] \<or> CHR '';'' \<in> set kv then []
     else case (unescape encodeQueryComponent (fst (cut_at kv (CHR ''=''))),
                unescape encodeQueryComponent (fst (snd (cut_at kv (CHR ''='')))))
          of (Some k, Some v) \<Rightarrow> [(k, v)] | _ \<Rightarrow> []) (split_at (CHR ''&'') q))"

definition query_Get :: "string \<Rightarrow> string \<Rightarrow> string" where
  \<comment> \<open>r.URL.Query().Get(key): the first value, empty when there is none\<close>
  "query_Get q key = (case map_of (query_pairs q) key of Some v \<Rightarrow> v | None \<Rightarrow> [])"

definition mux_matches :: "string \<Rightarrow> string \<Rightarrow> bool" where
  \<comment> \<open>http.ServeMux on a clean path: a pattern that ends in a slash stands for its subtree\<close>
  "mux_matches pattern path \<longleftrightarrow>
     (if has_suffix pattern ''/'' then has_prefix path pattern else path = pattern)"

lemma Decode_whole:
  assumes "json_parse (in_body r) = Some v" "length (in_body r) \<le> n" "in_read_err r = None"
  shows "Decode_limited n f r a = f v a"
  using assms by (auto simp: Decode_limited_def json_parse_def Let_def split: option.splits if_splits)

end
