(* ===== verification/Metrics.thy ===== *)
theory Metrics
  imports Go_Http
begin

text \<open>
  \<open>internal/observability/metrics.go\<close>: the collectors the process registers, what an observation
  does to them, and the diagnostic routes.  Collecting and exposing is Prometheus' business; what
  it relies on is modelled: a vector is asked for the series of a list of label values, and panics
  unless there are as many as the vector has labels, and a registry panics when two collectors
  share a name.
\<close>

datatype buckets =
    ExponentialBuckets string string nat     \<comment> \<open>start and factor, as written, and count\<close>
  | LinearBuckets string string nat          \<comment> \<open>start and width, as written, and count\<close>

datatype collector =
    CounterVec (co_name: string) (co_help: string) (co_labels: "string list")
  | HistogramVec (co_name: string) (co_help: string) buckets (co_labels: "string list")
  | Histogram (co_name: string) (co_help: string) buckets

record Metrics =
  RequestsTotal :: collector
  RequestSecs :: collector
  RedditRounds :: collector
  SearchesTotal :: collector
  SearchSecs :: collector

definition NewMetrics :: Metrics where
  "NewMetrics = \<lparr>
     RequestsTotal = CounterVec ''omnifeed_requests_total''
       ''Total /crawl requests by engine, tenant, status, and failure reason.''
       [''engine'', ''tenant'', ''status'', ''reason''],
     RequestSecs = HistogramVec ''omnifeed_request_seconds''
       ''Crawl latency by engine and status.''
       (ExponentialBuckets ''0.05'' ''2'' 12) [''engine'', ''status''],
     RedditRounds = Histogram ''omnifeed_reddit_expansion_rounds''
       ''Number of /api/morechildren rounds per Reddit crawl.''
       (LinearBuckets ''0'' ''5'' 9),
     SearchesTotal = CounterVec ''omnifeed_search_requests_total''
       ''Total search queries by searcher and status.''
       [''searcher'', ''status''],
     SearchSecs = HistogramVec ''omnifeed_search_request_seconds''
       ''Search latency by searcher and status.''
       (ExponentialBuckets ''0.05'' ''2'' 10) [''searcher'', ''status'']\<rparr>"

definition registered :: "Metrics \<Rightarrow> collector list" where
  \<comment> \<open>the program's own collectors, in the order of MustRegister\<close>
  "registered m = [RequestsTotal m, RequestSecs m, RedditRounds m, SearchesTotal m, SearchSecs m]"

fun labels_of :: "collector \<Rightarrow> string list" where
  "labels_of (CounterVec n h ls) = ls"
| "labels_of (HistogramVec n h b ls) = ls"
| "labels_of (Histogram n h b) = []"

definition WithLabelValues :: "collector \<Rightarrow> string list \<Rightarrow> (string \<times> string list) res" where
  \<comment> \<open>the series of a vector; Prometheus panics on a wrong number of values\<close>
  "WithLabelValues v values =
     (if length values = length (labels_of v) then Ok (co_name v, values)
      else Panic ''inconsistent label cardinality'')"

fun series :: "Metrics \<Rightarrow> metric \<Rightarrow> (string \<times> string list) res list" where
  \<comment> \<open>the series one observation touches: a count and a duration\<close>
  "series m (CrawlMetric engine tenant status reason) =
     [WithLabelValues (RequestsTotal m) [engine, tenant, status, reason],
      WithLabelValues (RequestSecs m) [engine, status]]"
| "series m (SearchMetric searcher status) =
     [WithLabelValues (SearchesTotal m) [searcher, status],
      WithLabelValues (SearchSecs m) [searcher, status]]"

definition Observe :: "'w sys \<Rightarrow> string \<Rightarrow> string \<Rightarrow> string \<Rightarrow> string \<Rightarrow> 'w \<Rightarrow> 'w" where
  "Observe S engine tenant status reason w = sys_observe S (CrawlMetric engine tenant status reason) w"

definition ObserveSearch :: "'w sys \<Rightarrow> string \<Rightarrow> string \<Rightarrow> 'w \<Rightarrow> 'w" where
  "ObserveSearch S searcher status w = sys_observe S (SearchMetric searcher status) w"

lemma Observe_logged [simp]:
  "Observe (logged S) e t s r (w, l) = (Observe S e t s r w, l @ [EvMetric (CrawlMetric e t s r)])"
  "ObserveSearch (logged S) n s (w, l) = (ObserveSearch S n s w, l @ [EvMetric (SearchMetric n s)])"
  by (simp_all add: Observe_def ObserveSearch_def)

section \<open>Routes\<close>

definition RegisterMetrics :: "string list" where
  "RegisterMetrics = [''/metrics'']"

definition RegisterPprof :: "string list" where
  "RegisterPprof = [''/debug/pprof/'', ''/debug/pprof/cmdline'', ''/debug/pprof/profile'',
     ''/debug/pprof/symbol'', ''/debug/pprof/trace'']"

section \<open>No observation panics\<close>

lemma collector_names_distinct: "distinct (map co_name (registered NewMetrics))"
  by (simp add: registered_def NewMetrics_def)

lemma series_Ok: "\<exists>ss. series NewMetrics m = map Ok ss \<and> length ss = 2 \<and> fst ` set ss \<subseteq> co_name ` set (registered NewMetrics)"
  by (cases m) (simp_all add: NewMetrics_def WithLabelValues_def registered_def Cons_eq_map_conv)

text \<open>The histogram of expansion rounds is registered, but no observation touches it.\<close>

lemma RedditRounds_unused: "Ok (co_name (RedditRounds NewMetrics), vs) \<notin> set (series NewMetrics m)"
  by (cases m) (simp_all add: NewMetrics_def WithLabelValues_def)

end
