(* ===== verification/Observability.thy ===== *)
theory Observability
  imports Metrics Retry
begin

text \<open>
  \<open>internal/observability\<close>: the reason label of a failed crawl, the readiness probes with their
  cache, and the choice of a logger.  The clock is an argument: \<open>t0\<close> is the time
  at which \<open>check\<close> looks at the cache, \<open>t1\<close> the time at which it stores a new result.
\<close>

section \<open>Reasons (classify.go)\<close>

definition Reason :: "go_error option \<Rightarrow> string" where
  "Reason e = (case e of
       None \<Rightarrow> ''ok''
     | Some err \<Rightarrow> (case As_FetchError err of
           Some fe \<Rightarrow> kind_label (Kind fe)
         | None \<Rightarrow> if Is_context_error err then kind_label KindTimeout else kind_label KindError))"

lemma Reason_ok_iff: "Reason e = ''ok'' \<longleftrightarrow> e = None"
  by (auto simp: Reason_def kind_label_not_ok simp del: kind_label.simps split: option.splits)

lemma Reason_in: "Reason e \<in> insert ''ok'' (set kind_labels)"
  by (auto simp: Reason_def simp del: kind_label.simps split: option.splits)

lemma Reason_wrap [simp]: "Reason (Some (EWrap p e)) = Reason (Some e)"
  by (simp add: Reason_def)

lemma Reason_classified [simp]: "Reason (Some (FetchError k code m e)) = kind_label k"
  by (simp add: Reason_def)

section \<open>Logging (logging.go)\<close>

datatype Level = LevelDebug | LevelInfo | LevelWarn | LevelError
datatype Handler = TextHandler Level | JSONHandler Level

definition NewLogger :: "(string \<Rightarrow> string) \<Rightarrow> string \<Rightarrow> string \<Rightarrow> Handler" where
  "NewLogger unicode_lower level format =
     (let l = ToLower unicode_lower level;
          lvl = (if l = ''debug'' then LevelDebug
                 else if l = ''warn'' \<or> l = ''warning'' then LevelWarn
                 else if l = ''error'' then LevelError
                 else LevelInfo)
      in if ascii_lower format = ''text'' then TextHandler lvl else JSONHandler lvl)"

section \<open>Health (health.go)\<close>

type_synonym 'w ReadyCheck = "ctx \<Rightarrow> 'w \<Rightarrow> go_error option \<times> 'w"

record 'w Health =
  h_ready :: "'w ReadyCheck list"
  h_cache :: "(int \<times> go_error option) option"   \<comment> \<open>cacheResult: at and err\<close>
  h_ttl :: int
  h_shutdown :: bool

definition NewHealth :: "int \<Rightarrow> 'w ReadyCheck list \<Rightarrow> 'w Health" where
  "NewHealth ttl checks = \<lparr>h_ready = checks, h_cache = None, h_ttl = ttl, h_shutdown = False\<rparr>"

definition MarkShuttingDown :: "'w Health \<Rightarrow> 'w Health" where
  "MarkShuttingDown h = h\<lparr>h_shutdown := True\<rparr>"

definition live :: "'w Health \<Rightarrow> http_reply" where
  "live h = (if h_shutdown h then http_Error ''shutting down'' 503
     else \<lparr>out_status = 200, out_headers = [], out_body = json_text ''{`status`:`alive`}''\<rparr>)"

fun run_checks :: "'w ReadyCheck list \<Rightarrow> ctx \<Rightarrow> 'w \<Rightarrow> go_error option \<times> 'w" where
  \<comment> \<open>the loop, left at the first error\<close>
  "run_checks [] c w = (None, w)"
| "run_checks (f # fs) c w = (case f c w of
       (Some err, w1) \<Rightarrow> (Some err, w1)
     | (None, w1) \<Rightarrow> run_checks fs c w1)"

definition fresh :: "'w Health \<Rightarrow> int \<Rightarrow> bool" where
  "fresh h t0 \<longleftrightarrow> (case h_cache h of None \<Rightarrow> False | Some (at, err) \<Rightarrow> t0 - at < h_ttl h)"

definition check :: "'w Health \<Rightarrow> ctx \<Rightarrow> int \<Rightarrow> int \<Rightarrow> 'w \<Rightarrow> go_error option \<times> 'w Health \<times> 'w" where
  "check h c t0 t1 w =
     (if fresh h t0 then (snd (the (h_cache h)), h, w)
      else case run_checks (h_ready h) c w of (err, w1) \<Rightarrow> (err, h\<lparr>h_cache := Some (t1, err)\<rparr>, w1))"

definition readyHandler :: "'w Health \<Rightarrow> ctx \<Rightarrow> int \<Rightarrow> int \<Rightarrow> 'w \<Rightarrow> http_reply \<times> 'w Health \<times> 'w" where
  "readyHandler h c t0 t1 w =
     (if h_shutdown h then (http_Error ''shutting down'' 503, h, w)
      else case check h c t0 t1 w of
          (Some err, h', w') \<Rightarrow>
            (json_reply 503 (JObj [(''error'', JStr (Error err)), (''status'', JStr ''not_ready'')]), h', w')
        | (None, h', w') \<Rightarrow>
            (\<lparr>out_status = 200, out_headers = [(''Content-Type'', ''application/json'')],
              out_body = json_text ''{`status`:`ready`}''\<rparr>, h', w'))"

definition RegisterHealth :: "string list" where
  "RegisterHealth = [''/livez'', ''/readyz'', ''/healthz'', ''/health'']"

definition serve_health :: "'w Health \<Rightarrow> string \<Rightarrow> ctx \<Rightarrow> int \<Rightarrow> int \<Rightarrow> 'w \<Rightarrow> (http_reply \<times> 'w Health \<times> 'w) option" where
  \<comment> \<open>the handlers of Register\<close>
  "serve_health h path c t0 t1 w =
     (if path = ''/livez'' then Some (live h, h, w)
      else if path \<in> {''/readyz'', ''/healthz'', ''/health''} then Some (readyHandler h c t0 t1 w)
      else None)"

text \<open>What happens to the health state between requests.\<close>

datatype health_op =
    Probe string ctx int int   \<comment> \<open>a GET of a path, with the two clock readings\<close>
  | Shutdown                   \<comment> \<open>MarkShuttingDown\<close>

type_synonym check_run = "int \<times> int \<times> go_error option"   \<comment> \<open>the clock before and after, and the result\<close>

fun health_run :: "health_op list \<Rightarrow> 'w Health \<Rightarrow> 'w \<Rightarrow> check_run list \<times> 'w Health \<times> 'w" where
  \<comment> \<open>the runs of the checks that the operations cause, and the state after them\<close>
  "health_run [] h w = ([], h, w)"
| "health_run (Shutdown # ops) h w = health_run ops (MarkShuttingDown h) w"
| "health_run (Probe path c t0 t1 # ops) h w = (case serve_health h path c t0 t1 w of
       None \<Rightarrow> health_run ops h w
     | Some (rep, h', w') \<Rightarrow> (case health_run ops h' w' of (runs, r) \<Rightarrow>
         (if path \<noteq> ''/livez'' \<and> \<not> h_shutdown h \<and> \<not> fresh h t0
          then (t0, t1, fst (run_checks (h_ready h) c w)) # runs else runs, r)))"

section \<open>Lemmas\<close>

lemma check_keeps:
  "check h c t0 t1 w = (err, h', w') \<Longrightarrow> h_ttl h' = h_ttl h \<and> h_ready h' = h_ready h \<and> h_shutdown h' = h_shutdown h"
  by (auto simp: check_def split: if_splits prod.splits)

lemma readyHandler_keeps:
  "readyHandler h c t0 t1 w = (rep, h', w') \<Longrightarrow>
     h_ttl h' = h_ttl h \<and> h_ready h' = h_ready h \<and> h_shutdown h' = h_shutdown h"
  by (auto simp: readyHandler_def dest: check_keeps split: if_splits prod.splits option.splits)

lemma readyHandler_cache:
  "readyHandler h c t0 t1 w = (rep, h', w') \<Longrightarrow>
     h_cache h' = (if h_shutdown h \<or> fresh h t0 then h_cache h
       else Some (t1, fst (run_checks (h_ready h) c w)))"
proof -
  assume r: "readyHandler h c t0 t1 w = (rep, h', w')"
  then have "\<not> h_shutdown h \<Longrightarrow> h' = fst (snd (check h c t0 t1 w))"
    by (auto simp: readyHandler_def split: prod.splits option.splits)
  moreover have "h_cache (fst (snd (check h c t0 t1 w))) =
      (if fresh h t0 then h_cache h else Some (t1, fst (run_checks (h_ready h) c w)))"
    by (simp add: check_def split: prod.splits)
  moreover have "h_shutdown h \<Longrightarrow> h' = h" using r by (simp add: readyHandler_def)
  ultimately show ?thesis by (cases "h_shutdown h") simp_all
qed

fun spaced :: "int \<Rightarrow> int option \<Rightarrow> check_run list \<Rightarrow> bool" where
  \<comment> \<open>every run starts at least ttl after the previous one has stored its result\<close>
  "spaced ttl prev [] \<longleftrightarrow> True"
| "spaced ttl prev ((t0, t1, err) # runs) \<longleftrightarrow>
     (case prev of None \<Rightarrow> True | Some t \<Rightarrow> ttl \<le> t0 - t) \<and> spaced ttl (Some t1) runs"

lemma not_fresh: "\<not> fresh h t0 \<longleftrightarrow> (case h_cache h of None \<Rightarrow> True | Some (at, err) \<Rightarrow> h_ttl h \<le> t0 - at)"
  by (auto simp: fresh_def split: option.splits)

lemma health_run_spaced:
  "spaced (h_ttl h) (map_option fst (h_cache h)) (fst (health_run ops h w))"
proof (induction ops h w rule: health_run.induct)
  case (2 ops h w)
  then show ?case by (simp add: MarkShuttingDown_def)
next
  case (3 path c t0 t1 ops h w)
  show ?case
  proof (cases "path \<in> {''/readyz'', ''/healthz'', ''/health''}")
    case True
    obtain rep h' w' where r: "readyHandler h c t0 t1 w = (rep, h', w')" by (cases "readyHandler h c t0 t1 w")
    have s: "serve_health h path c t0 t1 w = Some (rep, h', w')" "path \<noteq> ''/livez''"
      using True r by (auto simp: serve_health_def)
    obtain runs x where x: "health_run ops h' w' = (runs, x)" by (cases "health_run ops h' w'")
    from 3(2) [OF s(1) refl refl] x readyHandler_keeps [OF r] readyHandler_cache [OF r]
    have IH: "spaced (h_ttl h) (if h_shutdown h \<or> fresh h t0 then map_option fst (h_cache h) else Some t1) runs"
      by (auto split: if_splits)
    show ?thesis
    proof (cases "h_shutdown h \<or> fresh h t0")
      case True
      with s x IH show ?thesis by (cases "h_shutdown h") simp_all
    next
      case False
      with s x IH show ?thesis by (auto simp: not_fresh split: option.splits)
    qed
  next
    case False
    with 3 show ?thesis by (auto simp: serve_health_def split: prod.splits)
  qed
qed simp

text \<open>What the cache holds is the result of the last run of the checks.\<close>

lemma serve_health_cache:
  assumes "serve_health h path c t0 t1 w = Some (rep, h', w')"
  shows "h_ready h' = h_ready h \<and> h_ttl h' = h_ttl h \<and>
    h_cache h' = (if path \<noteq> ''/livez'' \<and> \<not> h_shutdown h \<and> \<not> fresh h t0
      then Some (t1, fst (run_checks (h_ready h) c w)) else h_cache h)"
  using assms readyHandler_keeps [of h c t0 t1 w rep h' w'] readyHandler_cache [of h c t0 t1 w rep h' w']
  by (auto simp: serve_health_def split: if_splits)

lemma health_run_cache:
  "h_cache (fst (snd (health_run ops h w))) =
     (if fst (health_run ops h w) = [] then h_cache h else Some (snd (last (fst (health_run ops h w))))) \<and>
   h_ready (fst (snd (health_run ops h w))) = h_ready h \<and> h_ttl (fst (snd (health_run ops h w))) = h_ttl h"
proof (induction ops h w rule: health_run.induct)
  case (2 ops h w)
  then show ?case by (simp add: MarkShuttingDown_def)
next
  case (3 path c t0 t1 ops h w)
  show ?case
  proof (cases "serve_health h path c t0 t1 w")
    case None
    with 3(1) show ?thesis by simp
  next
    case (Some x)
    then obtain rep h' w' where s: "serve_health h path c t0 t1 w = Some (rep, h', w')" by (cases x) auto
    obtain runs r where x: "health_run ops h' w' = (runs, r)" by (cases "health_run ops h' w'")
    from 3(2) [OF s refl refl] x serve_health_cache [OF s] s show ?thesis by auto
  qed
qed simp

lemma ready_source:
  assumes "readyHandler h c t0 t1 w = (rep, h', w')" "out_status rep = 200"
  shows "(\<exists>at. h_cache h = Some (at, None) \<and> t0 - at < h_ttl h) \<or> fst (run_checks (h_ready h) c w) = None"
proof -
  have e: "\<not> h_shutdown h" "fst (check h c t0 t1 w) = None"
    using assms by (auto simp: readyHandler_def http_Error_def json_reply_def split: if_splits option.splits prod.splits)
  then show ?thesis
    by (cases "fresh h t0") (auto simp: check_def fresh_def split: option.splits prod.splits)
qed

lemma shutdown_stays: "h_shutdown h \<Longrightarrow> h_shutdown (fst (snd (health_run ops h w))) \<and> fst (health_run ops h w) = []"
proof (induction ops h w rule: health_run.induct)
  case (3 path c t0 t1 ops h w)
  show ?case
  proof (cases "serve_health h path c t0 t1 w")
    case None
    with 3 show ?thesis by simp
  next
    case (Some x)
    then obtain rep h' w' where s: "serve_health h path c t0 t1 w = Some (rep, h', w')" by (cases x) auto
    then have "h_shutdown h'" using 3(3) by (auto simp: serve_health_def dest: readyHandler_keeps split: if_splits)
    with 3(2) [OF s refl refl] 3(3) s show ?thesis by (auto split: prod.splits)
  qed
qed (simp_all add: MarkShuttingDown_def)

section \<open>Properties\<close>

text \<open>
  The reason label recorded for a crawl is \<open>ok\<close> exactly when there is no error, and otherwise
  one of the eight labels of the failure taxonomy, whatever the error is and however often it
  was wrapped on its way.
\<close>

theorem Reason_bounded:
  "Reason e \<in> insert ''ok'' (set kind_labels) \<and> (Reason e = ''ok'' \<longleftrightarrow> e = None) \<and>
   Reason (map_option (EWrap p) e) = Reason e"
proof (intro conjI)
  show "Reason (map_option (EWrap p) e) = Reason e" by (cases e) simp_all
qed (rule Reason_in Reason_ok_iff)+


text \<open>
  C37: A readiness probe answers 200 only on a recent success: the last run of the registered checks
  stored, less than one cache period ago, that all of them pass, or they are run for this probe and
  all pass. So with a check that does not pass no history of probes makes the process ready.
\<close>

theorem ready_is_earned:
  assumes "health_run ops (NewHealth ttl checks) w0 = (runs, h, w1)"
    and "serve_health h path c t0 t1 w = Some (rep, h', w')" "path \<noteq> ''/livez''" "out_status rep = 200"
  shows "(\<exists>before at. runs \<noteq> [] \<and> last runs = (before, at, None) \<and> t0 - at < ttl) \<or>
    fst (run_checks checks c w) = None"
proof -
  have h: "h_cache h = (if runs = [] then None else Some (snd (last runs)))" "h_ready h = checks" "h_ttl h = ttl"
    using health_run_cache [of ops "NewHealth ttl checks" w0] assms(1) by (simp_all add: NewHealth_def)
  have "readyHandler h c t0 t1 w = (rep, h', w')"
    using assms(2,3) by (auto simp: serve_health_def split: if_splits)
  from ready_source [OF this assms(4)] h show ?thesis
    by (cases "last runs") (auto split: if_splits)
qed

theorem ready_is_earned_witness:
  "\<exists>before at. last [(1 :: int, 2 :: int, None :: go_error option)] = (before, at, None) \<and> 4 - at < 5 \<or>
     fst (run_checks [\<lambda>c (w :: unit). (None, w)] RequestCtx ()) = None"
proof -
  let ?checks = "[\<lambda>c (w :: unit). (None :: go_error option, w)]"
  have run: "health_run [Probe ''/readyz'' RequestCtx 1 2] (NewHealth 5 ?checks) () =
      ([(1, 2, None)], (NewHealth 5 ?checks)\<lparr>h_cache := Some (2, None)\<rparr>, ())"
    by (simp add: serve_health_def readyHandler_def check_def fresh_def NewHealth_def)
  have probe: "serve_health ((NewHealth 5 ?checks)\<lparr>h_cache := Some (2, None)\<rparr>) ''/healthz'' RequestCtx 4 4 () =
      Some (\<lparr>out_status = 200, out_headers = [(''Content-Type'', ''application/json'')],
        out_body = json_text ''{`status`:`ready`}''\<rparr>, (NewHealth 5 ?checks)\<lparr>h_cache := Some (2, None)\<rparr>, ())"
    by (simp add: serve_health_def readyHandler_def check_def fresh_def NewHealth_def)
  from ready_is_earned [OF run probe] show ?thesis by simp
qed

text \<open>
  Once the process is shutting down, every probe answers 503 and no check is run any more.
\<close>

theorem shutdown_is_final:
  "fst (health_run ops (MarkShuttingDown h) w) = [] \<and>
   (case serve_health (fst (snd (health_run ops (MarkShuttingDown h) w))) path c t0 t1 w' of
      None \<Rightarrow> path \<notin> {''/livez'', ''/readyz'', ''/healthz'', ''/health''}
    | Some (rep, h', w'') \<Rightarrow> out_status rep = 503 \<and> w'' = w')"
proof -
  have "h_shutdown (MarkShuttingDown h)" by (simp add: MarkShuttingDown_def)
  from shutdown_stays [OF this, of ops w] show ?thesis
    by (simp add: serve_health_def live_def readyHandler_def http_Error_def)
qed

end
