(* ===== verification/Auth.thy ===== *)
theory Auth
  imports Domain_Model
begin

text \<open>
  \<open>internal/auth/auth.go\<close>: the \<open>Authenticator\<close> interface and its two implementations.
  A request is represented by the value of its \<open>Authorization\<close> header, empty when absent,
  the only part of it an authenticator reads. The interface is the locale
  \<open>authenticator_contract\<close>; the transports rely on its laws.
\<close>

type_synonym TenantID = string

definition SelfTenant :: TenantID where
  "SelfTenant = ''self''"

definition ErrUnauthenticated :: go_error where
  "ErrUnauthenticated = EText ''unauthenticated''"

datatype Authenticator =
    AlwaysAllow
  | SharedBearer string    \<comment> \<open>the expected token\<close>

definition NewSharedBearer :: "string \<Rightarrow> Authenticator" where
  "NewSharedBearer token = SharedBearer token"

definition ConstantTimeCompare :: "string \<Rightarrow> string \<Rightarrow> int" where
  \<comment> \<open>crypto/subtle: 1 when both slices have equal contents, 0 otherwise\<close>
  "ConstantTimeCompare x y =
     (if length x \<noteq> length y then 0
      else if list_all (\<lambda>(a, b). a = b) (zip x y) then 1 else 0)"

fun Authenticate :: "Authenticator \<Rightarrow> string \<Rightarrow> go_error + TenantID" where
  "Authenticate AlwaysAllow h = Inr SelfTenant"
| "Authenticate (SharedBearer expected) h =
     (if \<not> has_prefix h ''Bearer '' then Inl ErrUnauthenticated
      else let got = trim_prefix h ''Bearer '' in
        if ConstantTimeCompare got expected \<noteq> 1 then Inl ErrUnauthenticated
        else Inr SelfTenant)"

locale authenticator_contract =
  fixes authn :: "string \<Rightarrow> go_error + TenantID"
  assumes tenant: "authn h = Inr t \<Longrightarrow> t = SelfTenant"
    and failure: "authn h = Inl e \<Longrightarrow> e = ErrUnauthenticated"
begin

lemma authn_cases: "authn h = Inr SelfTenant \<or> authn h = Inl ErrUnauthenticated"
  using tenant failure by (cases "authn h") auto

end

lemma ConstantTimeCompare_iff: "ConstantTimeCompare x y = 1 \<longleftrightarrow> x = y"
proof -
  have "length x = length y \<Longrightarrow> list_all (\<lambda>(a, b). a = b) (zip x y) \<longleftrightarrow> x = y"
    by (induction x y rule: list_induct2) auto
  then show ?thesis by (auto simp: ConstantTimeCompare_def)
qed

interpretation auth: authenticator_contract "Authenticate a" for a
  by unfold_locales (cases a; auto simp: Let_def split: if_splits)+

lemma SharedBearer_accepts:
  "Authenticate (SharedBearer token) h = Inr t \<longleftrightarrow> h = ''Bearer '' @ token \<and> t = SelfTenant"
proof (cases "has_prefix h ''Bearer ''")
  case True
  then obtain r where "h = ''Bearer '' @ r" unfolding has_prefix_iff by blast
  then show ?thesis
    by (auto simp: Let_def ConstantTimeCompare_iff trim_prefix_append simp del: append_Cons)
next
  case False
  then have "h \<noteq> ''Bearer '' @ token" by auto
  with False show ?thesis by simp
qed

text \<open>
  A shared-bearer authenticator accepts a request exactly when its Authorization header
  is the word Bearer, one space and the configured token; every other header is refused
  with the one unauthenticated error.
\<close>

theorem NewSharedBearer_exact:
  "Authenticate (NewSharedBearer token) h =
     (if h = ''Bearer '' @ token then Inr SelfTenant else Inl ErrUnauthenticated)"
proof (cases "h = ''Bearer '' @ token")
  case True
  then have "Authenticate (SharedBearer token) h = Inr SelfTenant"
    by (simp only: SharedBearer_accepts simp_thms)
  with True show ?thesis by (simp only: NewSharedBearer_def simp_thms if_True)
next
  case False
  then have "Authenticate (SharedBearer token) h \<noteq> Inr SelfTenant"
    by (simp only: SharedBearer_accepts simp_thms)
  with auth.authn_cases [of "SharedBearer token" h]
  have "Authenticate (SharedBearer token) h = Inl ErrUnauthenticated" by (simp only: simp_thms)
  with False show ?thesis by (simp only: NewSharedBearer_def if_False)
qed

end
