(* ===== verification/Openwebui.thy ===== *)
theory Openwebui
  imports Registry Observability Auth
begin

text \<open>
  \<open>internal/transport/openwebui/server.go\<close>: the loader endpoint.  Everything before the crawls is
  the function \<open>crawl_prepare\<close>; the goroutines, one per URL, and the wait group are a step relation
  whose interleavings are all orders in which the crawls can run; \<open>crawl_outcome\<close> is the whole
  handler.  A goroutine sees an arbitrary state of the world, so that whatever the other goroutines
  do to it is covered.  A panic in a goroutine is not recovered by \<open>net/http\<close>: it ends the process.
\<close>

section \<open>The server\<close>

definition maxBodySize :: nat where "maxBodySize = 1048576"

record 'w Loader =
  ow_registry :: "'w Registry"
  ow_auth :: Authenticator
  ow_metrics :: bool
  ow_maxURLsPerReq :: int
  ow_blockPrivate :: bool
  ow_redditDefaults :: Options

definition NewLoader :: "'w Registry \<Rightarrow> Authenticator \<Rightarrow> bool \<Rightarrow> int \<Rightarrow> bool \<Rightarrow> Options \<Rightarrow> 'w Loader" where
  "NewLoader registry authn metrics maxURLs block defaults =
     \<lparr>ow_registry = registry, ow_auth = authn, ow_metrics = metrics,
      ow_maxURLsPerReq = (if maxURLs \<le> 0 then 30 else maxURLs),
      ow_blockPrivate = block, ow_redditDefaults = defaults\<rparr>"

definition dec_loaderRequest :: "string list decoder" where
  \<comment> \<open>the one field of loaderRequest\<close>
  "dec_loaderRequest = dec_struct [(''urls'', dec_slice dec_string [])]"

record loaderDocument =
  ld_PageContent :: string
  ld_Metadata :: "string \<rightharpoonup> string"

definition zero_loaderDocument :: loaderDocument where
  "zero_loaderDocument = \<lparr>ld_PageContent = [], ld_Metadata = Map.empty\<rparr>"

definition loaderDocument_json :: "loaderDocument \<Rightarrow> json" where
  "loaderDocument_json d = JObj [(''page_content'', JStr (ld_PageContent d)), (''metadata'', json_of_map (ld_Metadata d))]"

definition writeError :: "int \<Rightarrow> string \<Rightarrow> http_reply" where
  "writeError code msg = json_reply code (JObj [(''error'', JStr msg)])"

section \<open>Options of a request\<close>

definition Sscan_int :: "string \<Rightarrow> int option" where
  \<comment> \<open>fmt.Sscanf(s, "%d", &n): white space except a line break, a sign, digits; the rest is ignored\<close>
  "Sscan_int s =
     (let t = strip (removeAll [CHR 0x0A] unicode_spaces) s;
          (sg, u) = (case t of c # v \<Rightarrow> if c = CHR ''-'' \<or> c = CHR ''+'' then ([c], v) else ([], t) | [] \<Rightarrow> ([], []));
          ds = takeWhile is_digit u
      in if ds = [] then None else Atoi (sg @ ds))"

definition parseIntDefault :: "string \<Rightarrow> int \<Rightarrow> int" where
  "parseIntDefault s fallback = (case Sscan_int s of
       None \<Rightarrow> fallback
     | Some n \<Rightarrow> if n < 0 then fallback else n)"

definition buildEngineOptions :: "'w Loader \<Rightarrow> string \<Rightarrow> EngineOptions" where
  "buildEngineOptions srv q =
     (let d = ow_redditDefaults srv;
          opts = \<lparr>RedditKeepDepth = KeepDepth d, RedditKeepCreated = KeepCreated d,
            RedditMaxRounds = MaxRounds d, RedditFormat = Format d\<rparr>;
          f = query_Get q ''format'';
          opts = (if f = ''json'' \<or> f = ''toon'' then opts\<lparr>RedditFormat := f\<rparr> else opts);
          opts = (if query_Get q ''depth'' = ''1'' then opts\<lparr>RedditKeepDepth := True\<rparr> else opts);
          opts = (if query_Get q ''nocreated'' = ''1'' then opts\<lparr>RedditKeepCreated := False\<rparr> else opts);
          ex = query_Get q ''expand''
      in if ex = [] then opts
         else if ex \<in> {''full'', ''all'', ''max''} then opts\<lparr>RedditMaxRounds := MaxExpansionRounds\<rparr>
         else opts\<lparr>RedditMaxRounds := parseIntDefault ex (RedditMaxRounds opts)\<rparr>)"

section \<open>Before the crawls\<close>

fun validate_urls :: "'w sys \<Rightarrow> bool \<Rightarrow> string list \<Rightarrow> 'w \<Rightarrow> string option \<times> 'w" where
  \<comment> \<open>the first URL that the guard rejects\<close>
  "validate_urls S block [] w = (None, w)"
| "validate_urls S block (u # us) w = (case ValidateURL S u block w of
       (Some err, w1) \<Rightarrow> (Some u, w1)
     | (None, w1) \<Rightarrow> validate_urls S block us w1)"

record job =
  job_urls :: "string list"
  job_opts :: EngineOptions
  job_tenant :: TenantID

definition crawl_prepare :: "'w sys \<Rightarrow> 'w Loader \<Rightarrow> http_in \<Rightarrow> 'w \<Rightarrow> (http_reply + job) \<times> 'w" where
  "crawl_prepare S srv r w =
     (if in_method r \<noteq> ''POST'' then (Inl (writeError 405 ''method not allowed''), w)
      else case Authenticate (ow_auth srv) (in_authorization r) of
        Inl err \<Rightarrow> (Inl (writeError 401 ''invalid or missing API key''), w)
      | Inr tenant \<Rightarrow> (case Decode_limited maxBodySize dec_loaderRequest r [] of
          None \<Rightarrow> (Inl (writeError 400 ''invalid JSON body''), w)
        | Some urls \<Rightarrow>
           (if urls = [] then (Inl (writeError 400 ''urls array is empty''), w)
            else if ow_maxURLsPerReq srv < int (length urls) then
              (Inl (writeError 400 (''too many URLs ('' @ Itoa (int (length urls)) @ ''), max '' @ Itoa (ow_maxURLsPerReq srv))), w)
            else case validate_urls S (ow_blockPrivate srv) urls w of
                (Some u, w1) \<Rightarrow> (Inl (writeError 400 (''invalid URL '' @ go_quote u)), w1)
              | (None, w1) \<Rightarrow> (Inr \<lparr>job_urls = urls, job_opts = buildEngineOptions srv (in_query r), job_tenant = tenant\<rparr>, w1))))"

section \<open>One crawl\<close>

definition crawlOne :: "'w sys \<Rightarrow> 'w Loader \<Rightarrow> string \<Rightarrow> EngineOptions \<Rightarrow> TenantID \<Rightarrow> 'w \<Rightarrow> loaderDocument res \<times> 'w" where
  "crawlOne S srv rawURL opts tenant w =
     (let engName = (case Resolve (ow_registry srv) rawURL of None \<Rightarrow> ''unknown'' | Some e \<Rightarrow> en_Name e);
          obs = (\<lambda>status reason w. if ow_metrics srv then Observe S engName tenant status reason w else w)
      in case Registry_Crawl S (ow_registry srv) RequestCtx rawURL opts w of
           (Panic m, w1) \<Rightarrow> (Panic m, w1)
         | (Fail err, w1) \<Rightarrow>
             (Ok \<lparr>ld_PageContent = ''Error crawling URL (see server logs for details)'',
                ld_Metadata = [''source'' \<mapsto> rawURL, ''error'' \<mapsto> ''true'']\<rparr>,
              obs ''error'' (Reason (Some err)) w1)
         | (Ok doc, w1) \<Rightarrow>
             (Ok \<lparr>ld_PageContent = PageContent doc, ld_Metadata = Metadata doc\<rparr>, obs ''ok'' ''ok'' w1))"

section \<open>The goroutines\<close>

datatype phase = Spawning | Replied | Crashed

record gstate =
  g_next :: nat                        \<comment> \<open>how many goroutines the loop has started\<close>
  g_running :: "nat list"              \<comment> \<open>the goroutines that have not finished\<close>
  g_count :: nat                       \<comment> \<open>the counter of the wait group\<close>
  g_results :: "loaderDocument list"
  g_phase :: phase

definition ginit :: "nat \<Rightarrow> gstate" where
  "ginit n = \<lparr>g_next = 0, g_running = [], g_count = 0, g_results = replicate n zero_loaderDocument, g_phase = Spawning\<rparr>"

inductive gstep :: "(nat \<Rightarrow> loaderDocument res \<Rightarrow> bool) \<Rightarrow> nat \<Rightarrow> gstate \<Rightarrow> gstate \<Rightarrow> bool"
  for run :: "nat \<Rightarrow> loaderDocument res \<Rightarrow> bool" and n :: nat where
  spawn: "g_phase s = Spawning \<Longrightarrow> g_next s < n \<Longrightarrow>
    gstep run n s (s\<lparr>g_next := g_next s + 1, g_running := g_next s # g_running s, g_count := g_count s + 1\<rparr>)"
| finish: "g_phase s = Spawning \<Longrightarrow> i \<in> set (g_running s) \<Longrightarrow> run i (Ok d) \<Longrightarrow>
    gstep run n s (s\<lparr>g_running := remove1 i (g_running s), g_count := g_count s - 1, g_results := (g_results s)[i := d]\<rparr>)"
| crash: "g_phase s = Spawning \<Longrightarrow> i \<in> set (g_running s) \<Longrightarrow> run i (Panic m) \<Longrightarrow>
    gstep run n s (s\<lparr>g_phase := Crashed\<rparr>)"
| wait: "g_phase s = Spawning \<Longrightarrow> g_next s = n \<Longrightarrow> g_count s = 0 \<Longrightarrow>
    gstep run n s (s\<lparr>g_phase := Replied\<rparr>)"

definition greachable :: "(nat \<Rightarrow> loaderDocument res \<Rightarrow> bool) \<Rightarrow> nat \<Rightarrow> gstate \<Rightarrow> bool" where
  "greachable run n s \<longleftrightarrow> (gstep run n)\<^sup>*\<^sup>* (ginit n) s"

definition goroutine :: "'w sys \<Rightarrow> 'w Loader \<Rightarrow> job \<Rightarrow> nat \<Rightarrow> loaderDocument res \<Rightarrow> bool" where
  \<comment> \<open>what the goroutine of one index can end with\<close>
  "goroutine S srv j i r \<longleftrightarrow> (\<exists>w. r = fst (crawlOne S srv (job_urls j ! i) (job_opts j) (job_tenant j) w))"

definition loader_reply :: "loaderDocument list \<Rightarrow> http_reply" where
  "loader_reply ds = json_reply 200 (JArr (map loaderDocument_json ds))"

inductive crawl_outcome :: "'w sys \<Rightarrow> 'w Loader \<Rightarrow> http_in \<Rightarrow> 'w \<Rightarrow> http_reply option \<Rightarrow> bool"
  for S :: "'w sys" and srv :: "'w Loader" and r :: http_in and w :: 'w where
  \<comment> \<open>None: the process dies\<close>
  refused: "fst (crawl_prepare S srv r w) = Inl answer \<Longrightarrow> crawl_outcome S srv r w (Some answer)"
| replied: "fst (crawl_prepare S srv r w) = Inr j \<Longrightarrow> greachable (goroutine S srv j) (length (job_urls j)) s \<Longrightarrow>
    g_phase s = Replied \<Longrightarrow> crawl_outcome S srv r w (Some (loader_reply (g_results s)))"
| crashed: "fst (crawl_prepare S srv r w) = Inr j \<Longrightarrow> greachable (goroutine S srv j) (length (job_urls j)) s \<Longrightarrow>
    g_phase s = Crashed \<Longrightarrow> crawl_outcome S srv r w None"

inductive_simps crawl_outcome_iff: "crawl_outcome S srv r w answer"
inductive_cases gstep_cases: "gstep run n s s'"

definition RegisterLoader :: "string list" where
  "RegisterLoader = [''/crawl'']"

section \<open>Invariant of the goroutines\<close>

definition ginv :: "(nat \<Rightarrow> loaderDocument res \<Rightarrow> bool) \<Rightarrow> nat \<Rightarrow> gstate \<Rightarrow> bool" where
  "ginv run n s \<longleftrightarrow> g_next s \<le> n \<and> distinct (g_running s) \<and> set (g_running s) \<subseteq> {..<g_next s} \<and>
     g_count s = length (g_running s) \<and> length (g_results s) = n \<and>
     (\<forall>i < g_next s. i \<notin> set (g_running s) \<longrightarrow> run i (Ok (g_results s ! i))) \<and>
     (g_phase s = Replied \<longrightarrow> g_next s = n \<and> g_running s = [])"

lemma ginv_init: "ginv run n (ginit n)"
  by (simp add: ginv_def ginit_def)

lemma ginv_step: "gstep run n s s' \<Longrightarrow> ginv run n s \<Longrightarrow> ginv run n s'"
proof (induction rule: gstep.induct)
  case (spawn s)
  then show ?case by (auto simp: ginv_def less_Suc_eq)
next
  case (finish s i d)
  then have "i < length (g_results s)" by (auto simp: ginv_def)
  with finish show ?case
    by (auto simp: ginv_def nth_list_update length_remove1 dest: in_set_remove1 notin_set_remove1)
next
  case (crash s i m)
  then show ?case by (auto simp: ginv_def)
next
  case (wait s)
  then show ?case by (auto simp: ginv_def)
qed

lemma ginv_reachable: "greachable run n s \<Longrightarrow> ginv run n s"
  unfolding greachable_def by (induction rule: rtranclp_induct) (auto intro: ginv_init ginv_step)

definition gmeasure :: "nat \<Rightarrow> gstate \<Rightarrow> nat" where
  "gmeasure n s = 2 * (n - g_next s) + length (g_running s) + (if g_phase s = Spawning then 1 else 0)"

lemma gstep_decreases: "gstep run n s s' \<Longrightarrow> ginv run n s \<Longrightarrow> gmeasure n s' < gmeasure n s"
proof (induction rule: gstep.induct)
  case (finish s i d)
  then have "0 < length (g_running s)" by (cases "g_running s") auto
  with finish show ?case by (auto simp: gmeasure_def length_remove1)
qed (auto simp: gmeasure_def)

lemma gsteps_bound: "(gstep run n ^^ k) (ginit n) s \<Longrightarrow> greachable run n s \<and> k + gmeasure n s \<le> 2 * n + 1"
proof (induction k arbitrary: s)
  case 0
  then have "s = ginit n" by simp
  then show ?case by (simp add: greachable_def gmeasure_def ginit_def)
next
  case (Suc k)
  then obtain t where t: "(gstep run n ^^ k) (ginit n) t" "gstep run n t s" by auto
  from Suc.IH [OF t(1)] gstep_decreases [OF t(2) ginv_reachable] t(2)
  show ?case unfolding greachable_def by (auto intro: rtranclp.rtrancl_into_rtrancl)
qed

lemma gstep_exists:
  assumes "ginv run n s" "g_phase s = Spawning" "\<And>i. i < n \<Longrightarrow> \<exists>r. run i r \<and> (\<forall>e. r \<noteq> Fail e)"
  shows "\<exists>s'. gstep run n s s'"
proof (cases "g_running s")
  case Nil
  then have "g_count s = 0" "g_next s \<le> n" using assms(1) by (auto simp: ginv_def)
  then show ?thesis
    using gstep.spawn [OF assms(2), of n run] gstep.wait [OF assms(2), of n run] by (cases "g_next s < n") auto
next
  case (Cons i rest)
  then have i: "i \<in> set (g_running s)" "i < n" using assms(1) by (auto simp: ginv_def)
  obtain r where "run i r" "\<forall>e. r \<noteq> Fail e" using assms(3) [OF i(2)] by blast
  then show ?thesis using gstep.finish [OF assms(2) i(1)] gstep.crash [OF assms(2) i(1)] by (cases r) blast+
qed

lemma goroutines_end:
  assumes "greachable run n s" "\<And>i. i < n \<Longrightarrow> \<exists>r. run i r \<and> (\<forall>e. r \<noteq> Fail e)"
  shows "\<exists>s'. greachable run n s' \<and> g_phase s' \<noteq> Spawning"
  using assms(1)
proof (induction "gmeasure n s" arbitrary: s rule: less_induct)
  case less
  show ?case
  proof (cases "g_phase s = Spawning")
    case True
    have inv: "ginv run n s" using less(2) by (rule ginv_reachable)
    obtain s' where s': "gstep run n s s'" using gstep_exists [OF inv True assms(2)] by blast
    moreover from less(2) s' have "greachable run n s'"
      unfolding greachable_def by (rule rtranclp.rtrancl_into_rtrancl)
    ultimately show ?thesis using less(1) gstep_decreases [OF s' inv] by blast
  qed (use less(2) in blast)
qed

section \<open>Lemmas\<close>

lemma crawlOne_not_Fail: "fst (crawlOne S srv u opts tenant w) \<noteq> Fail e"
  by (auto simp: crawlOne_def Let_def split: res.splits prod.splits)

lemma goroutine_total: "\<exists>r. goroutine S srv j i r \<and> (\<forall>e. r \<noteq> Fail e)"
  by (intro exI [of _ "fst (crawlOne S srv (job_urls j ! i) (job_opts j) (job_tenant j) undefined)"])
     (auto simp: goroutine_def crawlOne_not_Fail)

text \<open>The handler always comes to an end.\<close>

lemma crawl_outcome_total: "\<exists>out. crawl_outcome S srv r w out"
proof (cases "fst (crawl_prepare S srv r w)")
  case (Inl answer)
  then show ?thesis by (blast intro: crawl_outcome.refused)
next
  case (Inr j)
  have "greachable (goroutine S srv j) (length (job_urls j)) (ginit (length (job_urls j)))"
    by (simp add: greachable_def)
  from goroutines_end [OF this goroutine_total] obtain s
    where "greachable (goroutine S srv j) (length (job_urls j)) s" "g_phase s \<noteq> Spawning" by blast
  then show ?thesis
    using crawl_outcome.replied [OF Inr] crawl_outcome.crashed [OF Inr] by (cases "g_phase s") blast+
qed

lemma crawl_outcome_status:
  assumes "crawl_outcome S srv r w (Some answer)"
  shows "out_status answer \<in> {200, 400, 401, 405}"
  using assms
proof cases
  case refused
  then show ?thesis
    by (auto simp: crawl_prepare_def writeError_def json_reply_def split: if_splits sum.splits option.splits prod.splits)
qed (simp add: loader_reply_def json_reply_def)

context engine_contract
begin

lemma document_has_source:
  assumes "crawl = Registry_Crawl S (ow_registry srv)" "fst (crawlOne S srv u opts tenant w) = Ok d"
  shows "ld_Metadata d ''source'' \<noteq> None"
  using assms(2) has_source [of RequestCtx u opts w] unfolding assms(1)
  by (auto simp: crawlOne_def Let_def split: res.splits prod.splits)

end

lemma validate_urls_lookups: "emits (list_all is_lookup) (validate_urls (logged S) b us (w, l)) l"
proof (induction us arbitrary: w l)
  case (Cons u us)
  obtain v w1 ls where v: "ValidateURL (logged S) u b (w, l) = (v, (w1, l @ ls))" "list_all is_lookup ls"
    using ValidateURL_lookups [of S u b w l]
    by (cases "ValidateURL (logged S) u b (w, l)") (auto simp: emits_def)
  with Cons.IH [of w1 "l @ ls"] show ?case by (cases v) (auto simp: emits_def)
qed (simp add: emits_def)

lemma validate_urls_None:
  "fst (validate_urls S b us w) = None \<Longrightarrow> u \<in> set us \<Longrightarrow> \<exists>w'. fst (ValidateURL S u b w') = None"
proof (induction us arbitrary: w)
  case (Cons a us)
  then show ?case by (auto split: prod.splits option.splits) (metis fst_conv)+
qed simp

lemma crawl_prepare_Inr:
  assumes "fst (crawl_prepare S srv r w) = Inr j"
  shows "in_method r = ''POST'' \<and> Authenticate (ow_auth srv) (in_authorization r) = Inr (job_tenant j) \<and>
    job_urls j \<noteq> [] \<and> int (length (job_urls j)) \<le> ow_maxURLsPerReq srv \<and>
    (\<forall>u \<in> set (job_urls j). \<exists>w. fst (ValidateURL S u (ow_blockPrivate srv) w) = None)"
  using assms
  by (auto simp: crawl_prepare_def split: if_splits sum.splits option.splits prod.splits)
     (metis fst_conv validate_urls_None)

lemma crawl_outcome_dies:
  "crawl_outcome S srv r w None \<Longrightarrow> in_method r = ''POST'' \<and> (\<exists>t. Authenticate (ow_auth srv) (in_authorization r) = Inr t)"
  by (erule crawl_outcome.cases) (auto dest: crawl_prepare_Inr)

lemma crawl_prepare_refused:
  "Authenticate (ow_auth srv) (in_authorization r) = Inl e \<Longrightarrow>
     \<exists>answer. crawl_prepare S srv r w = (Inl answer, w) \<and> out_status answer \<in> {401, 405}"
  by (auto simp: crawl_prepare_def writeError_def json_reply_def)

lemma crawl_prepare_200: "fst (crawl_prepare S srv r w) = Inl answer \<Longrightarrow> out_status answer \<noteq> 200"
  by (auto simp: crawl_prepare_def writeError_def json_reply_def split: if_splits sum.splits option.splits prod.splits)

section \<open>A request\<close>

definition example_post_of :: "string \<Rightarrow> http_in" where
  "example_post_of u = \<lparr>in_method = ''POST'', in_authorization = ''Bearer secret'', in_query = [],
     in_body = Marshal (JObj [(''urls'', JArr [JStr u])]), in_read_err = None\<rparr>"

lemma length_encode_body: "list_all is_ascii s \<Longrightarrow> length (encode_body s) \<le> 6 * length s"
proof (induction s)
  case (Cons c s)
  have "length (escape_ascii c) \<le> 6" by (simp add: escape_ascii_def u_escape_def)
  with Cons show ?case by (simp add: encode_body.simps(2))
qed simp

lemma example_prepare:
  assumes "list_all is_ascii u" "length u < 1000" "well_formed_target u"
    and "ow_auth srv = NewSharedBearer ''secret''" "\<not> ow_blockPrivate srv" "1 \<le> ow_maxURLsPerReq srv"
  shows "\<exists>j. fst (crawl_prepare S srv (example_post_of u) w) = Inr j \<and> job_urls j = [u]"
proof -
  let ?j = "JObj [(''urls'', JArr [JStr u])]"
  have "json_parse (Marshal ?j) = Some ?j"
    using assms(1) by (intro json_parse_Marshal) (simp add: wf_json_eval valid_utf8_ascii)
  moreover have "length (Marshal ?j) \<le> maxBodySize"
  proof -
    have "length (Marshal ?j) \<le> 6 * length u + 20"
      using length_encode_body [OF assms(1)] by (simp add: encode_string_def encode_body.simps(2) is_ascii_def escape_ascii_def)
    with assms(2) show ?thesis by (simp add: maxBodySize_def)
  qed
  ultimately have "Decode_limited maxBodySize dec_loaderRequest (example_post_of u) [] = dec_loaderRequest ?j []"
    by (intro Decode_whole) (simp_all add: example_post_of_def)
  then have d: "Decode_limited maxBodySize dec_loaderRequest (example_post_of u) [] = Some [u]"
    by (simp add: dec_loaderRequest_def find_field_def)
  have a: "Authenticate (ow_auth srv) (in_authorization (example_post_of u)) = Inr SelfTenant"
    using SharedBearer_accepts [of "''secret''" "''Bearer secret''" SelfTenant] assms(4)
    by (simp add: example_post_of_def NewSharedBearer_def del: Authenticate.simps)
  obtain w1 where "ValidateURL S u False w = (None, w1)"
    using assms(3) ValidateURL_open_iff [of S u w] by (cases "ValidateURL S u False w") auto
  with d a assms(5,6) show ?thesis
    by (simp add: crawl_prepare_def) (simp add: example_post_of_def)
qed

definition example_loader :: "'w Loader" where
  "example_loader = NewLoader NewRegistry (NewSharedBearer ''secret'') False 0 False
     \<lparr>KeepDepth = False, KeepCreated = True, MaxRounds = 3, Format = ''toon''\<rparr>"

lemma example_outcome:
  "\<exists>ds. crawl_outcome (steady (reply 200 [])) example_loader (example_post_of ''http://a.b/'') () (Some (loader_reply ds))"
proof -
  let ?S = "steady (reply 200 [])" and ?u = "''http://a.b/''"
  have url: "list_all is_ascii ?u" "length ?u < 1000" "well_formed_target ?u" by code_simp+
  obtain j where j: "fst (crawl_prepare ?S example_loader (example_post_of ?u) ()) = Inr j" "job_urls j = [?u]"
    using example_prepare [OF url, of example_loader ?S "()"] by (auto simp: example_loader_def NewLoader_def)
  let ?run = "goroutine ?S example_loader j"
  have "\<exists>d. fst (crawlOne ?S example_loader ?u (job_opts j) (job_tenant j) ()) = Ok d"
    by (simp add: crawlOne_def Registry_Crawl_def example_loader_def NewLoader_def NewRegistry_def Resolve_def Let_def
        split: prod.splits option.splits)
  then obtain d where "fst (crawlOne ?S example_loader ?u (job_opts j) (job_tenant j) ()) = Ok d" by blast
  then have d: "?run 0 (Ok d)" unfolding goroutine_def j(2) by (intro exI [of _ "()"]) simp
  let ?a = "(ginit 1)\<lparr>g_next := 1, g_running := [0], g_count := 1\<rparr>"
  let ?b = "?a\<lparr>g_running := [], g_count := 0, g_results := [d]\<rparr>"
  have s1: "gstep ?run 1 (ginit 1) ?a" using gstep.spawn [of "ginit 1" 1 ?run] by (simp add: ginit_def)
  have s2: "gstep ?run 1 ?a ?b" using gstep.finish [of ?a 0 ?run d 1] d by (simp add: ginit_def)
  have s3: "gstep ?run 1 ?b (?b\<lparr>g_phase := Replied\<rparr>)" by (rule gstep.wait) (simp_all add: ginit_def)
  have "greachable ?run 1 (?b\<lparr>g_phase := Replied\<rparr>)"
    unfolding greachable_def using s1 s2 s3 by (meson converse_rtranclp_into_rtranclp rtranclp.rtrancl_refl)
  with j show ?thesis
    using crawl_outcome.replied [of ?S example_loader "example_post_of ?u" "()" j "?b\<lparr>g_phase := Replied\<rparr>"] by auto
qed

section \<open>Properties\<close>

text \<open>
  C6: However the goroutines interleave, a 200 answer of the loader has one document per requested
  URL, in the order of the request; each is what the crawl of its own URL ended with, and each
  names its source, whether the crawl succeeded or not.
\<close>

theorem loader_documents:
  assumes "crawl_outcome S srv r w (Some answer)" "out_status answer = 200"
    and "engine_contract (Registry_Crawl S (ow_registry srv))"
  shows "\<exists>j ds. fst (crawl_prepare S srv r w) = Inr j \<and> answer = loader_reply ds \<and>
    length ds = length (job_urls j) \<and>
    (\<forall>i < length ds. ld_Metadata (ds ! i) ''source'' \<noteq> None \<and>
       (\<exists>w'. fst (crawlOne S srv (job_urls j ! i) (job_opts j) (job_tenant j) w') = Ok (ds ! i)))"
  using assms(1)
proof (cases rule: crawl_outcome.cases)
  case refused
  with assms(2) show ?thesis by (auto dest: crawl_prepare_200)
next
  case (replied j s)
  have inv: "ginv (goroutine S srv j) (length (job_urls j)) s" using replied(3) by (rule ginv_reachable)
  have "\<exists>w'. fst (crawlOne S srv (job_urls j ! i) (job_opts j) (job_tenant j) w') = Ok (g_results s ! i)"
    if "i < length (job_urls j)" for i
    using inv that replied(4) by (auto simp: ginv_def goroutine_def) metis
  moreover from this have "ld_Metadata (g_results s ! i) ''source'' \<noteq> None" if "i < length (job_urls j)" for i
    using that engine_contract.document_has_source [OF assms(3) refl] by blast
  moreover have "length (g_results s) = length (job_urls j)" using inv by (simp add: ginv_def)
  ultimately show ?thesis
    using replied(1,2) by (intro exI [of _ j] exI [of _ "g_results s"]) auto
qed

theorem loader_documents_witness:
  "\<exists>j (ds :: loaderDocument list). fst (crawl_prepare (steady (reply 200 [])) example_loader (example_post_of ''http://a.b/'') ()) = Inr j \<and>
     length ds = length (job_urls j)"
proof -
  obtain ds where o: "crawl_outcome (steady (reply 200 [])) example_loader (example_post_of ''http://a.b/'') () (Some (loader_reply ds))"
    using example_outcome by blast
  have s: "out_status (loader_reply ds) = 200" by (simp add: loader_reply_def json_reply_def)
  have c: "engine_contract (Registry_Crawl (steady (reply 200 [])) (ow_registry example_loader))"
    by (rule registry_contract) (simp add: engines_of_def example_loader_def NewLoader_def NewRegistry_def)
  from loader_documents [OF o s c] show ?thesis by (elim exE conjE) (intro exI conjI)
qed



text \<open>
  C8: Nothing is crawled for a request that is not a POST with valid credentials and between one
  and the maximum number of URLs, every one of which the SSRF guard accepts; a refused request
  causes at most name lookups, and none at all without valid credentials.
\<close>

theorem loader_admission:
  "emits (list_all is_lookup) (crawl_prepare (logged S) srv r (w, l)) l \<and>
   ((\<exists>e. Authenticate (ow_auth srv) (in_authorization r) = Inl e) \<longrightarrow>
      snd (crawl_prepare (logged S) srv r (w, l)) = (w, l) \<and>
      (\<exists>answer. fst (crawl_prepare (logged S) srv r (w, l)) = Inl answer \<and> out_status answer \<in> {401, 405})) \<and>
   (case fst (crawl_prepare (logged S) srv r (w, l)) of
      Inl answer \<Rightarrow> out_status answer \<in> {400, 401, 405}
    | Inr j \<Rightarrow> in_method r = ''POST'' \<and> Authenticate (ow_auth srv) (in_authorization r) = Inr (job_tenant j) \<and>
        int (length (job_urls j)) \<in> {1..ow_maxURLsPerReq srv} \<and>
        (\<forall>u \<in> set (job_urls j). \<exists>w. fst (ValidateURL (logged S) u (ow_blockPrivate srv) w) = None))"
proof (intro conjI impI)
  show "emits (list_all is_lookup) (crawl_prepare (logged S) srv r (w, l)) l"
    using validate_urls_lookups [of S "ow_blockPrivate srv" _ w l]
    by (auto simp: crawl_prepare_def emits_def split: sum.splits option.splits prod.splits) (metis snd_conv)+
next
  assume "\<exists>e. Authenticate (ow_auth srv) (in_authorization r) = Inl e"
  then show "snd (crawl_prepare (logged S) srv r (w, l)) = (w, l)"
    "\<exists>answer. fst (crawl_prepare (logged S) srv r (w, l)) = Inl answer \<and> out_status answer \<in> {401, 405}"
    using crawl_prepare_refused [of srv r _ "logged S" "(w, l)"] by auto
next
  show "case fst (crawl_prepare (logged S) srv r (w, l)) of
      Inl answer \<Rightarrow> out_status answer \<in> {400, 401, 405}
    | Inr j \<Rightarrow> in_method r = ''POST'' \<and> Authenticate (ow_auth srv) (in_authorization r) = Inr (job_tenant j) \<and>
        int (length (job_urls j)) \<in> {1..ow_maxURLsPerReq srv} \<and>
        (\<forall>u \<in> set (job_urls j). \<exists>w. fst (ValidateURL (logged S) u (ow_blockPrivate srv) w) = None)"
  proof (cases "fst (crawl_prepare (logged S) srv r (w, l))")
    case (Inl answer)
    then show ?thesis
      by (auto simp: crawl_prepare_def writeError_def json_reply_def split: if_splits sum.splits option.splits prod.splits)
  next
    case (Inr j)
    from crawl_prepare_Inr [OF Inr] Inr show ?thesis by (auto simp: Suc_le_eq)
  qed
qed

theorem loader_admission_witness:
  "(\<exists>e. Authenticate (ow_auth (example_loader :: (unit \<times> event list) Loader)) [] = Inl e) \<and>
   snd (crawl_prepare (logged (steady (reply 200 []))) example_loader
      \<lparr>in_method = ''POST'', in_authorization = [], in_query = [], in_body = ''x'', in_read_err = None\<rparr> ((), [])) = ((), [])"
proof -
  let ?r = "\<lparr>in_method = ''POST'', in_authorization = [], in_query = [], in_body = ''x'', in_read_err = None\<rparr>"
  have a: "\<exists>e. Authenticate (ow_auth (example_loader :: (unit \<times> event list) Loader)) (in_authorization ?r) = Inl e"
    by (simp add: example_loader_def NewLoader_def NewSharedBearer_def)
  then have "snd (crawl_prepare (logged (steady (reply 200 []))) example_loader ?r ((), [])) = ((), [])"
    using loader_admission [of "steady (reply 200 [])" example_loader ?r "()" "[]"] by blast
  with a show ?thesis by simp
qed

end
