(* ===== verification/Go_Json_Lines.thy ===== *)
theory Go_Json_Lines
  imports Go_Json
begin

text \<open>
  The encoder never writes a line break inside a message, which is what a transport with one
  JSON text per line relies on: strings are escaped, and a number that was read has none.
\<close>

definition one_line :: "string \<Rightarrow> bool" where
  "one_line s \<longleftrightarrow> CHR 0x0A \<notin> set s"

lemma one_line_simps [simp]:
  "one_line []" "one_line (c # s) \<longleftrightarrow> c \<noteq> CHR 0x0A \<and> one_line s" "one_line (s @ t) \<longleftrightarrow> one_line s \<and> one_line t"
  by (auto simp: one_line_def)

lemma one_line_join: "one_line sep \<Longrightarrow> list_all one_line ws \<Longrightarrow> one_line (join_with sep ws)"
  by (induction sep ws rule: join_with.induct) auto

lemma hex_digit_not_newline: "n < 16 \<Longrightarrow> hex_digit n \<noteq> CHR 0x0A"
proof -
  assume "n < 16"
  then have "48 \<le> byte (hex_digit n)" by (simp add: hex_digit_def)
  then show ?thesis by auto
qed

lemma rune_bytes: "1 < rune_len s \<Longrightarrow> one_line (take (rune_len s) s)"
  apply (cases s rule: rune_len.cases)
  by (auto simp: rune_len.simps is_cont_def second_ok_def one_line_def take_Cons' split: if_splits list.splits)

lemma u_escape_one_line: "r < 65536 \<Longrightarrow> one_line (u_escape r)"
  by (simp add: u_escape_def hex_digit_not_newline less_mult_imp_div_less)

lemma encode_body_one_line: "one_line (encode_body s)"
proof (induction s rule: encode_body.induct)
  case (2 c s)
  have e: "is_ascii c \<Longrightarrow> one_line (escape_ascii c)"
    by (auto simp: escape_ascii_def u_escape_def hex_digit_not_newline)
  show ?case
  proof (cases "is_ascii c \<or> rune_len (c # s) = 0")
    case True
    with 2 e show ?thesis by (auto simp: encode_body.simps(2) u_escape_one_line)
  next
    case False
    then have "1 < rune_len (c # s)" using rune_len_1 [of c s] by (metis One_nat_def less_one linorder_neqE_nat)
    then have "one_line (take (rune_len (c # s)) (c # s))" by (rule rune_bytes)
    with 2 False show ?thesis by (simp add: encode_body.simps(2) Let_def u_escape_one_line)
  qed
qed simp

fun one_line_json :: "json \<Rightarrow> bool" where
  "one_line_json (JNum l) \<longleftrightarrow> one_line l"
| "one_line_json (JArr vs) \<longleftrightarrow> list_all one_line_json vs"
| "one_line_json (JObj kvs) \<longleftrightarrow> list_all (\<lambda>(k, v). one_line_json v) kvs"
| "one_line_json v \<longleftrightarrow> True"

lemma Marshal_one_line: "one_line_json j \<Longrightarrow> one_line (Marshal j)"
proof (induction j)
  case (JArr vs)
  then have "list_all one_line (map Marshal vs)" by (auto simp: list_all_iff)
  then show ?case by (simp add: one_line_join)
next
  case (JObj kvs)
  then have "list_all one_line (map (\<lambda>(k, v). encode_string k @ '':'' @ Marshal v) kvs)"
    by (fastforce simp: list_all_iff encode_string_def encode_body_one_line)
  then show ?case by (simp add: one_line_join)
qed (simp_all add: encode_string_def encode_body_one_line)

lemma digits1_one_line: "digits1 s = Some (w, r) \<Longrightarrow> one_line w"
  by (auto simp: digits1_def one_line_def is_digit_def split: if_splits dest!: set_takeWhileD)

lemma number_one_line: "number s = Some (l, t) \<Longrightarrow> one_line l"
  by (auto simp: number_def number_int_def number_frac_def number_exp_def Let_def
      dest!: digits1_one_line split: list.splits if_splits option.splits prod.splits)

lemma scalar_one_line: "scalar s = Some (v, t) \<Longrightarrow> one_line_json v"
  by (auto simp: scalar_def json_literals_def dest: number_one_line split: if_splits option.splits)

lemma one_line_JObj: "one_line_json (JObj kvs) \<longleftrightarrow> list_all (\<lambda>p. one_line_json (snd p)) kvs"
  by (auto simp: list_all_iff)

lemma json_value_one_line:
  "json_value d s = Some (v, t) \<Longrightarrow> one_line_json v"
  "json_elements d s = Some (vs, t) \<Longrightarrow> list_all one_line_json vs"
  "json_members d s = Some (kvs, t) \<Longrightarrow> list_all (\<lambda>p. one_line_json (snd p)) kvs"
proof (induction d s and d s and d s arbitrary: v t and vs t and kvs t rule: json_value_json_elements_json_members.induct)
  case (1 d s)
  from 1(3) show ?case
    by (subst (asm) json_value.simps) (use 1(1,2) in \<open>auto simp: one_line_JObj simp del: one_line_json.simps(3) dest: scalar_one_line split: if_splits\<close>)
next
  case (2 d s)
  from 2(3) show ?case
    by (subst (asm) json_elements.simps) (use 2(1,2) in \<open>auto split: if_splits option.splits prod.splits\<close>)
next
  case (3 d s)
  from 3(3) show ?case
    by (subst (asm) json_members.simps) (use 3(1,2) in \<open>auto split: if_splits option.splits prod.splits\<close>)
qed

lemma json_parse_one_line: "json_parse s = Some v \<Longrightarrow> one_line_json v"
  by (auto simp: json_parse_def dest: json_value_one_line split: option.splits if_splits)

end
