(* ===== verification/Mcp_Server.thy ===== *)
theory Mcp_Server
  imports Go_Http Go_Float Go_Json_Lines Auth
begin

text \<open>
  \<open>internal/transport/mcp/server.go\<close> and \<open>tool.go\<close>: the JSON-RPC 2.0 server over standard input
  and output and over HTTP.  The tools are values of the record \<open>Tool\<close>; the model of the server is
  generic in them as the code is.  A handler that panics ends the dispatch with \<open>Panic\<close>.  Messages
  are JSON values: an \<open>id\<close> is echoed as the value it denotes.
\<close>

section \<open>Tools (tool.go)\<close>

type_synonym args = "string \<rightharpoonup> json"   \<comment> \<open>map[string]any as decoded from JSON\<close>

record ToolResult =
  tr_Text :: string
  tr_Meta :: "string \<rightharpoonup> string"

record 'w Tool =
  t_Name :: string
  t_Description :: string
  t_InputSchema :: json
  t_Handle :: "ctx \<Rightarrow> args \<Rightarrow> 'w \<Rightarrow> ToolResult res \<times> 'w"

definition InvalidParams :: "string \<Rightarrow> go_error" where
  "InvalidParams msg = ParamError msg"

fun any_ok :: "json \<Rightarrow> bool" where
  \<comment> \<open>a value decodes into an interface unless one of its numbers is out of range\<close>
  "any_ok (JNum l) \<longleftrightarrow> ParseFloat l \<noteq> None"
| "any_ok (JArr vs) \<longleftrightarrow> list_all any_ok vs"
| "any_ok (JObj kvs) \<longleftrightarrow> list_all (\<lambda>(k, v). any_ok v) kvs"
| "any_ok v \<longleftrightarrow> True"

section \<open>Messages\<close>

definition ProtocolVersion :: string where
  "ProtocolVersion = ''2024-11-05''"

record rpcRequest =
  rq_JSONRPC :: string
  rq_ID :: "json option"
  rq_Method :: string
  rq_Params :: "json option"

definition zero_rpcRequest :: rpcRequest where
  "zero_rpcRequest = \<lparr>rq_JSONRPC = [], rq_ID = None, rq_Method = [], rq_Params = None\<rparr>"

definition dec_rpcRequest :: "rpcRequest decoder" where
  "dec_rpcRequest = dec_struct
     [(''jsonrpc'', into rq_JSONRPC rq_JSONRPC_update dec_string),
      (''id'', into rq_ID rq_ID_update dec_raw),
      (''method'', into rq_Method rq_Method_update dec_string),
      (''params'', into rq_Params rq_Params_update dec_raw)]"

record rpcError =
  er_Code :: int
  er_Message :: string

record rpcResponse =
  rs_ID :: "json option"
  rs_Result :: "json option"
  rs_Error :: "rpcError option"

definition error_json :: "rpcError \<Rightarrow> json" where
  "error_json e = JObj [(''code'', JNum (Itoa (er_Code e))), (''message'', JStr (er_Message e))]"

definition response_json :: "rpcResponse \<Rightarrow> json" where
  \<comment> \<open>the members marked omitempty are left out when nil\<close>
  "response_json r = JObj ([(''jsonrpc'', JStr ''2.0'')] @
     (case rs_ID r of None \<Rightarrow> [] | Some i \<Rightarrow> [(''id'', i)]) @
     (case rs_Result r of None \<Rightarrow> [] | Some v \<Rightarrow> [(''result'', v)]) @
     (case rs_Error r of None \<Rightarrow> [] | Some e \<Rightarrow> [(''error'', error_json e)]))"

definition codeParseError :: int where "codeParseError = -32700"
definition codeInvalidRequest :: int where "codeInvalidRequest = -32600"
definition codeMethodNotFound :: int where "codeMethodNotFound = -32601"
definition codeInvalidParams :: int where "codeInvalidParams = -32602"
definition codeInternalError :: int where "codeInternalError = -32603"

definition ok :: "json option \<Rightarrow> json \<Rightarrow> rpcResponse" where
  "ok i result = \<lparr>rs_ID = i, rs_Result = Some result, rs_Error = None\<rparr>"

definition errorResp :: "json option \<Rightarrow> int \<Rightarrow> string \<Rightarrow> rpcResponse" where
  "errorResp i code msg =
     \<lparr>rs_ID = i, rs_Result = None, rs_Error = Some \<lparr>er_Code = code, er_Message = msg\<rparr>\<rparr>"

section \<open>The server\<close>

record 'w McpServer =
  ms_tools :: "'w Tool list"
  ms_byName :: "string \<rightharpoonup> 'w Tool"
  ms_auth :: Authenticator
  ms_version :: string        \<comment> \<open>version.Version, stamped at build time\<close>

definition NewMcpServer :: "'w Tool list \<Rightarrow> Authenticator option \<Rightarrow> string \<Rightarrow> 'w McpServer" where
  "NewMcpServer tools authn version =
     \<lparr>ms_tools = tools,
      ms_byName = foldl (\<lambda>m t. m(t_Name t \<mapsto> t)) Map.empty tools,
      ms_auth = (case authn of None \<Rightarrow> AlwaysAllow | Some a \<Rightarrow> a),
      ms_version = version\<rparr>"

definition handleInitialize :: "'w McpServer \<Rightarrow> rpcRequest \<Rightarrow> rpcResponse" where
  "handleInitialize s req = ok (rq_ID req) (JObj
     [(''capabilities'', JObj [(''tools'', JObj [(''listChanged'', JBool False)])]),
      (''protocolVersion'', JStr ProtocolVersion),
      (''serverInfo'', JObj [(''name'', JStr ''omnifeed''), (''version'', JStr (ms_version s))])])"

definition tool_schema :: "'w Tool \<Rightarrow> json" where
  "tool_schema t = JObj [(''name'', JStr (t_Name t)), (''description'', JStr (t_Description t)),
     (''inputSchema'', t_InputSchema t)]"

definition handleToolsList :: "'w McpServer \<Rightarrow> rpcRequest \<Rightarrow> rpcResponse" where
  "handleToolsList s req = ok (rq_ID req) (JObj [(''tools'', JArr (map tool_schema (ms_tools s)))])"

fun dec_args :: "args decoder" where
  \<comment> \<open>entries are added to the map that is there; null makes it nil\<close>
  "dec_args (JObj kvs) m = (if list_all (\<lambda>(k, v). any_ok v) kvs
     then Some (foldl (\<lambda>m (k, v). m(k \<mapsto> v)) m kvs) else None)"
| "dec_args JNull m = Some Map.empty"
| "dec_args j m = None"

definition dec_toolCallParams :: "(string \<times> args) decoder" where
  "dec_toolCallParams = dec_struct
     [(''name'', into fst apfst dec_string), (''arguments'', into snd apsnd dec_args)]"

definition handleToolsCall :: "'w McpServer \<Rightarrow> ctx \<Rightarrow> rpcRequest \<Rightarrow> 'w \<Rightarrow> rpcResponse res \<times> 'w" where
  "handleToolsCall s c req w =
     (case (case rq_Params req of None \<Rightarrow> None | Some j \<Rightarrow> dec_toolCallParams j ([], Map.empty)) of
        None \<Rightarrow> (Ok (errorResp (rq_ID req) codeInvalidParams (''invalid params: '' @ Error json_error)), w)
      | Some (name, arguments) \<Rightarrow>
         (case ms_byName s name of
            None \<Rightarrow> (Ok (errorResp (rq_ID req) codeInvalidParams (''unknown tool: '' @ name)), w)
          | Some tool \<Rightarrow>
             (case t_Handle tool c arguments w of
                (Panic m, w1) \<Rightarrow> (Panic m, w1)
              | (Fail err, w1) \<Rightarrow>
                 (case As_ParamError err of
                    Some msg \<Rightarrow> (Ok (errorResp (rq_ID req) codeInvalidParams msg), w1)
                  | None \<Rightarrow> (Ok (errorResp (rq_ID req) codeInternalError (name @ '' failed'')), w1))
              | (Ok r, w1) \<Rightarrow> (Ok (ok (rq_ID req) (JObj
                  [(''_meta'', json_of_map (tr_Meta r)),
                   (''content'', JArr [JObj [(''text'', JStr (tr_Text r)), (''type'', JStr ''text'')]])])), w1))))"

definition dispatch :: "'w McpServer \<Rightarrow> ctx \<Rightarrow> rpcRequest \<Rightarrow> 'w \<Rightarrow> rpcResponse res \<times> 'w" where
  "dispatch s c req w =
     (if rq_Method req = ''initialize'' then (Ok (handleInitialize s req), w)
      else if rq_Method req \<in> {''initialized'', ''notifications/initialized''} then
        (Ok \<lparr>rs_ID = rq_ID req, rs_Result = None, rs_Error = None\<rparr>, w)
      else if rq_Method req = ''ping'' then (Ok (ok (rq_ID req) (JObj [])), w)
      else if rq_Method req = ''tools/list'' then (Ok (handleToolsList s req), w)
      else if rq_Method req = ''tools/call'' then handleToolsCall s c req w
      else (Ok (errorResp (rq_ID req) codeMethodNotFound (''method not found: '' @ rq_Method req)), w))"

section \<open>Standard input and output\<close>

definition handle_line :: "'w McpServer \<Rightarrow> ctx \<Rightarrow> string \<Rightarrow> 'w \<Rightarrow> rpcResponse option res \<times> 'w" where
  \<comment> \<open>one line: the response that is written, if any\<close>
  "handle_line s c line w =
     (if line = [] then (Ok None, w)
      else case json_Unmarshal dec_rpcRequest line zero_rpcRequest of
          None \<Rightarrow> (Ok (Some (errorResp None codeParseError (Error json_error))), w)
        | Some req \<Rightarrow>
           (if rq_JSONRPC req \<noteq> ''2.0'' then
              (Ok (Some (errorResp (rq_ID req) codeInvalidRequest ''jsonrpc must be 2.0'')), w)
            else case dispatch s c req w of
                (Ok resp, w1) \<Rightarrow> (Ok (if rq_ID req = None then None else Some resp), w1)
              | (Fail e, w1) \<Rightarrow> (Fail e, w1)
              | (Panic m, w1) \<Rightarrow> (Panic m, w1)))"

definition maxLine :: nat where
  "maxLine = 16777216"

definition drop_cr :: "string \<Rightarrow> string" where
  "drop_cr l = (if l \<noteq> [] \<and> last l = CHR 0x0D then butlast l else l)"

definition raw_lines :: "string \<Rightarrow> string list" where
  \<comment> \<open>bufio.ScanLines: an unterminated last line counts unless it is empty\<close>
  "raw_lines s = (let ls = split_at (CHR 0x0A) s in if last ls = [] then butlast ls else ls)"

definition errTooLong :: go_error where
  "errTooLong = EText ''bufio.Scanner: token too long''"

fun serve_lines :: "'w McpServer \<Rightarrow> ctx \<Rightarrow> (nat \<Rightarrow> go_error option) \<Rightarrow> nat \<Rightarrow> string list \<Rightarrow> 'w
    \<Rightarrow> rpcResponse list \<times> unit res \<times> 'w" where
  \<comment> \<open>the loop: what is written, how it ends; the function is ctx.Err() at each line\<close>
  "serve_lines s c ctxErr n [] w = ([], Ok (), w)"
| "serve_lines s c ctxErr n (line # lines) w =
     (if maxLine \<le> length line then ([], Fail errTooLong, w)
      else case ctxErr n of
        Some e \<Rightarrow> ([], Fail e, w)
      | None \<Rightarrow> (case handle_line s c (drop_cr line) w of
          (Ok out, w1) \<Rightarrow> (case serve_lines s c ctxErr (Suc n) lines w1 of
             (outs, r) \<Rightarrow> ((case out of None \<Rightarrow> outs | Some resp \<Rightarrow> resp # outs), r))
        | (Fail e, w1) \<Rightarrow> ([], Fail e, w1)
        | (Panic m, w1) \<Rightarrow> ([], Panic m, w1)))"

definition ServeStdio :: "'w McpServer \<Rightarrow> ctx \<Rightarrow> (nat \<Rightarrow> go_error option) \<Rightarrow> string \<Rightarrow> go_error option \<Rightarrow> 'w
    \<Rightarrow> string \<times> unit res \<times> 'w" where
  \<comment> \<open>the input is the bytes the reader delivers and how it ends; the output is the bytes written\<close>
  "ServeStdio s c ctxErr input inErr w =
     (case serve_lines s c ctxErr 0 (raw_lines input) w of
        (outs, r, w1) \<Rightarrow>
          (concat (map (\<lambda>resp. Marshal (response_json resp) @ [CHR 0x0A]) outs),
           (case (r, inErr) of (Ok _, Some e) \<Rightarrow> Fail e | _ \<Rightarrow> r), w1))"

section \<open>HTTP\<close>

definition maxPost :: nat where
  "maxPost = 1048576"

definition serveHTTPPost :: "'w McpServer \<Rightarrow> http_in \<Rightarrow> 'w \<Rightarrow> http_reply res \<times> 'w" where
  "serveHTTPPost s r w =
     (case Decode_limited maxPost dec_rpcRequest r zero_rpcRequest of
        None \<Rightarrow> (Ok (json_reply 400 (response_json (errorResp None codeParseError (Error json_error)))), w)
      | Some req \<Rightarrow>
         (if rq_JSONRPC req \<noteq> ''2.0'' then
            (Ok (json_reply 400 (response_json (errorResp (rq_ID req) codeInvalidRequest ''jsonrpc must be 2.0''))), w)
          else case dispatch s RequestCtx req w of
              (Ok resp, w1) \<Rightarrow>
                (Ok (if rq_ID req = None then \<lparr>out_status = 202, out_headers = [], out_body = []\<rparr>
                     else json_reply 200 (response_json resp)), w1)
            | (Fail e, w1) \<Rightarrow> (Fail e, w1)
            | (Panic m, w1) \<Rightarrow> (Panic m, w1)))"

datatype sse_event =
    CtxDone              \<comment> \<open>the request's context has ended\<close>
  | Tick bool            \<comment> \<open>the ticker fires; whether the write succeeds\<close>

fun sse_loop :: "sse_event list \<Rightarrow> string" where
  \<comment> \<open>what the stream has carried after these events of the select\<close>
  "sse_loop [] = []"
| "sse_loop (CtxDone # es) = []"
| "sse_loop (Tick True # es) = '': keepalive'' @ [CHR 0x0A, CHR 0x0A] @ sse_loop es"
| "sse_loop (Tick False # es) = []"

definition serveHTTPSSE :: "bool \<Rightarrow> bool \<Rightarrow> sse_event list \<Rightarrow> http_reply" where
  \<comment> \<open>whether the writer can flush, whether the first write succeeds, and the events\<close>
  "serveHTTPSSE isFlusher connected es =
     (let hs = [(''Content-Type'', ''text/event-stream''), (''Cache-Control'', ''no-cache''), (''Connection'', ''keep-alive'')]
      in if \<not> isFlusher then
           (let e = http_Error ''streaming unsupported'' 500 in
            e\<lparr>out_headers := out_headers e @ [(''Cache-Control'', ''no-cache''), (''Connection'', ''keep-alive'')]\<rparr>)
         else if \<not> connected then \<lparr>out_status = 200, out_headers = hs, out_body = []\<rparr>
         else \<lparr>out_status = 200, out_headers = hs,
           out_body = '': connected'' @ [CHR 0x0A, CHR 0x0A] @ sse_loop es\<rparr>)"

definition ServeHTTP :: "'w McpServer \<Rightarrow> bool \<Rightarrow> bool \<Rightarrow> sse_event list \<Rightarrow> http_in \<Rightarrow> 'w \<Rightarrow> http_reply res \<times> 'w" where
  "ServeHTTP s isFlusher connected es r w =
     (if in_method r = ''POST'' then serveHTTPPost s r w
      else if in_method r = ''GET'' then (Ok (serveHTTPSSE isFlusher connected es), w)
      else (Ok (http_Error ''method not allowed'' 405), w))"

definition requireAuth :: "'w McpServer \<Rightarrow> (http_in \<Rightarrow> 'w \<Rightarrow> http_reply res \<times> 'w) \<Rightarrow> http_in \<Rightarrow> 'w \<Rightarrow> http_reply res \<times> 'w" where
  "requireAuth s handler r w =
     (case Authenticate (ms_auth s) (in_authorization r) of
        Inl err \<Rightarrow>
          (let e = http_Error ''invalid or missing API key'' 401 in
           (Ok (e\<lparr>out_headers := (''WWW-Authenticate'', ''Bearer realm='' @ go_quote ''mcp'') # out_headers e\<rparr>), w))
      | Inr tenant \<Rightarrow> handler r w)"

definition RegisterMcp :: "string list" where
  "RegisterMcp = [''/mcp'', ''/mcp/sse'']"

definition serve_mcp :: "'w McpServer \<Rightarrow> string \<Rightarrow> bool \<Rightarrow> bool \<Rightarrow> sse_event list \<Rightarrow> http_in \<Rightarrow> 'w
    \<Rightarrow> (http_reply res \<times> 'w) option" where
  \<comment> \<open>the handlers of Register\<close>
  "serve_mcp s path isFlusher connected es r w =
     (if path = ''/mcp'' then Some (requireAuth s (ServeHTTP s isFlusher connected es) r w)
      else if path = ''/mcp/sse'' then Some (requireAuth s (\<lambda>r w. (Ok (serveHTTPSSE isFlusher connected es), w)) r w)
      else None)"

section \<open>Lemmas\<close>

lemma handleToolsCall_id: "fst (handleToolsCall s c req w) = Ok resp \<Longrightarrow> rs_ID resp = rq_ID req"
  by (auto simp: handleToolsCall_def ok_def errorResp_def split: option.splits prod.splits res.splits)

lemma dispatch_id: "fst (dispatch s c req w) = Ok resp \<Longrightarrow> rs_ID resp = rq_ID req"
  by (auto simp: dispatch_def ok_def errorResp_def handleInitialize_def handleToolsList_def
      dest: handleToolsCall_id split: if_splits)

lemma handleToolsCall_not_Fail: "fst (handleToolsCall s c req w) \<noteq> Fail e"
  by (auto simp: handleToolsCall_def split: option.splits prod.splits res.splits)

lemma dispatch_not_Fail: "fst (dispatch s c req w) \<noteq> Fail e"
  using handleToolsCall_not_Fail [of s c req w e] by (simp add: dispatch_def)

lemma handle_line_not_Fail: "fst (handle_line s c line w) \<noteq> Fail e"
  using dispatch_not_Fail [of s c _ w]
  by (auto simp: handle_line_def split: option.splits prod.splits res.splits) (metis fst_conv)+

text \<open>A session over standard input ends with an error only because of its context or a long line.\<close>

lemma serve_lines_Fail:
  "serve_lines s c ctxErr n lines w = (outs, Fail e, w1) \<Longrightarrow>
     (\<exists>k. ctxErr k = Some e) \<or> (e = errTooLong \<and> (\<exists>l \<in> set lines. maxLine \<le> length l))"
proof (induction lines arbitrary: n w outs)
  case (Cons line lines)
  then show ?case
    by (auto split: if_splits option.splits prod.splits res.splits) (metis handle_line_not_Fail fst_conv)+
qed simp

lemma serve_mcp_not_Fail: "serve_mcp s path fl con es r w \<noteq> Some (Fail e, w')"
proof -
  have "fst (serveHTTPPost s r w) \<noteq> Fail e" for w
    using dispatch_not_Fail [of s RequestCtx _ w]
    by (auto simp: serveHTTPPost_def split: option.splits prod.splits res.splits) (metis fst_conv)+
  then have "fst (requireAuth s (ServeHTTP s fl con es) r w) \<noteq> Fail e"
    by (auto simp: requireAuth_def ServeHTTP_def Let_def split: sum.splits)
  then show ?thesis by (auto simp: serve_mcp_def requireAuth_def Let_def split: sum.splits)
qed

lemma serve_mcp_status:
  assumes "serve_mcp s path fl con es r w = Some (Ok answer, w')"
  shows "out_status answer \<in> {200, 202, 400, 401, 405, 500}"
proof -
  have post: "fst (serveHTTPPost s r w) = Ok a \<Longrightarrow> out_status a \<in> {200, 202, 400}" for a
    by (auto simp: serveHTTPPost_def json_reply_def split: option.splits prod.splits res.splits if_splits)
  have sse: "out_status (serveHTTPSSE fl con es) \<in> {200, 500}"
    by (simp add: serveHTTPSSE_def http_Error_def Let_def)
  have "fst (requireAuth s (ServeHTTP s fl con es) r w) = Ok a \<Longrightarrow> out_status a \<in> {200, 202, 400, 401, 405, 500}" for a
    using post [of a] sse
    by (auto simp: requireAuth_def ServeHTTP_def http_Error_def Let_def split: sum.splits if_splits)
  with assms sse show ?thesis
    by (auto simp: serve_mcp_def requireAuth_def http_Error_def Let_def split: if_splits sum.splits)
qed

lemma serve_mcp_registered: "serve_mcp s path fl con es r w = None \<longleftrightarrow> path \<notin> set RegisterMcp"
  by (auto simp: serve_mcp_def RegisterMcp_def)

definition error_codes :: "int set" where
  "error_codes = {codeParseError, codeInvalidRequest, codeMethodNotFound, codeInvalidParams, codeInternalError}"

definition answered :: "rpcResponse \<Rightarrow> bool" where
  \<comment> \<open>a JSON-RPC response: a result or an error with a standard code, not both\<close>
  "answered r \<longleftrightarrow> (rs_Result r \<noteq> None \<and> rs_Error r = None) \<or>
     (rs_Result r = None \<and> (\<exists>e. rs_Error r = Some e \<and> er_Code e \<in> error_codes))"

lemma answered_simps [simp]:
  "answered (ok i v)" "answered (errorResp i code msg) \<longleftrightarrow> code \<in> error_codes"
  by (simp_all add: answered_def ok_def errorResp_def)

lemma codes [simp]:
  "codeParseError \<in> error_codes" "codeInvalidRequest \<in> error_codes" "codeMethodNotFound \<in> error_codes"
  "codeInvalidParams \<in> error_codes" "codeInternalError \<in> error_codes"
  by (simp_all add: error_codes_def)

lemma handleToolsCall_answered: "fst (handleToolsCall s c req w) = Ok resp \<Longrightarrow> answered resp"
  by (auto simp: handleToolsCall_def split: option.splits prod.splits res.splits)

text \<open>What a line is answered with, without running it.\<close>

definition answer_id :: "string \<Rightarrow> json option option" where
  \<comment> \<open>None for no answer, otherwise the id of the answer\<close>
  "answer_id line =
     (if line = [] then None
      else case json_Unmarshal dec_rpcRequest line zero_rpcRequest of
          None \<Rightarrow> Some None
        | Some req \<Rightarrow> if rq_JSONRPC req \<noteq> ''2.0'' then Some (rq_ID req)
                      else if rq_ID req = None then None else Some (rq_ID req))"

lemma handle_line_id:
  "fst (handle_line s c line w) = Ok out \<Longrightarrow> map_option rs_ID out = answer_id line"
  by (auto simp: handle_line_def answer_id_def errorResp_def dest: dispatch_id
      split: if_splits option.splits prod.splits res.splits) (metis dispatch_id fst_conv)+

lemma serve_lines_answers:
  "serve_lines s c ctxErr n lines w = (outs, r, w1) \<Longrightarrow> \<exists>k \<le> length lines.
     map rs_ID outs = List.map_filter (\<lambda>l. answer_id (drop_cr l)) (take k lines) \<and> (r = Ok () \<longrightarrow> k = length lines)"
proof (induction lines arbitrary: n w outs)
  case (Cons line lines)
  show ?case
  proof (cases "maxLine \<le> length line \<or> ctxErr n \<noteq> None \<or> (\<forall>out. fst (handle_line s c (drop_cr line) w) \<noteq> Ok out)")
    case True
    with Cons.prems have "outs = [] \<and> r \<noteq> Ok ()" by (auto split: if_splits option.splits prod.splits res.splits)
    then show ?thesis by (intro exI [of _ 0]) (simp add: List.map_filter_simps)
  next
    case False
    then obtain out w2 where h: "handle_line s c (drop_cr line) w = (Ok out, w2)"
      by (cases "handle_line s c (drop_cr line) w") auto
    obtain outs' where rest: "serve_lines s c ctxErr (Suc n) lines w2 = (outs', r, w1)"
      "outs = (case out of None \<Rightarrow> outs' | Some resp \<Rightarrow> resp # outs')"
      using Cons.prems False h by (auto split: prod.splits option.splits)
    obtain k where "k \<le> length lines" "r = Ok () \<longrightarrow> k = length lines"
      "map rs_ID outs' = List.map_filter (\<lambda>l. answer_id (drop_cr l)) (take k lines)"
      using Cons.IH [OF rest(1)] by blast
    moreover have "answer_id (drop_cr line) = map_option rs_ID out"
      using h by (intro handle_line_id [of s c _ w, symmetric]) simp
    ultimately show ?thesis
      using rest(2) by (intro exI [of _ "Suc k"]) (auto simp: List.map_filter_simps split: option.splits)
  qed
qed (simp add: List.map_filter_simps)

text \<open>One message is one line.\<close>

lemma dec_request_one_line:
  assumes "dec_rpcRequest j zero_rpcRequest = Some req" "one_line_json j"
  shows "\<forall>i. rq_ID req = Some i \<longrightarrow> one_line_json i"
proof (cases j)
  case (JObj kvs)
  have kvs: "\<And>k v. (k, v) \<in> set kvs \<Longrightarrow> one_line_json v"
    using assms(2) JObj by (auto simp: list_all_iff)
  show ?thesis
    by (rule dec_members_inv [where Q = "\<lambda>r. \<forall>i. rq_ID r = Some i \<longrightarrow> one_line_json i",
          OF assms(1) [unfolded dec_rpcRequest_def JObj dec_struct.simps]])
       (auto simp: zero_rpcRequest_def into_def dest: kvs)
qed (use assms in \<open>auto simp: dec_rpcRequest_def zero_rpcRequest_def\<close>)

definition response_one_line :: "rpcResponse \<Rightarrow> bool" where
  "response_one_line r \<longleftrightarrow> (\<forall>i. rs_ID r = Some i \<longrightarrow> one_line_json i) \<and> (\<forall>v. rs_Result r = Some v \<longrightarrow> one_line_json v)"

lemma Itoa_one_line: "one_line (Itoa n)"
proof -
  have "list_all is_digit s \<Longrightarrow> one_line s" for s
    by (induction s) (auto simp: is_digit_def)
  then show ?thesis by (simp add: Itoa_def digits_of_digits)
qed

lemma response_json_one_line: "response_one_line r \<Longrightarrow> one_line_json (response_json r)"
  by (auto simp: response_one_line_def response_json_def error_json_def Itoa_one_line split: option.splits)

lemma json_of_map_one_line: "one_line_json (json_of_map m)"
  by (simp add: json_of_map_def list_all_iff)

definition plain_tools :: "'w McpServer \<Rightarrow> bool" where
  \<comment> \<open>the schemas of the tools are JSON with ordinary numbers\<close>
  "plain_tools s \<longleftrightarrow> list_all (\<lambda>t. one_line_json (t_InputSchema t)) (ms_tools s)"

lemma dispatch_one_line:
  assumes "fst (dispatch s c req w) = Ok resp" "plain_tools s" "\<forall>i. rq_ID req = Some i \<longrightarrow> one_line_json i"
  shows "response_one_line resp"
proof -
  have "\<forall>v. rs_Result resp = Some v \<longrightarrow> one_line_json v"
    using assms(1,2)
    by (auto simp: dispatch_def handleInitialize_def handleToolsList_def handleToolsCall_def ok_def errorResp_def
        plain_tools_def tool_schema_def json_of_map_one_line list_all_iff
        split: if_splits option.splits prod.splits res.splits)
  with dispatch_id [OF assms(1)] assms(3) show ?thesis by (simp add: response_one_line_def)
qed

lemma handle_line_one_line:
  assumes "fst (handle_line s c line w) = Ok (Some resp)" "plain_tools s"
  shows "response_one_line resp"
proof (cases "json_Unmarshal dec_rpcRequest line zero_rpcRequest")
  case None
  with assms show ?thesis by (auto simp: handle_line_def response_one_line_def errorResp_def split: if_splits)
next
  case (Some req)
  then obtain j where "json_parse line = Some j" "dec_rpcRequest j zero_rpcRequest = Some req"
    by (auto simp: json_Unmarshal_def split: option.splits)
  then have i: "\<forall>i. rq_ID req = Some i \<longrightarrow> one_line_json i"
    using dec_request_one_line json_parse_one_line by blast
  show ?thesis
  proof (cases "rq_JSONRPC req = ''2.0''")
    case True
    with assms(1) Some have "fst (dispatch s c req w) = Ok resp"
      by (auto simp: handle_line_def split: if_splits prod.splits res.splits)
    from dispatch_one_line [OF this assms(2) i] show ?thesis .
  next
    case False
    with assms(1) Some i show ?thesis
      by (auto simp: handle_line_def response_one_line_def errorResp_def split: if_splits)
  qed
qed

lemma serve_lines_one_line:
  "plain_tools s \<Longrightarrow> list_all response_one_line (fst (serve_lines s c ctxErr n lines w))"
proof (induction lines arbitrary: n w)
  case (Cons line lines)
  then show ?case
    using handle_line_one_line [of s c "drop_cr line" w]
    by (auto split: option.splits prod.splits res.splits) (metis fst_conv)+
qed simp

lemma raw_lines_join: "list_all one_line ls \<Longrightarrow> raw_lines (concat (map (\<lambda>l. l @ [CHR 0x0A]) ls)) = ls"
proof -
  assume ls: "list_all one_line ls"
  have "split_at (CHR 0x0A) (concat (map (\<lambda>l. l @ [CHR 0x0A]) ls)) = ls @ [[]]"
    using ls by (induction ls) (simp_all add: one_line_def split_at_append)
  then show ?thesis by (simp add: raw_lines_def)
qed

definition bearer_challenge :: http_reply where
  "bearer_challenge = (let e = http_Error ''invalid or missing API key'' 401 in
     e\<lparr>out_headers := (''WWW-Authenticate'', ''Bearer realm='' @ go_quote ''mcp'') # out_headers e\<rparr>)"

lemma bearer_challenge_status [simp]: "out_status bearer_challenge = 401"
  by (simp_all add: bearer_challenge_def http_Error_def Let_def)

lemma serve_mcp_refused:
  "Authenticate (ms_auth s) (in_authorization r) = Inl e \<Longrightarrow> serve_mcp s path isFlusher connected es r w =
     (if path \<in> {''/mcp'', ''/mcp/sse''} then Some (Ok bearer_challenge, w) else None)"
  by (simp add: serve_mcp_def requireAuth_def bearer_challenge_def Let_def)

section \<open>Properties\<close>

text \<open>
  Over standard input the server writes exactly one line of JSON per answered message and
  nothing else: reading the output back by lines gives the responses, whatever text a tool
  returned and whatever an id was.
\<close>

theorem ServeStdio_framing:
  assumes "plain_tools s"
  shows "raw_lines (fst (ServeStdio s c ctxErr input inErr w)) =
    map (\<lambda>r. Marshal (response_json r)) (fst (serve_lines s c ctxErr 0 (raw_lines input) w))"
proof -
  let ?outs = "fst (serve_lines s c ctxErr 0 (raw_lines input) w)"
  have "list_all one_line (map (\<lambda>r. Marshal (response_json r)) ?outs)"
    using serve_lines_one_line [OF assms, of c ctxErr 0 "raw_lines input" w]
    by (auto simp: list_all_iff intro: Marshal_one_line response_json_one_line)
  moreover have "fst (ServeStdio s c ctxErr input inErr w) =
      concat (map (\<lambda>l. l @ [CHR 0x0A]) (map (\<lambda>r. Marshal (response_json r)) ?outs))"
    by (cases "serve_lines s c ctxErr 0 (raw_lines input) w") (simp add: ServeStdio_def comp_def)
  ultimately show ?thesis by (simp only: raw_lines_join)
qed

definition example_server :: "unit McpServer" where
  "example_server = NewMcpServer [] (Some (NewSharedBearer ''secret'')) ''dev''"

definition example_ping :: rpcRequest where
  "example_ping = \<lparr>rq_JSONRPC = ''2.0'', rq_ID = Some (JNum ''1''), rq_Method = ''ping'', rq_Params = None\<rparr>"

theorem ServeStdio_framing_witness:
  "raw_lines (fst (ServeStdio example_server RequestCtx (\<lambda>_. None) (json_text ''{`jsonrpc`:`2.0`,`id`:1,`method`:`ping`}'') None ())) =
    map (\<lambda>r. Marshal (response_json r)) (fst (serve_lines example_server RequestCtx (\<lambda>_. None) 0
      (raw_lines (json_text ''{`jsonrpc`:`2.0`,`id`:1,`method`:`ping`}'')) ()))"
  by (rule ServeStdio_framing) (simp add: plain_tools_def example_server_def NewMcpServer_def)

text \<open>
  C31: The responses come in the order of the requests: every message that asks for an answer is
  answered once under its own id (a line that is not a request, under none), notifications and
  empty lines are not answered, and only an early end of the session leaves a suffix unanswered.
\<close>

theorem ServeStdio_answers:
  "case serve_lines s c ctxErr 0 lines w of (outs, r, w1) \<Rightarrow>
     \<exists>k \<le> length lines. map rs_ID outs = List.map_filter (\<lambda>l. answer_id (drop_cr l)) (take k lines) \<and>
       (r = Ok () \<longrightarrow> k = length lines)"
proof (cases "serve_lines s c ctxErr 0 lines w")
  case (fields outs r w1)
  show ?thesis unfolding fields prod.case by (rule serve_lines_answers [OF fields])
qed

theorem ServeStdio_answers_witness:
  "serve_lines example_server RequestCtx (\<lambda>_. None) 0 [''bad''] () =
     ([errorResp None codeParseError (Error json_error)], Ok (), ()) \<and>
   List.map_filter (\<lambda>l. answer_id (drop_cr l)) [''bad''] = [None]"
proof -
  have "json_parse ''bad'' = None" by code_simp
  then have "json_Unmarshal dec_rpcRequest ''bad'' zero_rpcRequest = None" by (simp add: json_Unmarshal_def)
  then have run: "serve_lines example_server RequestCtx (\<lambda>_. None) 0 [''bad''] () =
     ([errorResp None codeParseError (Error json_error)], Ok (), ())"
    by (simp add: handle_line_def maxLine_def drop_cr_def)
  show ?thesis
    using run ServeStdio_answers [where s = example_server and c = RequestCtx and lines = "[''bad'']" and w = "()" and ctxErr = "\<lambda>_. None"]
    by (auto simp: errorResp_def)
qed

text \<open>
  Every dispatched request is answered with its own id, and with a result or an error with a
  standard code but not both; the exception are the two spellings of the initialized
  notification.
\<close>

theorem dispatch_answers:
  assumes "fst (dispatch s c req w) = Ok resp"
  shows "rs_ID resp = rq_ID req \<and>
    (answered resp \<or> rq_Method req \<in> {''initialized'', ''notifications/initialized''})"
  using assms dispatch_id [OF assms]
  by (auto simp: dispatch_def handleInitialize_def handleToolsList_def dest: handleToolsCall_answered split: if_splits)

theorem dispatch_answers_witness:
  "answered \<lparr>rs_ID = Some (JNum ''1''), rs_Result = Some (JObj []), rs_Error = None\<rparr>"
proof -
  have "fst (dispatch example_server RequestCtx example_ping ()) =
      Ok \<lparr>rs_ID = Some (JNum ''1''), rs_Result = Some (JObj []), rs_Error = None\<rparr>"
    by (simp add: dispatch_def example_ping_def ok_def)
  from dispatch_answers [OF this] show ?thesis by (simp add: example_ping_def)
qed

text \<open>
  The initialized notification sent with an id is answered with a message that has neither a
  result nor an error, although the code says that a valid struct is returned.
\<close>

theorem initialized_unanswered:
  "\<exists>resp. dispatch s c \<lparr>rq_JSONRPC = ''2.0'', rq_ID = Some i, rq_Method = ''initialized'', rq_Params = p\<rparr> w = (Ok resp, w) \<and>
     response_json resp = JObj [(''jsonrpc'', JStr ''2.0''), (''id'', i)] \<and> \<not> answered resp"
  by (simp add: dispatch_def response_json_def answered_def)

text \<open>
  With a shared bearer token, no HTTP route of the server runs anything for a request whose
  Authorization header is not exactly that token: it gets status 401 with the bearer challenge
  and the state is untouched.
\<close>

theorem serve_mcp_guarded:
  assumes "ms_auth s = NewSharedBearer token" "in_authorization r \<noteq> ''Bearer '' @ token"
  shows "case serve_mcp s path fl con es r w of
      None \<Rightarrow> path \<notin> {''/mcp'', ''/mcp/sse''}
    | Some (rep, w') \<Rightarrow> w' = w \<and> (\<exists>h. rep = Ok h \<and> out_status h = 401 \<and>
        (''WWW-Authenticate'', ''Bearer realm='' @ go_quote ''mcp'') \<in> set (out_headers h))"
proof -
  have "Authenticate (ms_auth s) (in_authorization r) = Inl ErrUnauthenticated"
    using assms by (simp add: NewSharedBearer_exact)
  then show ?thesis by (simp add: serve_mcp_refused bearer_challenge_def http_Error_def Let_def)
qed

theorem serve_mcp_guarded_witness:
  "\<exists>h. fst (the (serve_mcp example_server ''/mcp'' True True []
     \<lparr>in_method = ''POST'', in_authorization = ''Bearer guess'', in_query = [], in_body = [], in_read_err = None\<rparr> ())) = Ok h \<and>
     out_status h = 401"
proof -
  let ?r = "\<lparr>in_method = ''POST'', in_authorization = ''Bearer guess'', in_query = [], in_body = [], in_read_err = None\<rparr>"
  have a: "ms_auth example_server = NewSharedBearer ''secret''" "in_authorization ?r \<noteq> ''Bearer '' @ ''secret''"
    by (simp_all add: example_server_def NewMcpServer_def)
  from serve_mcp_guarded [OF a, where path = "''/mcp''" and fl = True and con = True and es = "[]" and w = "()"] show ?thesis
    by (cases "serve_mcp example_server ''/mcp'' True True [] ?r ()") auto
qed

end
