(* ===== verification/Searxng.thy ===== *)
theory Searxng
  imports Retry Reddit_Fetcher "HOL-Library.Sublist"
begin

text \<open>
  \<open>internal/search/searxng/searcher.go\<close>: the searcher over a SearXNG instance, and the
  \<open>Searcher\<close> interface of \<open>internal/domain/searcher.go\<close> with the contract \<open>searcher_contract\<close>
  that the search tool relies on.
\<close>

section \<open>The interface\<close>

record 'w searcher =
  se_Name :: string
  se_Search :: "ctx \<Rightarrow> string \<Rightarrow> SearchOptions \<Rightarrow> 'w \<Rightarrow> SearchResult list res \<times> 'w"

locale searcher_contract =
  fixes search :: "ctx \<Rightarrow> string \<Rightarrow> SearchOptions \<Rightarrow> 'w \<Rightarrow> SearchResult list res \<times> 'w"
  assumes clamped: "fst (search c q opts w) = Ok rs \<Longrightarrow> 0 < Limit opts \<Longrightarrow> int (length rs) \<le> Limit opts"
    and blank: "TrimSpace q = [] \<Longrightarrow> fst (search c q opts w) \<noteq> Ok rs"
begin

lemma found_bounded:
  "fst (search c q opts w) = Ok rs \<Longrightarrow> 0 < Limit opts \<Longrightarrow> Limit opts \<le> n \<Longrightarrow> int (length rs) \<le> n"
  using clamped order_trans by blast

end

section \<open>The SearXNG searcher\<close>

record Searcher =
  sx_searchURL :: string

definition NewSearcher :: "string \<Rightarrow> Searcher" where
  "NewSearcher endpoint = \<lparr>sx_searchURL = trim_right_char endpoint (CHR ''/'') @ ''/search''\<rparr>"

record searchHit =
  sh_Title :: string
  sh_URL :: string
  sh_Content :: string
  sh_Engine :: string
  sh_PublishedDate :: string

definition zero_searchHit :: searchHit where
  "zero_searchHit = \<lparr>sh_Title = [], sh_URL = [], sh_Content = [], sh_Engine = [], sh_PublishedDate = []\<rparr>"

definition dec_searchHit :: "searchHit decoder" where
  "dec_searchHit = dec_struct
     [(''title'', into sh_Title sh_Title_update dec_string),
      (''url'', into sh_URL sh_URL_update dec_string),
      (''content'', into sh_Content sh_Content_update dec_string),
      (''engine'', into sh_Engine sh_Engine_update dec_string),
      (''publishedDate'', into sh_PublishedDate sh_PublishedDate_update dec_string)]"

definition dec_searchResponse :: "searchHit list decoder" where
  \<comment> \<open>the one field of searchResponse\<close>
  "dec_searchResponse = dec_struct [(''results'', dec_slice dec_searchHit zero_searchHit)]"

definition search_params :: "string \<Rightarrow> SearchOptions \<Rightarrow> (string \<times> string) list" where
  \<comment> \<open>the values in the order of their names, in which Encode writes them\<close>
  "search_params query opts =
     [(''format'', ''json'')] @
     (if Language opts \<noteq> [] then [(''language'', Language opts)] else []) @
     [(''q'', query)] @
     (if TimeRange opts \<noteq> [] then [(''time_range'', TimeRange opts)] else [])"

definition result_of :: "searchHit \<Rightarrow> SearchResult" where
  "result_of hit = \<lparr>sr_Title = sh_Title hit, sr_URL = sh_URL hit, sr_Snippet = sh_Content hit,
     sr_Engine = sh_Engine hit, sr_PublishedDate = sh_PublishedDate hit\<rparr>"

fun collect_hits :: "int \<Rightarrow> searchHit list \<Rightarrow> SearchResult list \<Rightarrow> SearchResult list" where
  \<comment> \<open>the loop over the hits with its break\<close>
  "collect_hits limit [] results = results"
| "collect_hits limit (hit # hits) results =
     (let results = results @ [result_of hit]
      in if 0 < limit \<and> limit \<le> int (length results) then results
         else collect_hits limit hits results)"

definition search_answer :: "SearchOptions \<Rightarrow> http_response \<Rightarrow> SearchResult list res" where
  "search_answer opts resp = (case wrap_err ''read response'' (read_all_limit 10485760 resp) of
       Fail e \<Rightarrow> Fail e
     | Panic m \<Rightarrow> Panic m
     | Ok body \<Rightarrow>
        (if resp_status resp \<noteq> 200 then
           Fail (EText (''searxng returned '' @ Itoa (resp_status resp) @
             '' (is the json format enabled in settings.yml?)''))
         else (case json_Unmarshal dec_searchResponse body [] of
             None \<Rightarrow> Fail (EWrap ''decode response'' json_error)
           | Some hits \<Rightarrow> Ok (collect_hits (Limit opts) hits []))))"

definition search_http :: "Searcher \<Rightarrow> string \<Rightarrow> SearchOptions \<Rightarrow> http_request" where
  "search_http s query opts = \<lparr>req_method = ''GET'',
     req_url = sx_searchURL s @ ''?'' @ Values_Encode (search_params query opts), req_body = None, req_headers = []\<rparr>"

definition Search :: "'w sys \<Rightarrow> Searcher \<Rightarrow> ctx \<Rightarrow> string \<Rightarrow> SearchOptions \<Rightarrow> 'w \<Rightarrow> SearchResult list res \<times> 'w" where
  "Search S s c query opts w =
     (if TrimSpace query = [] then (Fail (EText ''query is empty''), w)
      else (case DoRetry S c ''GET'' (sx_searchURL s @ ''?'' @ Values_Encode (search_params query opts)) None [] no_config w of
          (Fail err, w1) \<Rightarrow> (Fail (EWrap ''searxng request'' err), w1)
        | (Panic m, w1) \<Rightarrow> (Panic m, w1)
        | (Ok None, w1) \<Rightarrow> (Panic ''nil response'', w1)
        | (Ok (Some resp), w1) \<Rightarrow> (search_answer opts resp, w1)))"

definition searxng_searcher :: "'w sys \<Rightarrow> Searcher \<Rightarrow> 'w searcher" where
  "searxng_searcher S s = \<lparr>se_Name = ''searxng'', se_Search = Search S s\<rparr>"

section \<open>Lemmas\<close>

definition clamp_hits :: "int \<Rightarrow> 'a list \<Rightarrow> 'a list" where
  "clamp_hits limit hs = (if 0 < limit then take (nat limit) hs else hs)"

lemma collect_hits_all: "limit \<le> 0 \<Longrightarrow> collect_hits limit hits acc = acc @ map result_of hits"
  by (induction hits arbitrary: acc) (simp_all add: Let_def)

lemma collect_hits_take:
  "length acc < n \<Longrightarrow> collect_hits (int n) hits acc = acc @ map result_of (take (n - length acc) hits)"
proof (induction hits arbitrary: acc)
  case (Cons hit hits)
  show ?case
  proof (cases "n = Suc (length acc)")
    case False
    with Cons.prems have "n - length acc = Suc (n - Suc (length acc))" by simp
    with False Cons show ?thesis by (simp add: Let_def)
  qed (simp add: Let_def)
qed simp

lemma collect_hits_eq: "collect_hits limit hits [] = map result_of (clamp_hits limit hits)"
proof (cases "0 < limit")
  case True
  then obtain n where "limit = int n" "0 < n" by (cases limit) auto
  then show ?thesis using collect_hits_take [of "[]" n hits] by (simp add: clamp_hits_def)
qed (simp add: collect_hits_all clamp_hits_def)

lemma search_answer_Ok:
  "search_answer opts resp = Ok rs \<longleftrightarrow> resp_status resp = 200 \<and>
     (\<exists>body hits. read_all_limit 10485760 resp = Ok body \<and>
        json_Unmarshal dec_searchResponse body [] = Some hits \<and> rs = map result_of (clamp_hits (Limit opts) hits))"
  by (auto simp: search_answer_def collect_hits_eq split: res.splits option.splits)

lemma Search_Ok:
  assumes "fst (Search S s c q opts w) = Ok rs"
  shows "TrimSpace q \<noteq> [] \<and> (\<exists>resp. answers S c (search_http s q opts) resp \<and> search_answer opts resp = Ok rs)"
  using assms
  by (auto simp: Search_def search_http_def split: if_splits prod.splits res.splits option.splits
      dest!: arg_cong [where f = fst]) (blast dest: DoRetry_source)

interpretation searxng: searcher_contract "Search S s" for S s
proof
  fix c q w rs and opts :: SearchOptions
  assume r: "fst (Search S s c q opts w) = Ok rs" "0 < Limit opts"
  then obtain hits where "rs = map result_of (clamp_hits (Limit opts) hits)"
    using Search_Ok [OF r(1)] by (auto simp: search_answer_Ok)
  with r(2) show "int (length rs) \<le> Limit opts" by (simp add: clamp_hits_def)
qed (auto dest: Search_Ok)

section \<open>A search\<close>

definition example_hits :: json where
  "example_hits = JObj [(''results'', JArr [
     JObj [(''title'', JStr ''one''), (''url'', JStr ''https://a.b/'')],
     JObj [(''title'', JStr ''two''), (''url'', JStr ''https://c.d/'')]])]"

definition example_hit_list :: "searchHit list" where
  "example_hit_list = [zero_searchHit\<lparr>sh_Title := ''one'', sh_URL := ''https://a.b/''\<rparr>,
     zero_searchHit\<lparr>sh_Title := ''two'', sh_URL := ''https://c.d/''\<rparr>]"

lemma example_hits_decoded: "json_Unmarshal dec_searchResponse (Marshal example_hits) [] = Some example_hit_list"
proof -
  have "json_parse (Marshal example_hits) = Some example_hits"
    by (intro json_parse_Marshal) (simp add: example_hits_def wf_json_eval)
  then show ?thesis
    by (simp add: json_Unmarshal_def)
       (simp add: example_hits_def dec_searchResponse_def dec_searchHit_def find_field_def into_def zero_searchHit_def
         example_hit_list_def)
qed

lemma example_search_any:
  "Search (steady (reply 200 (Marshal example_hits))) (NewSearcher ''http://s/'') c ''q''
      \<lparr>Limit = n, TimeRange = [], Language = []\<rparr> () = (Ok (map result_of (clamp_hits n example_hit_list)), ())"
proof -
  let ?S = "steady (reply 200 (Marshal example_hits))" and ?opts = "\<lparr>Limit = n, TimeRange = [], Language = []\<rparr>"
  let ?u = "''http://s/search?format=json&q=q''"
  let ?resp = "\<lparr>resp_status = 200, resp_retry_after = [], resp_body = Marshal example_hits, resp_read_err = None\<rparr>"
  have q: "TrimSpace ''q'' = ''q''" by (rule TrimSpace_plain) (simp_all add: space_byte_def)
  have url: "url_Parse ?u \<noteq> None" "length (Marshal example_hits) < 1000"
    "sx_searchURL (NewSearcher ''http://s/'') @ ''?'' @ Values_Encode [(''format'', ''json''), (''q'', ''q'')] = ?u"
    by code_simp+
  have params: "search_params ''q'' ?opts = [(''format'', ''json''), (''q'', ''q'')]"
    by (simp add: search_params_def)
  have answer: "search_answer ?opts ?resp = Ok (map result_of (clamp_hits n example_hit_list))"
    using url(2) by (simp add: search_answer_def read_all_limit_def example_hits_decoded collect_hits_eq)
  have "DoRetry ?S c ''GET'' ?u None [] no_config () = (Ok (Some ?resp), ())"
    using url(1) by (simp add: DoRetry_def Let_def try_once_def reply_def numeral_3_eq_3)
  with q answer show ?thesis by (simp only: Search_def params url(3)) simp
qed

lemma example_search:
  "fst (Search (steady (reply 200 (Marshal example_hits))) (NewSearcher ''http://s/'') Background ''q''
      \<lparr>Limit = 1, TimeRange = [], Language = []\<rparr> ()) =
     Ok [\<lparr>sr_Title = ''one'', sr_URL = ''https://a.b/'', sr_Snippet = [], sr_Engine = [], sr_PublishedDate = []\<rparr>]"
  by (simp add: example_search_any clamp_hits_def example_hit_list_def zero_searchHit_def result_of_def)

section \<open>Properties\<close>

text \<open>
  A search sends at most three copies of one GET to the instance's search endpoint and
  nothing else, and none at all for a query of white space; its query string reads back as the
  query, the JSON format and the options that are set.
\<close>

theorem Search_traffic:
  "emits (retry_events c (search_http s q opts) (if TrimSpace q = [] then 0 else 3)) (Search (logged S) s c q opts (w, l)) l \<and>
   parse_form (Values_Encode (search_params q opts)) = map (\<lambda>(k, v). (Some k, Some v)) (search_params q opts)"
proof -
  let ?u = "sx_searchURL s @ ''?'' @ Values_Encode (search_params q opts)"
  have "emits (retry_events c \<lparr>req_method = ''GET'', req_url = ?u, req_body = None, req_headers = []\<rparr> 3)
      (DoRetry (logged S) c ''GET'' ?u None [] no_config (w, l)) l"
    using DoRetry_events [of c "''GET''" ?u None "[]" no_config S w l] by simp
  moreover have "TrimSpace q \<noteq> [] \<Longrightarrow>
      snd (Search (logged S) s c q opts (w, l)) = snd (DoRetry (logged S) c ''GET'' ?u None [] no_config (w, l))"
    by (auto simp: Search_def split: prod.splits res.splits option.splits)
  moreover have "search_params q opts \<noteq> []" by (simp add: search_params_def)
  ultimately show ?thesis
    by (auto simp: emits_def parse_form_Encode Search_def retry_events_def search_http_def)
qed

text \<open>
  What a search returns are the hits of an answer the instance gave to this query, in their order,
  cut after the limit when a positive one is given, and an answer other than 200 is an error.
\<close>

theorem Search_results:
  assumes "fst (Search S s c q opts w) = Ok rs"
  shows "\<exists>hits. rs = map result_of hits \<and> (0 < Limit opts \<longrightarrow> int (length rs) \<le> Limit opts) \<and>
    (\<exists>resp body all. answers S c (search_http s q opts) resp \<and> resp_status resp = 200 \<and> read_all_limit 10485760 resp = Ok body \<and>
       json_Unmarshal dec_searchResponse body [] = Some all \<and> prefix hits all \<and>
       (Limit opts \<le> 0 \<or> int (length all) \<le> Limit opts \<longrightarrow> hits = all))"
proof -
  obtain resp where resp: "answers S c (search_http s q opts) resp" "search_answer opts resp = Ok rs" using Search_Ok [OF assms] by blast
  then obtain body all where r: "resp_status resp = 200" "read_all_limit 10485760 resp = Ok body"
    "json_Unmarshal dec_searchResponse body [] = Some all" "rs = map result_of (clamp_hits (Limit opts) all)"
    by (auto simp: search_answer_Ok)
  have "prefix (clamp_hits (Limit opts) all) all" by (simp add: clamp_hits_def take_is_prefix)
  moreover have "Limit opts \<le> 0 \<or> int (length all) \<le> Limit opts \<Longrightarrow> clamp_hits (Limit opts) all = all"
    by (auto simp: clamp_hits_def)
  ultimately show ?thesis
    using resp(1) r searxng.clamped [OF assms] by (intro exI [of _ "clamp_hits (Limit opts) all"]) auto
qed

theorem Search_results_witness:
  "\<exists>hits. [\<lparr>sr_Title = ''one'', sr_URL = ''https://a.b/'', sr_Snippet = [], sr_Engine = [], sr_PublishedDate = []\<rparr>] =
     map result_of hits"
  using Search_results [OF example_search] by (elim exE conjE) (rule exI)

end
