(* ===== verification/Mcp_Tools.thy ===== *)
theory Mcp_Tools
  imports Mcp_Server Registry Searxng Observability
begin

text \<open>
  \<open>internal/transport/mcp/tools/tools.go\<close>: the two tools.  \<open>fetch_url\<close> is a client of the engine
  registry, \<open>web_search\<close> of a searcher; what it relies on is proved in \<open>searcher_contract\<close>.  The
  boolean \<open>metrics\<close> tells whether the metrics pointer is set.
\<close>

section \<open>Arguments\<close>

definition arg_string :: "args \<Rightarrow> string \<Rightarrow> string option" where
  \<comment> \<open>args[k].(string)\<close>
  "arg_string m k = (case m k of Some (JStr s) \<Rightarrow> Some s | _ \<Rightarrow> None)"

definition arg_float :: "args \<Rightarrow> string \<Rightarrow> float64 option" where
  \<comment> \<open>args[k].(float64)\<close>
  "arg_float m k = (case m k of Some (JNum l) \<Rightarrow> ParseFloat l | _ \<Rightarrow> None)"

definition string_or_empty :: "string option \<Rightarrow> string" where
  "string_or_empty v = (case v of Some s \<Rightarrow> s | None \<Rightarrow> [])"

section \<open>Metrics\<close>

definition mcpTenant :: string where "mcpTenant = ''mcp''"
definition defaultSearchLimit :: int where "defaultSearchLimit = 10"

definition statusOf :: "go_error option \<Rightarrow> string" where
  "statusOf err = (if err \<noteq> None then ''error'' else ''ok'')"

definition observe :: "'w sys \<Rightarrow> bool \<Rightarrow> string \<Rightarrow> go_error option \<Rightarrow> 'w \<Rightarrow> 'w" where
  "observe S metrics engine err w =
     (if \<not> metrics then w else Observe S engine mcpTenant (statusOf err) (Reason err) w)"

definition engineName :: "'w Registry \<Rightarrow> string \<Rightarrow> string" where
  "engineName r rawURL = (case Resolve r rawURL of Some e \<Rightarrow> en_Name e | None \<Rightarrow> ''unknown'')"

section \<open>fetch_url\<close>

definition apostrophes :: "string \<Rightarrow> string" where
  \<comment> \<open>a text written with back quotes for the apostrophes\<close>
  "apostrophes s = map (\<lambda>c. if c = CHR 0x60 then CHR 0x27 else c) s"

definition fetch_options :: "platform \<Rightarrow> Options \<Rightarrow> args \<Rightarrow> EngineOptions" where
  "fetch_options P defaults arguments =
     (let opts = \<lparr>RedditKeepDepth = KeepDepth defaults, RedditKeepCreated = KeepCreated defaults,
            RedditMaxRounds = MaxRounds defaults, RedditFormat = Format defaults\<rparr>;
          opts = (case arg_string arguments ''format'' of
              Some f \<Rightarrow> if f = ''toon'' \<or> f = ''json'' then opts\<lparr>RedditFormat := f\<rparr> else opts
            | None \<Rightarrow> opts)
      in case arg_float arguments ''expand'' of
          Some ex \<Rightarrow> if 0 \<le> mant ex then opts\<lparr>RedditMaxRounds := int_of_float P ex\<rparr> else opts
        | None \<Rightarrow> opts)"

definition crawlHandler :: "'w sys \<Rightarrow> platform \<Rightarrow> 'w Registry \<Rightarrow> Options \<Rightarrow> bool \<Rightarrow> ctx \<Rightarrow> args \<Rightarrow> 'w \<Rightarrow> ToolResult res \<times> 'w" where
  "crawlHandler S P reg defaults metrics c arguments w =
     (let rawURL = string_or_empty (arg_string arguments ''url'') in
      if rawURL = [] then (Fail (InvalidParams ''missing required argument: url''), w)
      else case Registry_Crawl S reg c rawURL (fetch_options P defaults arguments) w of
          (Panic m, w1) \<Rightarrow> (Panic m, w1)
        | (Fail err, w1) \<Rightarrow> (Fail err, observe S metrics (engineName reg rawURL) (Some err) w1)
        | (Ok doc, w1) \<Rightarrow> (Ok \<lparr>tr_Text = PageContent doc, tr_Meta = Metadata doc\<rparr>,
             observe S metrics (engineName reg rawURL) None w1))"

definition FetchURL :: "'w sys \<Rightarrow> platform \<Rightarrow> 'w Registry \<Rightarrow> Options \<Rightarrow> bool \<Rightarrow> 'w Tool" where
  "FetchURL S P reg defaults metrics = \<lparr>
     t_Name = ''fetch_url'',
     t_Description = ''Fetch a URL and return LLM-friendly content. Reddit URLs return TOON-encoded comment trees with full /api/morechildren expansion. Other URLs are routed through the upstream crawl4ai instance and returned as filtered markdown.'',
     t_InputSchema = JObj
       [(''properties'', JObj
          [(''expand'', JObj
             [(''description'', JStr ''Reddit-only: number of /api/morechildren expansion rounds (0-40).''),
              (''type'', JStr ''integer'')]),
           (''format'', JObj
             [(''description'', JStr (apostrophes ''Reddit-only: `toon` (default, token-efficient) or `json`.'')),
              (''enum'', JArr [JStr ''toon'', JStr ''json'']),
              (''type'', JStr ''string'')]),
           (''url'', JObj
             [(''description'', JStr ''Absolute http(s) URL to crawl.''),
              (''type'', JStr ''string'')])]),
        (''required'', JArr [JStr ''url'']),
        (''type'', JStr ''object'')],
     t_Handle = crawlHandler S P reg defaults metrics\<rparr>"

section \<open>web_search\<close>

definition result_json :: "SearchResult \<Rightarrow> json" where
  "result_json r = JObj
     ([(''title'', JStr (sr_Title r)), (''url'', JStr (sr_URL r))] @
      (if sr_Snippet r = [] then [] else [(''snippet'', JStr (sr_Snippet r))]) @
      (if sr_Engine r = [] then [] else [(''engine'', JStr (sr_Engine r))]) @
      (if sr_PublishedDate r = [] then [] else [(''published_date'', JStr (sr_PublishedDate r))]))"

definition search_limit :: "platform \<Rightarrow> int \<Rightarrow> args \<Rightarrow> int" where
  "search_limit P maxResults arguments =
     (let limit = (case arg_float arguments ''limit'' of
            Some l \<Rightarrow> if 1 \<le> trunc_f64 l then int_of_float P l else defaultSearchLimit
          | None \<Rightarrow> defaultSearchLimit)
      in if maxResults < limit then maxResults else limit)"

definition search_time_range :: "args \<Rightarrow> string res" where
  "search_time_range arguments = (case arg_string arguments ''time_range'' of
       Some tr \<Rightarrow>
         (if tr = [] then Ok []
          else if tr \<in> {''day'', ''week'', ''month'', ''year''} then Ok tr
          else Fail (InvalidParams ''time_range must be one of: day, week, month, year''))
     | None \<Rightarrow> Ok [])"

definition searchHandler :: "'w sys \<Rightarrow> platform \<Rightarrow> 'w searcher \<Rightarrow> int \<Rightarrow> bool \<Rightarrow> ctx \<Rightarrow> args \<Rightarrow> 'w \<Rightarrow> ToolResult res \<times> 'w" where
  "searchHandler S P se maxResults metrics c arguments w =
     (let query = string_or_empty (arg_string arguments ''query'') in
      if query = [] then (Fail (InvalidParams ''missing required argument: query''), w)
      else andThen (search_time_range arguments, w) (\<lambda>tr w.
        let opts = \<lparr>Limit = search_limit P maxResults arguments, TimeRange = tr,
              Language = string_or_empty (arg_string arguments ''language'')\<rparr>;
            obs = (\<lambda>err w. if metrics then ObserveSearch S (se_Name se) (statusOf err) w else w)
        in case se_Search se c query opts w of
            (Panic m, w1) \<Rightarrow> (Panic m, w1)
          | (Fail err, w1) \<Rightarrow> (Fail err, obs (Some err) w1)
          | (Ok results, w1) \<Rightarrow>
              (Ok \<lparr>tr_Text = Marshal (JArr (map result_json results)),
                 tr_Meta = [''query'' \<mapsto> query, ''count'' \<mapsto> Itoa (int (length results)), ''searcher'' \<mapsto> se_Name se]\<rparr>,
               obs None w1)))"

definition WebSearch :: "'w sys \<Rightarrow> platform \<Rightarrow> 'w searcher \<Rightarrow> int \<Rightarrow> bool \<Rightarrow> 'w Tool" where
  "WebSearch S P se maxResults metrics = \<lparr>
     t_Name = ''web_search'',
     t_Description = ''Search the web through the self-hosted SearXNG instance and return result URLs with titles and snippets as JSON. Reddit threads surface via the general engines (Google/Bing/DDG). Follow up with `fetch_url` on any returned URL to read it.'',
     t_InputSchema = JObj
       [(''properties'', JObj
          [(''language'', JObj
             [(''description'', JStr (apostrophes ''Result language code, e.g. `en` or `fr`. Default: upstream setting.'')),
              (''type'', JStr ''string'')]),
           (''limit'', JObj
             [(''description'', JStr (''Max results to return (1-'' @ Itoa maxResults @ '', default '' @ Itoa defaultSearchLimit @ '').'')),
              (''type'', JStr ''integer'')]),
           (''query'', JObj
             [(''description'', JStr ''Search query.''), (''type'', JStr ''string'')]),
           (''time_range'', JObj
             [(''description'', JStr ''Restrict results to a recency window.''),
              (''enum'', JArr [JStr ''day'', JStr ''week'', JStr ''month'', JStr ''year'']),
              (''type'', JStr ''string'')])]),
        (''required'', JArr [JStr ''query'']),
        (''type'', JStr ''object'')],
     t_Handle = searchHandler S P se maxResults metrics\<rparr>"

section \<open>Lemmas\<close>

lemma search_limit_range:
  assumes "1 \<le> n" "\<forall>x. arg_float a ''limit'' = Some x \<longrightarrow> trunc_f64 x \<le> max_int64"
  shows "1 \<le> search_limit P n a \<and> search_limit P n a \<le> n"
  using assms
  by (auto simp: search_limit_def Let_def int_of_float_def in_int64_def min_int64_def defaultSearchLimit_def
      split: option.splits)

lemma searchHandler_Ok:
  assumes "fst (searchHandler S P se n mt c a w) = Ok r"
  obtains query tr rs where "string_or_empty (arg_string a ''query'') = query" "query \<noteq> []"
    "search_time_range a = Ok tr"
    "fst (se_Search se c query \<lparr>Limit = search_limit P n a, TimeRange = tr,
        Language = string_or_empty (arg_string a ''language'')\<rparr> w) = Ok rs"
    "r = \<lparr>tr_Text = Marshal (JArr (map result_json rs)),
       tr_Meta = [''query'' \<mapsto> query, ''count'' \<mapsto> Itoa (int (length rs)), ''searcher'' \<mapsto> se_Name se]\<rparr>"
proof -
  let ?q = "string_or_empty (arg_string a ''query'')"
  from assms obtain tr where tr: "?q \<noteq> []" "search_time_range a = Ok tr"
    by (cases "search_time_range a") (auto simp: searchHandler_def Let_def split: if_splits)
  let ?o = "\<lparr>Limit = search_limit P n a, TimeRange = tr, Language = string_or_empty (arg_string a ''language'')\<rparr>"
  from assms tr obtain rs where "fst (se_Search se c ?q ?o w) = Ok rs"
    "r = \<lparr>tr_Text = Marshal (JArr (map result_json rs)),
       tr_Meta = [''query'' \<mapsto> ?q, ''count'' \<mapsto> Itoa (int (length rs)), ''searcher'' \<mapsto> se_Name se]\<rparr>"
    by (cases "se_Search se c ?q ?o w"; cases "fst (se_Search se c ?q ?o w)")
       (auto simp: searchHandler_def Let_def)
  with tr that show thesis by blast
qed

context searcher_contract
begin

lemma handler_bounded:
  assumes "se_Search se = search" "fst (searchHandler S P se n mt c a w) = Ok r" "1 \<le> n"
    and "\<forall>x. arg_float a ''limit'' = Some x \<longrightarrow> trunc_f64 x \<le> max_int64"
  shows "\<exists>rs. tr_Text r = Marshal (JArr (map result_json rs)) \<and> int (length rs) \<le> n \<and>
    tr_Meta r ''count'' = Some (Itoa (int (length rs)))"
proof -
  from assms(2) obtain query tr rs where h:
    "fst (search c query \<lparr>Limit = search_limit P n a, TimeRange = tr,
        Language = string_or_empty (arg_string a ''language'')\<rparr> w) = Ok rs"
    "r = \<lparr>tr_Text = Marshal (JArr (map result_json rs)),
       tr_Meta = [''query'' \<mapsto> query, ''count'' \<mapsto> Itoa (int (length rs)), ''searcher'' \<mapsto> se_Name se]\<rparr>"
    unfolding assms(1) [symmetric] by (rule searchHandler_Ok)
  have "int (length rs) \<le> n"
    using search_limit_range [OF assms(3,4), of P] by (intro found_bounded [OF h(1)]) simp_all
  with h(2) show ?thesis by auto
qed

lemma handler_blank:
  assumes "se_Search se = search" "TrimSpace (string_or_empty (arg_string a ''query'')) = []"
  shows "fst (searchHandler S P se n mt c a w) \<noteq> Ok r"
proof
  assume "fst (searchHandler S P se n mt c a w) = Ok r"
  then show False
    by (rule searchHandler_Ok) (use assms blank in \<open>auto simp: assms(1)\<close>)
qed

end

section \<open>A search call\<close>

definition example_args :: "json option \<Rightarrow> args" where
  "example_args limit = (\<lambda>k. if k = ''query'' then Some (JStr ''q'') else if k = ''limit'' then limit else None)"

lemma example_call:
  "fst (searchHandler (steady (reply 200 (Marshal example_hits))) amd64
      (searxng_searcher (steady (reply 200 (Marshal example_hits))) (NewSearcher ''http://s/'')) 1 False c (example_args limit) ()) =
    (let rs = map result_of (clamp_hits (search_limit amd64 1 (example_args limit)) example_hit_list) in
     Ok \<lparr>tr_Text = Marshal (JArr (map result_json rs)),
       tr_Meta = [''query'' \<mapsto> ''q'', ''count'' \<mapsto> Itoa (int (length rs)), ''searcher'' \<mapsto> ''searxng'']\<rparr>)"
  by (simp add: searchHandler_def example_args_def arg_string_def string_or_empty_def search_time_range_def
      searxng_searcher_def example_search_any Let_def comp_assoc)

section \<open>Properties\<close>

text \<open>
  C34: A search tool call returns at most the configured maximum of results, as a JSON array with
  their number in the metadata, for every limit argument that fits into 64 bits; and a query of
  white space never returns anything.
\<close>

theorem web_search_bounded:
  assumes "1 \<le> maxResults" "\<forall>x. arg_float a ''limit'' = Some x \<longrightarrow> trunc_f64 x \<le> max_int64"
    and "fst (t_Handle (WebSearch S P (searxng_searcher S s) maxResults mt) c a w) = Ok r"
  shows "(\<exists>rs. tr_Text r = Marshal (JArr (map result_json rs)) \<and> int (length rs) \<le> maxResults \<and>
      tr_Meta r ''count'' = Some (Itoa (int (length rs)))) \<and>
    TrimSpace (string_or_empty (arg_string a ''query'')) \<noteq> []"
proof -
  have h: "fst (searchHandler S P (searxng_searcher S s) maxResults mt c a w) = Ok r"
    using assms(3) by (simp add: WebSearch_def)
  have se: "se_Search (searxng_searcher S s) = Search S s" by (simp add: searxng_searcher_def)
  show ?thesis
    using searxng.handler_bounded [OF se h assms(1,2)] searxng.handler_blank [OF se] h by blast
qed

theorem web_search_bounded_witness:
  "\<exists>r rs. fst (t_Handle (WebSearch (steady (reply 200 (Marshal example_hits))) amd64
      (searxng_searcher (steady (reply 200 (Marshal example_hits))) (NewSearcher ''http://s/'')) 1 False) RequestCtx (example_args None) ()) = Ok r \<and>
    tr_Text r = Marshal (JArr (map result_json rs)) \<and> length rs \<le> 1"
proof -
  let ?S = "steady (reply 200 (Marshal example_hits))"
  have none: "\<forall>x. arg_float (example_args None) ''limit'' = Some x \<longrightarrow> trunc_f64 x \<le> max_int64"
    by (simp add: arg_float_def example_args_def)
  obtain r where r: "fst (t_Handle (WebSearch ?S amd64 (searxng_searcher ?S (NewSearcher ''http://s/'')) 1 False)
      RequestCtx (example_args None) ()) = Ok r"
    by (simp add: WebSearch_def example_call Let_def)
  from web_search_bounded [OF order_refl none r] r show ?thesis by auto
qed

text \<open>
  C35: On a platform where an out-of-range conversion yields the smallest integer, a limit of 1e19
  switches the maximum off: the tool returns every hit of an answer of the instance.
\<close>

theorem web_search_limit_overflow:
  assumes "a ''limit'' = Some (JNum ''1e19'')"
    and "fst (t_Handle (WebSearch S amd64 (searxng_searcher S s) maxResults mt) c a w) = Ok r" "0 \<le> maxResults"
  shows "\<exists>query opts resp body all. answers S c (search_http s query opts) resp \<and> read_all_limit 10485760 resp = Ok body \<and>
    json_Unmarshal dec_searchResponse body [] = Some all \<and>
    tr_Text r = Marshal (JArr (map (\<lambda>hit. result_json (result_of hit)) all)) \<and>
    tr_Meta r ''count'' = Some (Itoa (int (length all)))"
proof -
  have "ParseFloat ''1e19'' = Some (F64 4882812500000000 11)" by (simp add: float_eval)
  then have limit: "search_limit amd64 maxResults a = min_int64"
    using assms(1,3) by (simp add: search_limit_def arg_float_def int_of_float_def trunc_f64_def in_int64_def
        max_int64_def min_int64_def amd64_def)
  have "fst (searchHandler S amd64 (searxng_searcher S s) maxResults mt c a w) = Ok r"
    using assms(2) by (simp add: WebSearch_def)
  then obtain query tr rs where h:
    "fst (Search S s c query \<lparr>Limit = min_int64, TimeRange = tr,
        Language = string_or_empty (arg_string a ''language'')\<rparr> w) = Ok rs"
    "r = \<lparr>tr_Text = Marshal (JArr (map result_json rs)),
       tr_Meta = [''query'' \<mapsto> query, ''count'' \<mapsto> Itoa (int (length rs)), ''searcher'' \<mapsto> ''searxng'']\<rparr>"
    unfolding limit [symmetric] by (rule searchHandler_Ok) (simp add: searxng_searcher_def)
  let ?opts = "\<lparr>Limit = min_int64, TimeRange = tr, Language = string_or_empty (arg_string a ''language'')\<rparr>"
  from Search_Ok [OF h(1)] obtain resp body all where "answers S c (search_http s query ?opts) resp" "read_all_limit 10485760 resp = Ok body"
    "json_Unmarshal dec_searchResponse body [] = Some all" "rs = map result_of all"
    by (auto simp: search_answer_Ok clamp_hits_def min_int64_def)
  with h(2) show ?thesis
    by (intro exI [of _ query] exI [of _ ?opts] exI [of _ resp] exI [of _ body] exI [of _ all]) (simp add: comp_def)
qed

theorem web_search_limit_overflow_witness:
  "\<exists>r. fst (t_Handle (WebSearch (steady (reply 200 (Marshal example_hits))) amd64
      (searxng_searcher (steady (reply 200 (Marshal example_hits))) (NewSearcher ''http://s/'')) 1 False) RequestCtx
      (example_args (Some (JNum ''1e19''))) ()) = Ok r \<and> (\<exists>n. tr_Meta r ''count'' = Some (Itoa (int n)))"
proof -
  let ?S = "steady (reply 200 (Marshal example_hits))" and ?a = "example_args (Some (JNum ''1e19''))"
  have a: "?a ''limit'' = Some (JNum ''1e19'')" by (simp add: example_args_def)
  obtain r where r: "fst (t_Handle (WebSearch ?S amd64 (searxng_searcher ?S (NewSearcher ''http://s/'')) 1 False)
      RequestCtx ?a ()) = Ok r"
    by (simp add: WebSearch_def example_call Let_def)
  have "0 \<le> (1 :: int)" by simp
  from web_search_limit_overflow [OF a r this] r show ?thesis by blast
qed

end
