(* ===== verification/Crawl_Concurrency.thy ===== *)
theory Crawl_Concurrency
  imports Registry
begin

text \<open>
  Crawls that run at the same time share one limiter.  A crawl is the sequence of the events it
  causes, which is what \<open>logged\<close> records, and the limiter is the step relation of \<open>Limiter\<close>: an event
  \<open>EvAcquire\<close> is a call of \<open>Acquire\<close>, after which the goroutine stays inside the limiter until it holds
  the slot, and \<open>EvRelease\<close> is the release.  All interleavings are covered, as are all outcomes of
  the environment, because every crawl may be the log of a run from a state of its own.
\<close>

section \<open>Crawls that use slots properly\<close>

fun disciplined :: "(string \<Rightarrow> bool) \<Rightarrow> nat \<Rightarrow> string option \<Rightarrow> event list \<Rightarrow> bool" where
  \<comment> \<open>slots are those of own hosts, taken one at a time and returned; outside them at most k requests\<close>
  "disciplined own k slot [] \<longleftrightarrow> slot = None"
| "disciplined own k slot (EvAcquire h # es) \<longleftrightarrow> slot = None \<and> own h \<and> disciplined own k (Some h) es"
| "disciplined own k slot (EvRelease h # es) \<longleftrightarrow> slot = Some h \<and> disciplined own k None es"
| "disciplined own k slot (EvHttp c q # es) \<longleftrightarrow>
     (case slot of Some h \<Rightarrow> disciplined own k slot es | None \<Rightarrow> 0 < k \<and> disciplined own (k - 1) None es)"
| "disciplined own k slot (e # es) \<longleftrightarrow> disciplined own k slot es"

lemma disciplined_mono: "disciplined own k slot es \<Longrightarrow> k \<le> k' \<Longrightarrow> disciplined own k' slot es"
proof (induction es arbitrary: k k' slot)
  case (Cons e es)
  show ?case
  proof (cases e)
    case (EvHttp c q)
    with Cons.prems Cons.IH [of k slot k'] Cons.IH [of "k - 1" None "k' - 1"] show ?thesis
      by (cases slot) auto
  qed (use Cons in auto)
qed simp

lemma disciplined_free:
  assumes "length (filter is_http a) \<le> m" "filter is_limiter a = []" "disciplined own k None b"
  shows "disciplined own (m + k) None (a @ b)"
  using assms(1,2)
proof (induction a arbitrary: m)
  case Nil
  from disciplined_mono [OF assms(3), of "m + k"] show ?case by simp
next
  case (Cons e a)
  show ?case
  proof (cases e)
    case (EvHttp c q)
    with Cons.prems obtain m' where "m = Suc m'" by (cases m) auto
    with EvHttp Cons.prems Cons.IH [of m'] show ?thesis by simp
  qed (use Cons in auto)
qed

lemma disciplined_body:
  "filter is_limiter a = [] \<Longrightarrow> disciplined own k (Some h) (a @ b) \<longleftrightarrow> disciplined own k (Some h) b"
proof (induction a)
  case (Cons e a)
  then show ?case by (cases e) auto
qed simp

lemma disciplined_bracketed:
  assumes "bracketed host Q ls" "\<And>h. host h \<Longrightarrow> own h" "\<And>es. Q es \<Longrightarrow> filter is_limiter es = []"
  shows "disciplined own 0 None ls"
  using assms by (auto simp: bracketed_def disciplined_body)

lemma lookups_quiet: "list_all is_lookup a \<Longrightarrow> filter is_http a = [] \<and> filter is_limiter a = []"
proof (induction a)
  case (Cons e a)
  then show ?case by (cases e) auto
qed simp

lemma disciplined_lookups: "list_all is_lookup a \<Longrightarrow> disciplined own k None b \<Longrightarrow> disciplined own k None (a @ b)"
  using disciplined_free [of a 0 own k b] lookups_quiet [of a] by simp

lemma retry_events_no_slot: "retry_events c q n ls \<Longrightarrow> filter is_limiter ls = []"
proof -
  have "list_all (retry_event c q) ls \<Longrightarrow> filter is_limiter ls = []"
  proof (induction ls)
    case (Cons e ls)
    then show ?case by (cases e) auto
  qed simp
  then show "retry_events c q n ls \<Longrightarrow> filter is_limiter ls = []" by (simp add: retry_events_def)
qed

lemma posts_to_no_slot: "posts_to u n ls \<Longrightarrow> filter is_limiter ls = [] \<and> length (filter is_http ls) \<le> n"
proof -
  assume p: "posts_to u n ls"
  have "list_all (\<lambda>e. \<not> is_limiter e) ls"
    using p unfolding posts_to_def by (elim conjE list.pred_mono_strong) (auto split: event.splits)
  moreover have "length (filter is_http ls) \<le> n"
    using p length_filter_le [of is_http ls] unfolding posts_to_def by linarith
  ultimately show ?thesis by (simp add: filter_empty_conv list_all_iff)
qed

section \<open>What the limiter may rely on\<close>

locale slotted_engine = engine_contract crawl
  for crawl :: "ctx \<Rightarrow> string \<Rightarrow> EngineOptions \<Rightarrow> 'w \<times> event list \<Rightarrow> Document res \<times> 'w \<times> event list" +
  fixes own :: "string \<Rightarrow> string \<Rightarrow> bool"
    and outside :: "string \<Rightarrow> nat"
  assumes slotted: "emits (disciplined (own u) (outside u) None) (crawl c u eo (w, l)) l"
begin

lemma run_disciplined: "disciplined (own u) (outside u) None (snd (snd (crawl c u eo (w, []))))"
  using slotted [of u c eo w "[]"] by (simp add: emits_def)

end

interpretation reddit_slotted: slotted_engine "Crawl (logged S) P toon E" "\<lambda>u h. h = ''reddit.com''" share_posts for S P toon E
proof unfold_locales
  fix c u eo w l
  show "emits (disciplined (\<lambda>h. h = ''reddit.com'') (share_posts u) None) (Crawl (logged S) P toon E c u eo (w, l)) l"
  proof (rule emits_weaken [OF Crawl_trace])
    fix ls assume "crawl_trace (re_crawl4aiURL E) (share_posts u) (1 + nat (MaxRounds (resolveOptions E eo))) ls"
    then obtain a b where ab: "ls = a @ b" "posts_to (re_crawl4aiURL E) (share_posts u) a"
      "bracketed ((=) ''reddit.com'') (posts_to (re_crawl4aiURL E) (1 + nat (MaxRounds (resolveOptions E eo)))) b"
      unfolding crawl_trace_def by blast
    have "disciplined (\<lambda>h. h = ''reddit.com'') 0 None b"
      by (rule disciplined_bracketed [OF ab(3)]) (auto dest: posts_to_no_slot)
    with posts_to_no_slot [OF ab(2)] disciplined_free [of a "share_posts u" _ 0 b] ab(1)
    show "disciplined (\<lambda>h. h = ''reddit.com'') (share_posts u) None ls" by simp
  qed
qed

interpretation crawl4ai_slotted: slotted_engine "Crawl4ai_Crawl (logged S) P E" "\<lambda>u h. slotFor u = Ok h" "\<lambda>_. 0" for S P E
  by unfold_locales
     (rule emits_weaken [OF Crawl4ai_events], erule disciplined_bracketed, assumption, erule retry_events_no_slot)

text \<open>A registry is such an engine when each engine is one for the addresses it is given.\<close>

lemma registry_slotted:
  assumes "engine_contract (Registry_Crawl (logged S) r)"
    and "\<And>u e c eo w l. Resolve r u = Some e \<Longrightarrow>
      emits (disciplined (own u) (outside u) None) (en_Crawl e c u eo (w, l)) l"
  shows "slotted_engine (Registry_Crawl (logged S) r) own outside"
proof (rule slotted_engine.intro [OF assms(1)], unfold_locales)
  fix c u eo w l
  show "emits (disciplined (own u) (outside u) None) (Registry_Crawl (logged S) r c u eo (w, l)) l"
    by (rule Registry_emits [OF assms(2)])
       (use disciplined_lookups [of _ "own u" "outside u" "[]"] in \<open>auto intro: disciplined_lookups\<close>)
qed

section \<open>Crawls and the limiter\<close>

record crawls =
  cr_limiter :: lstate
  cr_progs :: "event list list"        \<comment> \<open>what each crawl has still to do\<close>

fun at_rest :: "proc \<Rightarrow> bool" where
  \<comment> \<open>the goroutine runs code of the crawl, not of the limiter\<close>
  "at_rest Idle = True"
| "at_rest (Holding h) = True"
| "at_rest p = False"

inductive cstep :: "int \<Rightarrow> int \<Rightarrow> crawls \<Rightarrow> crawls \<Rightarrow> bool" for cap minDelay where
  act: "i < length (cr_progs s) \<Longrightarrow> cr_progs s ! i = e # es \<Longrightarrow> \<not> is_limiter e \<Longrightarrow>
    at_rest (procs (cr_limiter s) ! i) \<Longrightarrow>
    cstep cap minDelay s (s\<lparr>cr_progs := (cr_progs s)[i := es]\<rparr>)"
| acquire: "i < length (cr_progs s) \<Longrightarrow> cr_progs s ! i = EvAcquire h # es \<Longrightarrow>
    procs (cr_limiter s) ! i = Idle \<Longrightarrow> l' = (cr_limiter s)\<lparr>procs := (procs (cr_limiter s))[i := Waiting h]\<rparr> \<Longrightarrow>
    lstep cap minDelay (cr_limiter s) l' \<Longrightarrow>
    cstep cap minDelay s (s\<lparr>cr_limiter := l', cr_progs := (cr_progs s)[i := es]\<rparr>)"
| release: "i < length (cr_progs s) \<Longrightarrow> cr_progs s ! i = EvRelease h # es \<Longrightarrow>
    procs (cr_limiter s) ! i = Holding h \<Longrightarrow> l' = (cr_limiter s)\<lparr>
      lastSend := (lastSend (cr_limiter s))(h := Some (now (cr_limiter s))),
      procs := (procs (cr_limiter s))[i := Releasing h]\<rparr> \<Longrightarrow>
    lstep cap minDelay (cr_limiter s) l' \<Longrightarrow>
    cstep cap minDelay s (s\<lparr>cr_limiter := l', cr_progs := (cr_progs s)[i := es]\<rparr>)"
| inside: "lstep cap minDelay (cr_limiter s) l' \<Longrightarrow>
    (\<And>i. i < length (procs (cr_limiter s)) \<Longrightarrow> at_rest (procs (cr_limiter s) ! i) \<Longrightarrow>
      procs l' ! i = procs (cr_limiter s) ! i) \<Longrightarrow>
    cstep cap minDelay s (s\<lparr>cr_limiter := l'\<rparr>)"

definition cinit :: "event list list \<Rightarrow> crawls" where
  "cinit progs = \<lparr>cr_limiter = linit (length progs), cr_progs = progs\<rparr>"

definition creachable :: "int \<Rightarrow> int \<Rightarrow> event list list \<Rightarrow> crawls \<Rightarrow> bool" where
  "creachable cap minDelay progs s \<longleftrightarrow> (cstep cap minDelay)\<^sup>*\<^sup>* (cinit progs) s"

section \<open>The limiter of running crawls is the limiter\<close>

lemma cstep_limiter:
  "cstep cap md s s' \<Longrightarrow> cr_limiter s' = cr_limiter s \<or> lstep cap md (cr_limiter s) (cr_limiter s')"
  by (induction rule: cstep.induct) auto

lemma creachable_limiter:
  "creachable cap md progs s \<Longrightarrow> lreachable cap md (length progs) (cr_limiter s)"
  unfolding creachable_def
proof (induction rule: rtranclp_induct)
  case (step s s')
  then show ?case using cstep_limiter [OF step(2)] by (auto simp: lreachable_def)
qed (simp add: lreachable_def cinit_def)

section \<open>Where a crawl is\<close>

fun slot_of :: "proc \<Rightarrow> string option" where
  "slot_of Idle = None"
| "slot_of (Releasing h) = None"
| "slot_of (Waiting h) = Some h"
| "slot_of (Checking h) = Some h"
| "slot_of (Sleeping h t) = Some h"
| "slot_of (Holding h) = Some h"

lemma lstep_inside:
  assumes "lstep cap md s s'"
    and "\<And>i. i < length (procs s) \<Longrightarrow> at_rest (procs s ! i) \<Longrightarrow> procs s' ! i = procs s ! i"
  shows "map slot_of (procs s') = map slot_of (procs s)"
  using assms(1)
proof cases
  case (call p h)
  with assms(2) [of p] show ?thesis by simp
next
  case (release p h)
  with assms(2) [of p] show ?thesis by simp
qed (simp_all add: map_update list_update_same_conv)

abbreviation slot :: "crawls \<Rightarrow> nat \<Rightarrow> string option" where
  "slot s i \<equiv> slot_of (procs (cr_limiter s) ! i)"

definition cinv :: "(nat \<Rightarrow> string \<Rightarrow> bool) \<Rightarrow> (nat \<Rightarrow> nat) \<Rightarrow> crawls \<Rightarrow> bool" where
  \<comment> \<open>what a crawl has still to do fits the slot it has, which is one of its own\<close>
  "cinv own outside s \<longleftrightarrow> length (procs (cr_limiter s)) = length (cr_progs s) \<and>
     (\<forall>i < length (cr_progs s). disciplined (own i) (outside i) (slot s i) (cr_progs s ! i) \<and>
        (\<forall>h. slot s i = Some h \<longrightarrow> own i h))"

lemma cinv_length: "cinv own outside s \<Longrightarrow> length (procs (cr_limiter s)) = length (cr_progs s)"
  by (simp add: cinv_def)

lemma cinv_at:
  assumes "cinv own outside s" "i < length (cr_progs s)"
  shows "disciplined (own i) (outside i) (slot s i) (cr_progs s ! i)" "slot s i = Some h \<Longrightarrow> own i h"
  using assms by (simp_all add: cinv_def)

lemma cinv_update:
  assumes "cinv own outside s" "procs (cr_limiter s') = (procs (cr_limiter s))[i := p]" "cr_progs s' = (cr_progs s)[i := es]"
    and "i < length (cr_progs s) \<Longrightarrow> disciplined (own i) (outside i) (slot_of p) es"
    and "\<And>h. i < length (cr_progs s) \<Longrightarrow> slot_of p = Some h \<Longrightarrow> own i h"
  shows "cinv own outside s'"
  unfolding cinv_def
proof (intro conjI allI impI)
  show "length (procs (cr_limiter s')) = length (cr_progs s')" using assms(1-3) by (simp add: cinv_def)
  fix j assume j: "j < length (cr_progs s')"
  show "disciplined (own j) (outside j) (slot s' j) (cr_progs s' ! j)"
    using assms(1-4) j by (cases "j = i") (simp_all add: cinv_def)
  show "own j h" if "slot s' j = Some h" for h
    using assms(1-3,5) j that by (cases "j = i") (auto simp: cinv_def)
qed

lemma cinv_init:
  "(\<And>i. i < length progs \<Longrightarrow> disciplined (own i) (outside i) None (progs ! i)) \<Longrightarrow> cinv own outside (cinit progs)"
  by (simp add: cinv_def cinit_def linit_def)

lemma disciplined_act:
  "disciplined own k sl (e # es) \<Longrightarrow> \<not> is_limiter e \<Longrightarrow> disciplined own k sl es"
  by (cases e) (auto split: option.splits intro: disciplined_mono)

lemma cinv_step: "cstep cap md s s' \<Longrightarrow> cinv own outside s \<Longrightarrow> cinv own outside s'"
proof (induction rule: cstep.induct)
  case (act i s e es)
  have "disciplined (own i) (outside i) (slot s i) es"
    using cinv_at(1) [OF act(5,1)] act(2,3) disciplined_act by metis
  with act cinv_at(2) [OF act(5,1)] show ?case by (intro cinv_update [OF act(5), of _ i "procs (cr_limiter s) ! i"]) simp_all
next
  case (acquire i s h es l')
  from cinv_at(1) [OF acquire(6,1)] acquire(2,3) have "own i h" "disciplined (own i) (outside i) (Some h) es" by simp_all
  with acquire(4) show ?case by (intro cinv_update [OF acquire(6), of _ i "Waiting h"]) simp_all
next
  case (release i s h es l')
  from cinv_at(1) [OF release(6,1)] release(2,3) have "disciplined (own i) (outside i) None es" by simp
  with release(4) show ?case by (intro cinv_update [OF release(6), of _ i "Releasing h"]) simp_all
next
  case (inside s l')
  from lstep_inside [OF inside(1,2)] have m: "map slot_of (procs l') = map slot_of (procs (cr_limiter s))" .
  then have len: "length (procs l') = length (procs (cr_limiter s))" by (rule map_eq_imp_length_eq)
  have "slot_of (procs l' ! i) = slot s i" if "i < length (cr_progs s)" for i
    using arg_cong [OF m, of "\<lambda>xs. xs ! i"] that len cinv_length [OF inside(3)] by simp
  with inside(3) len show ?case by (simp add: cinv_def)
qed

lemma cinv_reachable:
  assumes "creachable cap md progs s" "\<And>i. i < length progs \<Longrightarrow> disciplined (own i) (outside i) None (progs ! i)"
  shows "cinv own outside s"
  using assms(1) unfolding creachable_def
  by (induction rule: rtranclp_induct) (auto intro: cinv_init [OF assms(2)] cinv_step)

lemma progs_length: "creachable cap md progs s \<Longrightarrow> length (cr_progs s) = length progs"
  unfolding creachable_def
proof (induction rule: rtranclp_induct)
  case (step s s')
  from step(2,3) show ?case by cases auto
qed (simp add: cinit_def)

section \<open>Requests in flight\<close>

definition sending :: "crawls \<Rightarrow> nat \<Rightarrow> bool" where
  \<comment> \<open>the crawl is at an HTTP request\<close>
  "sending s i \<longleftrightarrow> i < length (cr_progs s) \<and> at_rest (procs (cr_limiter s) ! i) \<and>
     (\<exists>c q es. cr_progs s ! i = EvHttp c q # es)"

definition holds :: "crawls \<Rightarrow> string \<Rightarrow> nat \<Rightarrow> bool" where
  "holds s h i \<longleftrightarrow> i < length (cr_progs s) \<and> procs (cr_limiter s) ! i = Holding h"

lemma sending_holds:
  assumes "cinv own outside s" "sending s i" "outside i = 0"
  shows "\<exists>h. holds s h i \<and> own i h"
proof -
  have i: "i < length (cr_progs s)" using assms(2) by (simp add: sending_def)
  with assms cinv_at [OF assms(1) i] show ?thesis
    by (cases "procs (cr_limiter s) ! i") (auto simp: sending_def holds_def)
qed

lemma holds_cap:
  assumes "creachable cap md progs s"
  shows "int (card {i. holds s h i}) \<le> max 0 cap"
proof -
  let ?l = "cr_limiter s"
  have "length (procs ?l) = length progs"
    by (rule lprocs_length [OF creachable_limiter [OF assms]])
  then have "{i. holds s h i} \<subseteq> {i. i < length (procs ?l) \<and> holds_unit h (procs ?l ! i)}"
    using progs_length [OF assms] by (auto simp: holds_def)
  then have "card {i. holds s h i} \<le> length (filter (holds_unit h) (procs ?l))"
    unfolding length_filter_conv_card by (intro card_mono) auto
  moreover have "units ?l h \<le> max 0 cap"
    using sem_inv_reachable [OF creachable_limiter [OF assms], of h] by (simp add: sem_inv_def)
  ultimately show ?thesis by linarith
qed

lemma holds_spaced:
  assumes "creachable cap md progs s" "cap \<le> 1" "holds s h i" "lastSend (cr_limiter s) h = Some t"
  shows "t + md \<le> now (cr_limiter s)"
proof -
  have "length (procs (cr_limiter s)) = length (cr_progs s)"
    using lprocs_length [OF creachable_limiter [OF assms(1)]] progs_length [OF assms(1)] by simp
  with spacing_reachable [OF creachable_limiter [OF assms(1)] assms(2), of h] assms(3,4) show ?thesis
    unfolding gap_inv_def holds_def by (auto dest!: spec [of _ i])
qed

section \<open>Every crawl can finish\<close>

fun phase_weight :: "proc \<Rightarrow> nat" where
  "phase_weight Idle = 0"
| "phase_weight (Waiting h) = 5"
| "phase_weight (Checking h) = 4"
| "phase_weight (Sleeping h t) = 3"
| "phase_weight (Holding h) = 2"
| "phase_weight (Releasing h) = 1"

definition work :: "crawls \<Rightarrow> nat" where
  \<comment> \<open>bounds the steps that are left, the passing of time not counted\<close>
  "work s = 10 * sum_list (map length (cr_progs s)) + sum_list (map phase_weight (procs (cr_limiter s)))"

definition finished :: "crawls \<Rightarrow> bool" where
  "finished s \<longleftrightarrow> list_all ((=) []) (cr_progs s) \<and> list_all ((=) Idle) (procs (cr_limiter s))"

lemma phase_weight_0: "phase_weight p = 0 \<longleftrightarrow> Idle = p"
  by (cases p) auto

lemma work_0: "work s = 0 \<longleftrightarrow> finished s"
  by (simp add: work_def finished_def list_all_iff phase_weight_0 eq_commute [of "[]"])

lemma sum_list_update_less:
  fixes f :: "'a \<Rightarrow> nat"
  assumes "i < length xs"
  shows "sum_list (map f (xs[i := x])) + f (xs ! i) = sum_list (map f xs) + f x"
  using assms
proof (induction xs arbitrary: i)
  case (Cons a xs)
  then show ?case by (cases i) auto
qed simp

lemma work_progs:
  assumes "i < length (cr_progs s)" "cr_progs s ! i = e # es" "i < length (procs (cr_limiter s))"
    and "cr_progs s' = (cr_progs s)[i := es]" "procs (cr_limiter s') = (procs (cr_limiter s))[i := p]"
    and "phase_weight p \<le> phase_weight (procs (cr_limiter s) ! i) + 5"
  shows "work s' < work s"
  using sum_list_update_less [OF assms(1), of length es] sum_list_update_less [OF assms(3), of phase_weight p] assms
  by (simp add: work_def)

lemma work_phase:
  assumes "i < length (procs (cr_limiter s))" "procs (cr_limiter s') = (procs (cr_limiter s))[i := p]"
    "cr_progs s' = cr_progs s" "phase_weight p < phase_weight (procs (cr_limiter s) ! i)"
  shows "work s' < work s"
  using sum_list_update_less [OF assms(1), of phase_weight p] assms by (simp add: work_def)

definition later :: "crawls \<Rightarrow> crawls \<Rightarrow> bool" where
  \<comment> \<open>nothing but the time has changed\<close>
  "later s s' \<longleftrightarrow> (\<exists>t. s' = s\<lparr>cr_limiter := (cr_limiter s)\<lparr>now := t\<rparr>\<rparr>)"

lemma cstep_work:
  assumes "cstep cap md s s'" "length (procs (cr_limiter s)) = length (cr_progs s)"
  shows "work s' < work s \<or> later s s'"
  using assms(1)
proof cases
  case (act i e es)
  then have "work s' < work s"
    using assms(2) by (intro work_progs [of i s e es s' "procs (cr_limiter s) ! i"]) simp_all
  then show ?thesis ..
next
  case (acquire i h es l')
  then have "work s' < work s"
    using assms(2) by (intro work_progs [of i s _ es s' "Waiting h"]) simp_all
  then show ?thesis ..
next
  case (release i h es l')
  then have "work s' < work s"
    using assms(2) by (intro work_progs [of i s _ es s' "Releasing h"]) simp_all
  then show ?thesis ..
next
  case (inside l')
  from inside(2) show ?thesis
  proof cases
    case (tick d)
    with inside(1) show ?thesis by (auto simp: later_def)
  next
    case (call p h)
    with inside(3) [of p] show ?thesis by simp
  next
    case (release p h)
    with inside(3) [of p] show ?thesis by simp
  next
    case (enter p h)
    with inside(1) have "work s' < work s" by (intro work_phase [of p s s' "Checking h"]) simp_all
    then show ?thesis ..
  next
    case (sleep p h j d)
    with inside(1) have "work s' < work s" by (intro work_phase [of p s s' "Sleeping h (now (cr_limiter s) + d)"]) simp_all
    then show ?thesis ..
  next
    case (go p h)
    with inside(1) have "work s' < work s" by (intro work_phase [of p s s' "Holding h"]) simp_all
    then show ?thesis ..
  next
    case (wake p h t)
    with inside(1) have "work s' < work s" by (intro work_phase [of p s s' "Holding h"]) simp_all
    then show ?thesis ..
  next
    case (return p h)
    with inside(1) have "work s' < work s" by (intro work_phase [of p s s' Idle]) simp_all
    then show ?thesis ..
  qed
qed

abbreviation csteps :: "int \<Rightarrow> int \<Rightarrow> crawls \<Rightarrow> crawls \<Rightarrow> bool" where
  "csteps cap md \<equiv> (cstep cap md)\<^sup>*\<^sup>*"

text \<open>A goroutine inside the limiter can go on, unless it waits for a unit.\<close>

lemma inside_step:
  assumes "lstep cap md (cr_limiter s) l'" "procs l' = (procs (cr_limiter s))[p := x]"
    and "p < length (procs (cr_limiter s))" "\<not> at_rest (procs (cr_limiter s) ! p)"
    and "phase_weight x < phase_weight (procs (cr_limiter s) ! p)"
  shows "\<exists>s'. csteps cap md s s' \<and> work s' < work s"
proof -
  have "cstep cap md s (s\<lparr>cr_limiter := l'\<rparr>)"
    using assms(2,4) by (intro cstep.inside [OF assms(1)]) (metis nth_list_update_neq)
  moreover have "work (s\<lparr>cr_limiter := l'\<rparr>) < work s"
    by (rule work_phase [OF assms(3), of _ x]) (simp_all add: assms(2,5))
  ultimately show ?thesis by blast
qed

lemma unit_goes_on:
  assumes "p < length (procs (cr_limiter s))"
    and "procs (cr_limiter s) ! p = Checking h \<or> (\<exists>t. procs (cr_limiter s) ! p = Sleeping h t) \<or>
      procs (cr_limiter s) ! p = Releasing h"
  shows "\<exists>s'. csteps cap md s s' \<and> work s' < work s"
  using assms(2)
proof (elim disjE exE)
  assume c: "procs (cr_limiter s) ! p = Checking h"
  show ?thesis
  proof (cases "sleep_time md (now (cr_limiter s)) (lastSend (cr_limiter s) h) 0")
    case None
    from inside_step [OF lstep.go [OF assms(1) c None] _ assms(1), of "Holding h"] c show ?thesis by simp
  next
    case (Some d)
    from inside_step [OF lstep.sleep [OF assms(1) c _ _ Some] _ assms(1), of "Sleeping h (now (cr_limiter s) + d)"] c show ?thesis by simp
  qed
next
  fix t assume c: "procs (cr_limiter s) ! p = Sleeping h t"
  let ?l = "(cr_limiter s)\<lparr>now := now (cr_limiter s) + max 1 (t - now (cr_limiter s))\<rparr>"
  let ?s = "s\<lparr>cr_limiter := ?l\<rparr>"
  have tick: "cstep cap md s ?s" by (intro cstep.inside lstep.tick) simp_all
  have p: "p < length (procs (cr_limiter ?s))" "procs (cr_limiter ?s) ! p = Sleeping h t" "t \<le> now (cr_limiter ?s)"
    using assms(1) c by auto
  have "\<exists>s'. csteps cap md ?s s' \<and> work s' < work ?s"
    by (rule inside_step [OF lstep.wake [OF p] _ p(1), of "Holding h"]) (simp_all add: p(2) c)
  moreover have "work ?s = work s" by (simp add: work_def)
  ultimately show ?thesis using tick by (metis converse_rtranclp_into_rtranclp)
next
  assume c: "procs (cr_limiter s) ! p = Releasing h"
  from inside_step [OF lstep.return [OF assms(1) c] _ assms(1), of Idle] c show ?thesis by simp
qed

lemma not_later:
  assumes "i < length (cr_progs s)" "cr_progs s ! i = e # es" "cr_progs s' = (cr_progs s)[i := es]"
  shows "\<not> later s s'"
proof
  assume "later s s'"
  then have "(cr_progs s)[i := es] ! i = cr_progs s ! i" using assms(3) by (auto simp: later_def)
  with assms(1,2) show False by simp
qed

text \<open>A crawl that runs its own code can go on, unless it is at its end.\<close>

lemma crawl_goes_on:
  assumes "cinv own outside s" "0 \<le> cap" "i < length (cr_progs s)" "cr_progs s ! i = e # es"
    and "at_rest (procs (cr_limiter s) ! i)"
  shows "\<exists>s'. csteps cap md s s' \<and> work s' < work s"
proof -
  note d = cinv_at(1) [OF assms(1,3), unfolded assms(4)]
  have i: "i < length (procs (cr_limiter s))" using assms(1,3) cinv_length by simp
  have "\<exists>s'. cstep cap md s s' \<and> \<not> later s s'"
  proof (cases "is_limiter e")
    case False
    from cstep.act [OF assms(3,4) False assms(5)] show ?thesis
      by (intro exI conjI) (assumption, rule not_later [OF assms(3,4)], simp)
  next
    case True
    then consider h where "e = EvAcquire h" | h where "e = EvRelease h" by (cases e) auto
    then show ?thesis
    proof cases
      case 1
      with d assms(5) have idle: "procs (cr_limiter s) ! i = Idle" by (cases "procs (cr_limiter s) ! i") auto
      from cstep.acquire [OF assms(3) assms(4) [unfolded 1] idle refl lstep.call [OF i idle assms(2)]]
      show ?thesis by (intro exI conjI) (assumption, rule not_later [OF assms(3,4)], simp)
    next
      case 2
      with d assms(5) have hold: "procs (cr_limiter s) ! i = Holding h" by (cases "procs (cr_limiter s) ! i") auto
      from cstep.release [OF assms(3) assms(4) [unfolded 2] hold refl lstep.release [OF i hold]]
      show ?thesis by (intro exI conjI) (assumption, rule not_later [OF assms(3,4)], simp)
    qed
  qed
  then show ?thesis using cstep_work [OF _ cinv_length [OF assms(1)]] by blast
qed

lemma crawls_go_on:
  assumes "cinv own outside s" "\<And>h. sem_inv cap h (cr_limiter s)" "1 \<le> cap" "\<not> finished s"
  shows "\<exists>s'. csteps cap md s s' \<and> work s' < work s"
proof (rule ccontr)
  assume stuck: "\<not> ?thesis"
  let ?ps = "procs (cr_limiter s)"
  have len: "length ?ps = length (cr_progs s)" using assms(1) by (rule cinv_length)
  have ended: "at_rest (?ps ! i) \<Longrightarrow> ?ps ! i = Idle \<and> cr_progs s ! i = []" if i: "i < length ?ps" for i
  proof -
    assume rest: "at_rest (?ps ! i)"
    have "cr_progs s ! i = []"
      using crawl_goes_on [OF assms(1) _ _ _ rest] stuck assms(3) i len by (cases "cr_progs s ! i") auto
    with cinv_at(1) [OF assms(1), of i] i len rest show ?thesis by (cases "?ps ! i") auto
  qed
  have unit: "\<not> holds_unit h (?ps ! i)" if "i < length ?ps" for i h
    using unit_goes_on [OF that, of h cap md] ended [OF that] stuck by (cases "?ps ! i") auto
  have idle: "?ps ! i = Idle" if i: "i < length ?ps" for i
  proof (cases "?ps ! i")
    case (Waiting h)
    have "units s' h = 0" if "s' = cr_limiter s" for s'
      using unit that by (auto simp: filter_empty_conv in_set_conv_nth)
    then have "sem (cr_limiter s) h < cap" using assms(2) [of h] assms(3) by (simp add: sem_inv_def)
    from inside_step [OF lstep.enter [OF i Waiting this] _ i, of "Checking h" md] Waiting stuck show ?thesis by simp
  qed (use unit [OF i] ended [OF i] in auto)
  with ended len have "finished s" by (auto simp: finished_def list_all_length)
  with assms(4) show False ..
qed

lemma creachable_steps: "creachable cap md progs s \<Longrightarrow> csteps cap md s s' \<Longrightarrow> creachable cap md progs s'"
  unfolding creachable_def by (rule rtranclp_trans)

lemma crawls_finish:
  assumes "creachable cap md progs s" "1 \<le> cap"
    and "\<And>i. i < length progs \<Longrightarrow> disciplined (own i) (outside i) None (progs ! i)"
  shows "\<exists>s'. csteps cap md s s' \<and> finished s'"
  using assms(1)
proof (induction "work s" arbitrary: s rule: less_induct)
  case less
  show ?case
  proof (cases "finished s")
    case False
    obtain t where t: "csteps cap md s t" "work t < work s"
      using crawls_go_on [OF cinv_reachable [OF less(2) assms(3)] sem_inv_reachable [OF creachable_limiter [OF less(2)]] assms(2) False]
      by blast
    from less(1) [OF t(2) creachable_steps [OF less(2) t(1)]] t(1) show ?thesis by (meson rtranclp_trans)
  qed blast
qed

section \<open>Running the crawls of an engine\<close>

type_synonym 'w crawl_fun =
  "ctx \<Rightarrow> string \<Rightarrow> EngineOptions \<Rightarrow> 'w \<times> event list \<Rightarrow> Document res \<times> 'w \<times> event list"

definition crawl_log :: "'w crawl_fun \<Rightarrow> ctx \<Rightarrow> string \<times> EngineOptions \<times> 'w \<Rightarrow> event list" where
  \<comment> \<open>what a crawl of an address with these options does when it finds the outside in a given state\<close>
  "crawl_log crawl c j = (case j of (u, eo, w) \<Rightarrow> snd (snd (crawl c u eo (w, []))))"

context slotted_engine
begin

lemma log_disciplined: "disciplined (own (fst j)) (outside (fst j)) None (crawl_log crawl c j)"
  by (cases j) (simp add: crawl_log_def run_disciplined)

lemma running_disciplined:
  "i < length (map (crawl_log crawl c) jobs) \<Longrightarrow>
     disciplined (own (fst (jobs ! i))) (outside (fst (jobs ! i))) None (map (crawl_log crawl c) jobs ! i)"
  by (simp add: log_disciplined)

lemma running_holds:
  assumes "creachable cap md (map (crawl_log crawl c) jobs) s" "sending s i" "outside (fst (jobs ! i)) = 0"
  shows "\<exists>h. holds s h i \<and> own (fst (jobs ! i)) h"
  by (rule sending_holds [OF cinv_reachable [OF assms(1) running_disciplined] assms(2,3)])

lemma running_finish:
  "creachable cap md (map (crawl_log crawl c) jobs) s \<Longrightarrow> 1 \<le> cap \<Longrightarrow> \<exists>s'. csteps cap md s s' \<and> finished s'"
  by (rule crawls_finish [OF _ _ running_disciplined])

lemma running_work:
  assumes "creachable cap md (map (crawl_log crawl c) jobs) s" "cstep cap md s s'"
  shows "work s' < work s \<or> later s s'"
  by (rule cstep_work [OF assms(2) cinv_length [OF cinv_reachable [OF assms(1) running_disciplined]]])

end

end
