(* ===== verification/Omnifeed.thy ===== *)
theory Omnifeed
  imports Config Openwebui Mcp_Tools Crawl_Concurrency
begin

text \<open>
  \<open>cmd/omnifeed/main.go\<close>: how a configuration becomes engines, tools and servers, the choice of the
  authenticator, the readiness checks of the upstreams, and the life of the three listeners.  \<open>S\<close> is
  the environment of the shared HTTP client and \<open>Sx\<close> that of the client for SearXNG.
\<close>

section \<open>Wiring\<close>

definition redditDefaults :: "Config \<Rightarrow> Options" where
  "redditDefaults cfg = \<lparr>KeepDepth = False, KeepCreated = True, MaxRounds = RedditMaxRounds cfg,
     Format = RedditFormatCfg cfg\<rparr>"

definition build_registry :: "'w sys \<Rightarrow> platform \<Rightarrow> toon \<Rightarrow> Config \<Rightarrow> 'w Registry" where
  "build_registry S P toon cfg =
     BlockPrivateIPs (BlockPrivateIPsCfg cfg)
       (Fallback (crawl4ai_engine S P \<lparr>ce_endpoint = Crawl4AIURL cfg\<rparr>)
         (Register (reddit_engine S P toon (NewEngine (Crawl4AIURL cfg) (RedditTimeout cfg) (redditDefaults cfg)))
           NewRegistry))"

definition build_searcher :: "'w sys \<Rightarrow> Config \<Rightarrow> 'w searcher option" where
  "build_searcher Sx cfg =
     (if SearXNGURL cfg \<noteq> [] then Some (searxng_searcher Sx (NewSearcher (SearXNGURL cfg))) else None)"

definition build_tools :: "'w sys \<Rightarrow> 'w sys \<Rightarrow> platform \<Rightarrow> toon \<Rightarrow> Config \<Rightarrow> 'w Tool list" where
  "build_tools S Sx P toon cfg =
     [FetchURL S P (build_registry S P toon cfg) (redditDefaults cfg) True] @
     (case build_searcher Sx cfg of None \<Rightarrow> [] | Some se \<Rightarrow> [WebSearch S P se (SearchMaxResults cfg) True])"

definition choose_auth :: "Config \<Rightarrow> Authenticator res" where
  "choose_auth cfg =
     (if APIKey cfg \<noteq> [] then Ok (NewSharedBearer (APIKey cfg))
      else if AllowNoAuth cfg then Ok AlwaysAllow
      else Fail (EText (''OMNIFEED_API_KEY is not set: refusing to start the HTTP transports unauthenticated. '' @
        ''Set OMNIFEED_API_KEY=<token> to enable bearer-token auth, or OMNIFEED_DEV_NO_AUTH=true to run without auth (local/dev only)'')))"

definition upstreamReady :: "'w sys \<Rightarrow> string \<Rightarrow> string \<Rightarrow> 'w ReadyCheck" where
  "upstreamReady S name endpoint c w =
     (if endpoint = [] then (None, w)
      else if url_Parse endpoint = None then (Some (EText ''invalid request URL''), w)
      else case sys_http S (WithTimeout c (2 * second))
            \<lparr>req_method = ''GET'', req_url = endpoint, req_body = None, req_headers = []\<rparr> w of
          (Inl err, w1) \<Rightarrow> (Some (EWrap (name @ '' unreachable'') err), w1)
        | (Inr resp, w1) \<Rightarrow> (None, w1))"

datatype mux = mainMux | mcpMux | obsMux

record serverSpec =
  sp_name :: string
  sp_addr :: string
  sp_handler :: mux
  sp_writeTimeout :: int

record 'w App =
  app_loader :: "'w Loader"
  app_mcp :: "'w McpServer"
  app_health :: "'w Health"
  app_pprof :: bool
  app_specs :: "serverSpec list"

datatype 'w startup = StdioMode "'w McpServer" | HttpMode "'w App"

definition run_setup :: "'w sys \<Rightarrow> 'w sys \<Rightarrow> platform \<Rightarrow> toon \<Rightarrow> string \<Rightarrow> Config \<Rightarrow> 'w startup res" where
  \<comment> \<open>run, up to the point where it starts to serve\<close>
  "run_setup S Sx P toon version cfg =
     (let tools = build_tools S Sx P toon cfg in
      if MCPStdio cfg then Ok (StdioMode (NewMcpServer tools None version))
      else or_return (choose_auth cfg) (\<lambda>authn.
        Ok (HttpMode \<lparr>
          app_loader = NewLoader (build_registry S P toon cfg) authn True (MaxURLsPerRequest cfg)
            (BlockPrivateIPsCfg cfg) (redditDefaults cfg),
          app_mcp = NewMcpServer tools (Some authn) version,
          app_health = NewHealth (5 * second)
            ([upstreamReady S ''crawl4ai'' (Crawl4AIURL cfg)] @
             (if build_searcher Sx cfg \<noteq> None
              then [upstreamReady Sx ''searxng'' (SearXNGURL cfg @ ''/healthz'')] else [])),
          app_pprof = EnablePprof cfg,
          app_specs =
            [\<lparr>sp_name = ''loader'', sp_addr = ListenAddr cfg, sp_handler = mainMux, sp_writeTimeout = 300 * second\<rparr>,
             \<lparr>sp_name = ''mcp'', sp_addr = MCPListenAddr cfg, sp_handler = mcpMux, sp_writeTimeout = 300 * second\<rparr>,
             \<lparr>sp_name = ''observability'', sp_addr = MetricsAddr cfg, sp_handler = obsMux, sp_writeTimeout = 30 * second\<rparr>]\<rparr>)))"

definition Version :: string where
  \<comment> \<open>the default of the version stamp; the linker puts the release in its place\<close>
  "Version = ''dev''"

fun Is_Canceled :: "go_error \<Rightarrow> bool" where
  \<comment> \<open>errors.Is(err, context.Canceled)\<close>
  "Is_Canceled Canceled = True"
| "Is_Canceled (EWrap p e) = Is_Canceled e"
| "Is_Canceled (FetchError k code m (Some e)) = Is_Canceled e"
| "Is_Canceled e = False"

definition exit_status :: "unit res \<Rightarrow> int" where
  \<comment> \<open>what main makes of the result of run; the runtime ends a process that panics with 2\<close>
  "exit_status r = (case r of Ok _ \<Rightarrow> 0 | Fail e \<Rightarrow> if Is_Canceled e then 0 else 1 | Panic m \<Rightarrow> 2)"

definition start :: "'w sys \<Rightarrow> 'w sys \<Rightarrow> platform \<Rightarrow> toon \<Rightarrow> string \<Rightarrow> (string \<Rightarrow> string) \<Rightarrow> bool \<Rightarrow> int + 'w startup" where
  \<comment> \<open>main: an exit code, or what is started; the boolean is the flag -mcp-stdio\<close>
  "start S Sx P toon version getenv mcpStdio = (case Load P getenv of
       Ok cfg \<Rightarrow>
         (case run_setup S Sx P toon version (if mcpStdio then cfg\<lparr>MCPStdio := True\<rparr> else cfg) of
            Ok s \<Rightarrow> Inr s
          | Fail e \<Rightarrow> Inl (exit_status (Fail e))
          | Panic m \<Rightarrow> Inl (exit_status (Panic m)))
     | _ \<Rightarrow> Inl 2)"

definition run_stdio :: "'w McpServer \<Rightarrow> (nat \<Rightarrow> go_error option) \<Rightarrow> string \<Rightarrow> go_error option \<Rightarrow> 'w \<Rightarrow> string \<times> int \<times> 'w" where
  \<comment> \<open>the stdio mode: what is written, and the exit code\<close>
  "run_stdio s ctxErr input inErr w = (case ServeStdio s Background ctxErr input inErr w of
       (out, r, w1) \<Rightarrow> (out, exit_status r, w1))"

section \<open>Serving a request\<close>

text \<open>
  Which handler a mux runs for a path, and how the request can end.  The handler runs in the
  goroutine of its connection, where \<open>net/http\<close> recovers from a panic and drops the connection; a
  panic in a goroutine that a handler has started ends the process.  The record holds the current
  state of the probes.  What the Prometheus and the pprof handlers write is left open.
\<close>

datatype handled = Answer http_reply | Aborted | ProcessEnds

fun patterns :: "'w App \<Rightarrow> mux \<Rightarrow> string list" where
  \<comment> \<open>what is registered on a mux\<close>
  "patterns app mainMux = RegisterLoader"
| "patterns app mcpMux = RegisterMcp"
| "patterns app obsMux = RegisterHealth @ RegisterMetrics @ (if app_pprof app then RegisterPprof else [])"

definition routes :: "'w App \<Rightarrow> mux \<Rightarrow> string \<Rightarrow> bool" where
  "routes app m path \<longleftrightarrow> list_ex (\<lambda>pattern. mux_matches pattern path) (patterns app m)"

inductive served :: "'w sys \<Rightarrow> 'w App \<Rightarrow> http_in \<Rightarrow> 'w \<Rightarrow> mux \<Rightarrow> string \<Rightarrow> handled \<Rightarrow> bool"
  for S :: "'w sys" and app :: "'w App" and r :: http_in and w :: 'w where
  no_route: "\<not> routes app m path \<Longrightarrow> served S app r w m path (Answer (http_Error ''404 page not found'' 404))"
| crawl: "crawl_outcome S (app_loader app) r w (Some answer) \<Longrightarrow> served S app r w mainMux ''/crawl'' (Answer answer)"
| crawl_panic: "crawl_outcome S (app_loader app) r w None \<Longrightarrow> served S app r w mainMux ''/crawl'' ProcessEnds"
| mcp: "serve_mcp (app_mcp app) path isFlusher connected es r w = Some (Ok answer, w') \<Longrightarrow>
    served S app r w mcpMux path (Answer answer)"
| mcp_panic: "serve_mcp (app_mcp app) path isFlusher connected es r w = Some (Panic msg, w') \<Longrightarrow>
    served S app r w mcpMux path Aborted"
| probe: "serve_health (app_health app) path RequestCtx t0 t1 w = Some (answer, h', w') \<Longrightarrow>
    served S app r w obsMux path (Answer answer)"
| diagnostics: "routes app obsMux path \<Longrightarrow> path \<notin> set RegisterHealth \<Longrightarrow> served S app r w obsMux path (Answer answer)"

section \<open>The listeners\<close>

datatype stage =
    Selecting            \<comment> \<open>blocked on the signal or the error channel\<close>
  | Draining nat         \<comment> \<open>about to shut down the server of this index\<close>
  | Stopped              \<comment> \<open>runServers has returned nil\<close>

record rstate =
  rs_serving :: "nat set"            \<comment> \<open>servers whose ListenAndServe has not returned\<close>
  rs_errs :: "nat list"              \<comment> \<open>the buffered channel errCh\<close>
  rs_marked :: bool                  \<comment> \<open>health.MarkShuttingDown has been called\<close>
  rs_stage :: stage
  rs_failed :: bool                  \<comment> \<open>whether a listener has failed\<close>

definition rinit :: "serverSpec list \<Rightarrow> rstate" where
  "rinit specs = \<lparr>rs_serving = {i. i < length specs \<and> sp_addr (specs ! i) \<noteq> []}, rs_errs = [],
     rs_marked = False, rs_stage = Selecting, rs_failed = False\<rparr>"

inductive rstep :: "nat \<Rightarrow> rstate \<Rightarrow> rstate \<Rightarrow> bool" for n where
  listen_fails: "i \<in> rs_serving s \<Longrightarrow> length (rs_errs s) < n \<Longrightarrow>
    rstep n s (s\<lparr>rs_serving := rs_serving s - {i}, rs_errs := rs_errs s @ [i], rs_failed := True\<rparr>)"
| signal: "rs_stage s = Selecting \<Longrightarrow> rstep n s (s\<lparr>rs_stage := Draining 0, rs_marked := True\<rparr>)"
| receive: "rs_stage s = Selecting \<Longrightarrow> rs_errs s = e # es \<Longrightarrow>
    rstep n s (s\<lparr>rs_errs := es, rs_stage := Draining 0, rs_marked := True\<rparr>)"
| shutdown: "rs_stage s = Draining k \<Longrightarrow> k < n \<Longrightarrow>
    rstep n s (s\<lparr>rs_serving := rs_serving s - {k}, rs_stage := Draining (k + 1)\<rparr>)"
| drained: "rs_stage s = Draining n \<Longrightarrow> rs_serving s = {} \<Longrightarrow> rstep n s (s\<lparr>rs_stage := Stopped\<rparr>)"

inductive_cases rstep_cases: "rstep n s s'"

definition rreachable :: "serverSpec list \<Rightarrow> rstate \<Rightarrow> bool" where
  "rreachable specs s \<longleftrightarrow> (rstep (length specs))\<^sup>*\<^sup>* (rinit specs) s"

definition exit_code :: "rstate \<Rightarrow> int option" where
  \<comment> \<open>what main makes of the nil that runServers returns\<close>
  "exit_code s = (if rs_stage s = Stopped then Some (exit_status (Ok ())) else None)"

section \<open>Lemmas\<close>

lemma engines_of_build:
  "engines_of (build_registry S P toon cfg) =
     [reddit_engine S P toon (NewEngine (Crawl4AIURL cfg) (RedditTimeout cfg) (redditDefaults cfg)),
      crawl4ai_engine S P \<lparr>ce_endpoint = Crawl4AIURL cfg\<rparr>]"
  by (simp add: engines_of_def build_registry_def BlockPrivateIPs_def Fallback_def Register_def NewRegistry_def)

lemma block_build [simp]: "rg_blockPrivate (build_registry S P toon cfg) = BlockPrivateIPsCfg cfg"
  by (simp add: build_registry_def BlockPrivateIPs_def)

lemma Resolve_wired:
  "Resolve (build_registry S P toon cfg) u = Some (if IsRedditURL u
     then reddit_engine S P toon (NewEngine (Crawl4AIURL cfg) (RedditTimeout cfg) (redditDefaults cfg))
     else crawl4ai_engine S P \<lparr>ce_endpoint = Crawl4AIURL cfg\<rparr>)"
  by (simp add: Resolve_def build_registry_def BlockPrivateIPs_def Fallback_def Register_def NewRegistry_def
      reddit_engine_def)

interpretation wired: engine_contract "Registry_Crawl S (build_registry S' P toon cfg)" for S S' P toon cfg
proof (rule registry_contract)
  fix e assume "e \<in> set (engines_of (build_registry S' P toon cfg))"
  then show "engine_contract (en_Crawl e)"
    by (auto simp: engines_of_build reddit_engine_def crawl4ai_engine_def
        intro: reddit.engine_contract_axioms crawl4ai.engine_contract_axioms)
qed

interpretation wired_proxied: proxied_engine "Registry_Crawl (logged S) (build_registry (logged S) P toon cfg)" "Crawl4AIURL cfg"
  for S P toon cfg
proof (rule registry_proxied)
  have "re_crawl4aiURL (NewEngine (Crawl4AIURL cfg) t d) = Crawl4AIURL cfg" for t d
    by (simp add: NewEngine_def)
  then have r: "proxied_engine (Crawl (logged S) P toon (NewEngine (Crawl4AIURL cfg) t d)) (Crawl4AIURL cfg)" for t d
    using reddit_proxied.proxied_engine_axioms [of S P toon "NewEngine (Crawl4AIURL cfg) t d"] by simp
  have c: "proxied_engine (Crawl4ai_Crawl (logged S) P \<lparr>ce_endpoint = Crawl4AIURL cfg\<rparr>) (Crawl4AIURL cfg)"
    using crawl4ai_proxied.proxied_engine_axioms [of S P "\<lparr>ce_endpoint = Crawl4AIURL cfg\<rparr>"] by simp
  fix e assume "e \<in> set (engines_of (build_registry (logged S) P toon cfg))"
  then show "proxied_engine (en_Crawl e) (Crawl4AIURL cfg)"
    using r c by (auto simp: engines_of_build reddit_engine_def crawl4ai_engine_def)
qed

text \<open>Which slot a crawl takes, and how many requests it may send before that.\<close>

definition slot_host :: "string \<Rightarrow> string \<Rightarrow> bool" where
  "slot_host u h \<longleftrightarrow> (if IsRedditURL u then h = ''reddit.com'' else slotFor u = Ok h)"

lemma slot_host_unique: "slot_host u h \<Longrightarrow> slot_host u h' \<Longrightarrow> h = h'"
  by (simp add: slot_host_def split: if_splits)

definition before_slot :: "string \<Rightarrow> nat" where
  "before_slot u = (if IsRedditURL u then share_posts u else 0)"

interpretation wired_slotted: slotted_engine
  "Registry_Crawl (logged S) (build_registry (logged S) P toon cfg)" slot_host before_slot for S P toon cfg
proof (rule registry_slotted [OF wired.engine_contract_axioms])
  fix u e c eo w l
  have "slot_host u = (if IsRedditURL u then (\<lambda>h. h = ''reddit.com'') else (\<lambda>h. slotFor u = Ok h))"
    by (simp add: fun_eq_iff slot_host_def)
  moreover assume "Resolve (build_registry (logged S) P toon cfg) u = Some e"
  ultimately show "emits (disciplined (slot_host u) (before_slot u) None) (en_Crawl e c u eo (w, l)) l"
    using reddit_slotted.slotted [where u = u] crawl4ai_slotted.slotted [where u = u]
    by (auto simp: Resolve_wired before_slot_def reddit_engine_def crawl4ai_engine_def split: if_splits)
qed

lemma choose_auth_Ok:
  "choose_auth cfg = Ok a \<longleftrightarrow> (APIKey cfg \<noteq> [] \<and> a = NewSharedBearer (APIKey cfg)) \<or>
     (APIKey cfg = [] \<and> AllowNoAuth cfg \<and> a = AlwaysAllow)"
  by (auto simp: choose_auth_def)

lemma run_setup_Http:
  "run_setup S Sx P toon v cfg = Ok (HttpMode app) \<Longrightarrow> \<not> MCPStdio cfg \<and>
     (\<exists>a. choose_auth cfg = Ok a \<and> ow_auth (app_loader app) = a \<and> ms_auth (app_mcp app) = a \<and>
        ow_registry (app_loader app) = build_registry S P toon cfg \<and> ow_metrics (app_loader app) \<and>
        ow_blockPrivate (app_loader app) = BlockPrivateIPsCfg cfg \<and>
        ow_redditDefaults (app_loader app) = redditDefaults cfg)"
  by (auto simp: run_setup_def Let_def or_return_Ok NewLoader_def NewMcpServer_def split: if_splits)

text \<open>What the choice of the authenticator at the start comes to.\<close>

lemma start_auth:
  assumes "start S Sx P toon version getenv mcpStdio = Inr (HttpMode app)"
  shows "(getenv ''OMNIFEED_API_KEY'' \<noteq> [] \<longrightarrow>
      ow_auth (app_loader app) = NewSharedBearer (getenv ''OMNIFEED_API_KEY'') \<and>
      ms_auth (app_mcp app) = NewSharedBearer (getenv ''OMNIFEED_API_KEY'')) \<and>
    (getenv ''OMNIFEED_API_KEY'' = [] \<longrightarrow> ParseBool (getenv ''OMNIFEED_DEV_NO_AUTH'') = Some True)"
proof -
  obtain cfg where cfg: "Load P getenv = Ok cfg"
    "run_setup S Sx P toon version (if mcpStdio then cfg\<lparr>MCPStdio := True\<rparr> else cfg) = Ok (HttpMode app)"
    using assms by (auto simp: start_def split: res.splits)
  from run_setup_Http [OF cfg(2)] have "run_setup S Sx P toon version cfg = Ok (HttpMode app)"
    using cfg(2) by (cases mcpStdio) auto
  from run_setup_Http [OF this] obtain a where a: "choose_auth cfg = Ok a"
    "ow_auth (app_loader app) = a" "ms_auth (app_mcp app) = a" by blast
  have key: "APIKey cfg = getenv ''OMNIFEED_API_KEY''"
    "AllowNoAuth cfg \<longleftrightarrow> ParseBool (getenv ''OMNIFEED_DEV_NO_AUTH'') = Some True"
    using Load_facts [OF cfg(1)] by blast+
  show ?thesis
    using a key by (auto simp: choose_auth_Ok)
qed

text \<open>The stdio mode ends with status 0 at the end of its input and on a signal.\<close>

lemma run_stdio_zero:
  assumes "run_stdio s ctxErr input inErr w = (out, code, w1)" "\<And>k e. ctxErr k = Some e \<Longrightarrow> Is_Canceled e"
    and "\<And>l. l \<in> set (raw_lines input) \<Longrightarrow> length l < maxLine" "inErr = None"
  shows "code \<in> {0, 2}"
proof (cases "serve_lines s Background ctxErr 0 (raw_lines input) w")
  case (fields outs r w2)
  have "Is_Canceled e" if "r = Fail e" for e
    using serve_lines_Fail [of s Background ctxErr 0 "raw_lines input" w outs e w2] fields that assms(2,3) by force
  with fields assms(1,4) show ?thesis
    by (auto simp: run_stdio_def ServeStdio_def exit_status_def split: res.splits)
qed

lemma served_refused:
  assumes "served S app r w m path out" "m \<in> {mainMux, mcpMux}"
    and "Authenticate (ow_auth (app_loader app)) (in_authorization r) = Inl e"
    and "Authenticate (ms_auth (app_mcp app)) (in_authorization r) = Inl e"
  shows "\<exists>answer. out = Answer answer \<and> out_status answer \<in> {401, 404, 405}"
  using assms(1)
proof cases
  case no_route
  then show ?thesis by (simp add: http_Error_def)
next
  case (crawl answer)
  then show ?thesis using crawl_prepare_refused [OF assms(3), of S w] by (auto simp: crawl_outcome_iff)
next
  case crawl_panic
  then show ?thesis using crawl_prepare_refused [OF assms(3), of S w] by (auto simp: crawl_outcome_iff)
qed (use assms(2) serve_mcp_refused [OF assms(4)] in \<open>auto split: if_splits\<close>)

text \<open>Every request has an outcome, and what the outcomes are.\<close>

lemma routes_main: "routes app mainMux path \<longleftrightarrow> path = ''/crawl''"
  by (simp add: routes_def RegisterLoader_def mux_matches_def has_suffix_def)

lemma routes_mcp: "routes app mcpMux path \<longleftrightarrow> path \<in> set RegisterMcp"
  by (auto simp: routes_def RegisterMcp_def mux_matches_def has_suffix_def)

lemma serve_health_registered: "serve_health h path c t0 t1 w = None \<longleftrightarrow> path \<notin> set RegisterHealth"
  by (auto simp: serve_health_def RegisterHealth_def)

lemma served_exists: "\<exists>out. served S app r w m path out"
proof (cases "routes app m path")
  case False
  then show ?thesis by (blast intro: served.no_route)
next
  case True
  show ?thesis
  proof (cases m)
    case mainMux
    with True have path: "path = ''/crawl''" by (simp add: routes_main)
    obtain out where "crawl_outcome S (app_loader app) r w out"
      using crawl_outcome_total [of S "app_loader app" r w] by (elim exE)
    then show ?thesis
      unfolding mainMux path by (cases out) (blast intro: served.crawl served.crawl_panic)+
  next
    case mcpMux
    with True have "path \<in> set RegisterMcp" by (simp add: routes_mcp)
    then obtain a w' where a: "serve_mcp (app_mcp app) path True True [] r w = Some (a, w')"
      using serve_mcp_registered [of "app_mcp app" path True True "[]" r w] by fastforce
    then show ?thesis
      unfolding mcpMux using serve_mcp_not_Fail [of "app_mcp app" path True True "[]" r w]
      by (cases a) (blast intro: served.mcp served.mcp_panic)+
  next
    case obsMux
    show ?thesis
    proof (cases "path \<in> set RegisterHealth")
      case True
      then show ?thesis
        unfolding obsMux using serve_health_registered [of "app_health app" path RequestCtx 0 0 w]
        by (auto intro: served.probe)
    qed (use True obsMux in \<open>blast intro: served.diagnostics\<close>)
  qed
qed

lemma served_ends:
  assumes "served S app r w m path out"
  shows "case out of
      Answer answer \<Rightarrow> m \<noteq> obsMux \<longrightarrow> out_status answer \<in> {200, 202, 400, 401, 404, 405, 500} \<and>
        (out_status answer = 404 \<longleftrightarrow> \<not> routes app m path)
    | Aborted \<Rightarrow> m = mcpMux \<and> (\<exists>t. Authenticate (ms_auth (app_mcp app)) (in_authorization r) = Inr t)
    | ProcessEnds \<Rightarrow> m = mainMux \<and> path = ''/crawl'' \<and> in_method r = ''POST'' \<and>
        (\<exists>t. Authenticate (ow_auth (app_loader app)) (in_authorization r) = Inr t)"
  using assms
proof cases
  case (crawl answer)
  then show ?thesis using crawl_outcome_status [OF crawl(4)] by (auto simp: routes_main)
next
  case (mcp isFlusher connected es answer w')
  moreover from mcp(3) have "path \<in> set RegisterMcp"
    using serve_mcp_registered by (metis option.distinct(1))
  ultimately show ?thesis using serve_mcp_status [OF mcp(3)] by (auto simp: routes_mcp)
next
  case (mcp_panic isFlusher connected es msg w')
  then show ?thesis
    using serve_mcp_refused [of "app_mcp app" r _ path isFlusher connected es w]
    by (cases "Authenticate (ms_auth (app_mcp app)) (in_authorization r)") (auto split: if_splits)
qed (auto simp: http_Error_def dest: crawl_outcome_dies)

definition rinv :: "nat \<Rightarrow> rstate \<Rightarrow> bool" where
  "rinv n s \<longleftrightarrow> finite (rs_serving s) \<and> rs_serving s \<subseteq> {..<n} \<and>
     length (rs_errs s) + card (rs_serving s) \<le> n \<and>
     (case rs_stage s of Selecting \<Rightarrow> rs_failed s \<longrightarrow> rs_errs s \<noteq> []
      | Draining k \<Rightarrow> rs_marked s \<and> k \<le> n \<and> rs_serving s \<subseteq> {k..<n}
      | Stopped \<Rightarrow> rs_marked s \<and> rs_serving s = {})"

lemma rinv_init: "rinv (length specs) (rinit specs)"
proof -
  let ?A = "{i. i < length specs \<and> sp_addr (specs ! i) \<noteq> []}"
  have "?A \<subseteq> {..<length specs}" by auto
  then have "finite ?A" "card ?A \<le> length specs"
    using finite_subset card_mono [of "{..<length specs}" ?A] by auto
  then show ?thesis by (auto simp: rinv_def rinit_def)
qed

lemma rinv_step: "rstep n s s' \<Longrightarrow> rinv n s \<Longrightarrow> rinv n s'"
proof (induction rule: rstep.induct)
  case (listen_fails i s)
  then have "0 < card (rs_serving s)" by (auto simp: rinv_def card_gt_0_iff)
  with listen_fails show ?case by (cases "rs_stage s") (auto simp: rinv_def card_Diff_singleton)
next
  case (signal s)
  then show ?case by (auto simp: rinv_def)
next
  case (receive s e es)
  then show ?case by (auto simp: rinv_def)
next
  case (shutdown s k)
  have "card (rs_serving s - {k}) \<le> card (rs_serving s)"
    using shutdown by (intro card_mono) (auto simp: rinv_def)
  with shutdown show ?case by (auto simp: rinv_def)
next
  case (drained s)
  then show ?case by (auto simp: rinv_def)
qed

lemma rinv_reachable: "rreachable specs s \<Longrightarrow> rinv (length specs) s"
  unfolding rreachable_def by (induction rule: rtranclp_induct) (auto intro: rinv_init rinv_step)

text \<open>The shutdown can always be carried through, and it is the end.\<close>

lemma draining_stops:
  assumes "rinv n s" "rs_stage s = Draining k"
  shows "\<exists>s'. (rstep n)\<^sup>*\<^sup>* s s' \<and> rs_stage s' = Stopped"
  using assms
proof (induction "n - k" arbitrary: s k)
  case 0
  then have "k = n" "rs_serving s = {}" by (auto simp: rinv_def)
  with rstep.drained [of s n] 0(3) show ?case by (intro exI [of _ "s\<lparr>rs_stage := Stopped\<rparr>"]) auto
next
  case (Suc m)
  let ?s = "s\<lparr>rs_serving := rs_serving s - {k}, rs_stage := Draining (k + 1)\<rparr>"
  have step: "rstep n s ?s" using Suc(2,4) by (intro rstep.shutdown) simp_all
  have "\<exists>s'. (rstep n)\<^sup>*\<^sup>* ?s s' \<and> rs_stage s' = Stopped"
    using Suc(2) by (intro Suc(1) [of "k + 1"] rinv_step [OF step Suc(3)]) simp_all
  with step show ?case by (meson converse_rtranclp_into_rtranclp)
qed

lemma listeners_stop:
  assumes "rinv n s"
  shows "\<exists>s'. (rstep n)\<^sup>*\<^sup>* s s' \<and> rs_stage s' = Stopped"
proof (cases "rs_stage s")
  case Selecting
  let ?s = "s\<lparr>rs_stage := Draining 0, rs_marked := True\<rparr>"
  have step: "rstep n s ?s" using Selecting by (rule rstep.signal)
  have "\<exists>s'. (rstep n)\<^sup>*\<^sup>* ?s s' \<and> rs_stage s' = Stopped"
    by (rule draining_stops [OF rinv_step [OF step assms]]) simp
  with step show ?thesis by (meson converse_rtranclp_into_rtranclp)
qed (use draining_stops [OF assms] in blast)+

lemma stopped_final: "rinv n s \<Longrightarrow> rs_stage s = Stopped \<Longrightarrow> \<not> rstep n s s'"
  by (auto simp: rinv_def elim: rstep_cases)

section \<open>An example\<close>

definition loader_spec :: serverSpec where
  "loader_spec = \<lparr>sp_name = ''loader'', sp_addr = '':8080'', sp_handler = mainMux, sp_writeTimeout = 300 * second\<rparr>"

definition example_cfg :: "bool \<Rightarrow> Config" where
  "example_cfg block = \<lparr>ListenAddr = '':8080'', MCPListenAddr = '':8081'', MCPStdio = False, MetricsAddr = '':9090'',
     LogLevel = ''info'', LogFormat = ''json'', EnablePprof = False, APIKey = ''secret'', AllowNoAuth = False,
     Crawl4AIURL = ''http://c:11235/crawl'', Crawl4AITimeout = 90000000000, SearXNGURL = [],
     SearXNGTimeout = 15000000000, SearchMaxResults = 25, RedditTimeout = 0, RedditMaxRounds = 3,
     RedditFormatCfg = ''toon'', MaxURLsPerRequest = 30, PerDomainConcurrency = 2, PerDomainDelay = 1500000000,
     BlockPrivateIPsCfg = block\<rparr>"

lemma example_app:
  obtains app where "run_setup S Sx P toon v (example_cfg block) = Ok (HttpMode app)"
proof -
  have "\<exists>app. run_setup S Sx P toon v (example_cfg block) = Ok (HttpMode app)"
    by (simp add: run_setup_def example_cfg_def choose_auth_def Let_def)
  then show thesis using that by blast
qed

end
