(* ===== verification/Accounting.thy ===== *)
theory Accounting
  imports Omnifeed
begin

text \<open>
  What is counted, across the components: the metrics that a crawl of the loader and a call of the
  MCP server add, the labels they carry, and the series these open in the collectors.
\<close>

section \<open>Metrics among the events\<close>

fun metrics_in :: "event list \<Rightarrow> metric list" where
  "metrics_in [] = []"
| "metrics_in (EvMetric m # es) = m # metrics_in es"
| "metrics_in (e # es) = metrics_in es"

lemma metrics_in_append [simp]: "metrics_in (l @ l') = metrics_in l @ metrics_in l'"
  by (induction l rule: metrics_in.induct) auto

lemma metrics_in_none: "list_all P ls \<Longrightarrow> (\<And>m. \<not> P (EvMetric m)) \<Longrightarrow> metrics_in ls = []"
  by (induction ls rule: metrics_in.induct) auto

lemma only_to_no_metrics: "only_to u ls \<Longrightarrow> metrics_in ls = []"
  unfolding only_to_def by (erule metrics_in_none) simp

lemma retry_events_no_metrics: "retry_events c q n ls \<Longrightarrow> metrics_in ls = []"
  unfolding retry_events_def by (erule conjE, erule metrics_in_none) simp

section \<open>The labels\<close>

definition all_labels :: "(string \<times> string) list" where
  \<comment> \<open>status and reason of a crawl\<close>
  "all_labels = (''ok'', ''ok'') # map (Pair ''error'') kind_labels"

definition counted :: "metric \<Rightarrow> bool" where
  "counted m \<longleftrightarrow> (case m of
     CrawlMetric e t s r \<Rightarrow> e \<in> {''reddit'', ''crawl4ai''} \<and> t \<in> {SelfTenant, mcpTenant} \<and> (s, r) \<in> set all_labels
   | SearchMetric n s \<Rightarrow> n = ''searxng'' \<and> s \<in> {''ok'', ''error''})"

definition all_series :: "(string \<times> string list) list" where
  \<comment> \<open>every series the process can open\<close>
  "all_series =
     [(''omnifeed_requests_total'', [e, t, s, r]).
        e \<leftarrow> [''reddit'', ''crawl4ai''], t \<leftarrow> [SelfTenant, mcpTenant], (s, r) \<leftarrow> all_labels] @
     [(''omnifeed_request_seconds'', [e, s]). e \<leftarrow> [''reddit'', ''crawl4ai''], s \<leftarrow> [''ok'', ''error'']] @
     [(''omnifeed_search_requests_total'', [''searxng'', s]). s \<leftarrow> [''ok'', ''error'']] @
     [(''omnifeed_search_request_seconds'', [''searxng'', s]). s \<leftarrow> [''ok'', ''error'']]"

lemma length_all_series: "length all_series = 44"
  by (simp add: all_series_def all_labels_def kind_labels_def enum_FailureKind_def)

lemma all_labels_status: "(s, r) \<in> set all_labels \<Longrightarrow> s \<in> {''ok'', ''error''}"
  by (auto simp: all_labels_def)

lemma crawl_series:
  "e \<in> {''reddit'', ''crawl4ai''} \<Longrightarrow> t \<in> {SelfTenant, mcpTenant} \<Longrightarrow> (s, r) \<in> set all_labels \<Longrightarrow>
     (''omnifeed_requests_total'', [e, t, s, r]) \<in> set all_series"
  unfolding all_series_def by (force simp del: set_concat)

lemma other_series:
  "e \<in> {''reddit'', ''crawl4ai''} \<Longrightarrow> s \<in> {''ok'', ''error''} \<Longrightarrow> (''omnifeed_request_seconds'', [e, s]) \<in> set all_series"
  "s \<in> {''ok'', ''error''} \<Longrightarrow> (''omnifeed_search_requests_total'', [''searxng'', s]) \<in> set all_series"
  "s \<in> {''ok'', ''error''} \<Longrightarrow> (''omnifeed_search_request_seconds'', [''searxng'', s]) \<in> set all_series"
  by (auto simp: all_series_def)

lemma series_of:
  "series NewMetrics (CrawlMetric e t s r) =
     map Ok [(''omnifeed_requests_total'', [e, t, s, r]), (''omnifeed_request_seconds'', [e, s])]"
  "series NewMetrics (SearchMetric n s) =
     map Ok [(''omnifeed_search_requests_total'', [n, s]), (''omnifeed_search_request_seconds'', [n, s])]"
  by (simp_all add: NewMetrics_def WithLabelValues_def)

lemma counted_series:
  assumes "counted m"
  shows "\<exists>ss. series NewMetrics m = map Ok ss \<and> set ss \<subseteq> set all_series"
proof (cases m)
  case (CrawlMetric e t s r)
  with assms have h: "e \<in> {''reddit'', ''crawl4ai''}" "t \<in> {SelfTenant, mcpTenant}" "(s, r) \<in> set all_labels"
    by (simp_all add: counted_def)
  show ?thesis
    unfolding CrawlMetric series_of
    using crawl_series [OF h] other_series(1) [OF h(1) all_labels_status [OF h(3)]]
    by (intro exI conjI) (rule refl, simp)
next
  case (SearchMetric n s)
  with assms have h: "s \<in> {''ok'', ''error''}" "n = ''searxng''" by (simp_all add: counted_def)
  show ?thesis
    unfolding SearchMetric series_of h(2)
    using other_series(2,3) [OF h(1)] by (intro exI conjI) (rule refl, simp)
qed

lemma Reason_labels: "(statusOf err, Reason err) \<in> set all_labels"
  using Reason_in [of err] Reason_ok_iff [of err]
  by (cases err) (auto simp: statusOf_def all_labels_def)

section \<open>One crawl, one count\<close>

definition engine_label :: "string \<Rightarrow> string" where
  "engine_label u = (if IsRedditURL u then ''reddit'' else ''crawl4ai'')"

lemma engine_label_wired: "engineName (build_registry S P toon cfg) u = engine_label u"
  by (simp add: engineName_def Resolve_wired engine_label_def reddit_engine_def crawl4ai_engine_def)

lemma counted_crawl:
  assumes "t \<in> {SelfTenant, mcpTenant}"
  shows "counted (CrawlMetric (engine_label u) t ''ok'' ''ok'')"
    "counted (CrawlMetric (engine_label u) t ''error'' (Reason (Some e)))"
    "counted (CrawlMetric (engine_label u) t (statusOf err) (Reason err))"
  using assms Reason_labels [of "Some e"] Reason_labels [of err]
  by (simp_all add: counted_def engine_label_def statusOf_def all_labels_def)

text \<open>The crawl of the registry that main builds, run with a log.\<close>

lemma wired_crawl:
  obtains x w1 ls where
    "Registry_Crawl (logged S) (build_registry (logged S) P toon cfg) c u eo (w, l) = (x, (w1, l @ ls))"
    "only_to (Crawl4AIURL cfg) ls" "metrics_in ls = []"
proof -
  have "emits (only_to (Crawl4AIURL cfg)) (Registry_Crawl (logged S) (build_registry (logged S) P toon cfg) c u eo (w, l)) l"
    by (rule wired_proxied.traffic)
  then show thesis
    using that only_to_no_metrics
    by (cases "Registry_Crawl (logged S) (build_registry (logged S) P toon cfg) c u eo (w, l)")
       (auto simp: emits_def)
qed

lemma crawlOne_wired:
  assumes "run_setup (logged S) Sx P toon version cfg = Ok (HttpMode app)"
    and "Registry_Crawl (logged S) (build_registry (logged S) P toon cfg) RequestCtx u opts (w, l) = (x, (w1, l'))"
  shows "crawlOne (logged S) (app_loader app) u opts tenant (w, l) = (case x of
      Panic m \<Rightarrow> (Panic m, (w1, l'))
    | Fail err \<Rightarrow>
        (Ok \<lparr>ld_PageContent = ''Error crawling URL (see server logs for details)'',
           ld_Metadata = [''source'' \<mapsto> u, ''error'' \<mapsto> ''true'']\<rparr>,
         (Observe S (engine_label u) tenant ''error'' (Reason (Some err)) w1,
          l' @ [EvMetric (CrawlMetric (engine_label u) tenant ''error'' (Reason (Some err)))]))
    | Ok doc \<Rightarrow> (Ok \<lparr>ld_PageContent = PageContent doc, ld_Metadata = Metadata doc\<rparr>,
         (Observe S (engine_label u) tenant ''ok'' ''ok'' w1,
          l' @ [EvMetric (CrawlMetric (engine_label u) tenant ''ok'' ''ok'')])))"
proof -
  have reg: "ow_registry (app_loader app) = build_registry (logged S) P toon cfg" "ow_metrics (app_loader app)"
    using run_setup_Http [OF assms(1)] by blast+
  have "en_Name (if IsRedditURL u
      then reddit_engine (logged S) P toon (NewEngine (Crawl4AIURL cfg) (RedditTimeout cfg) (redditDefaults cfg))
      else crawl4ai_engine (logged S) P \<lparr>ce_endpoint = Crawl4AIURL cfg\<rparr>) = engine_label u"
    by (simp add: engine_label_def reddit_engine_def crawl4ai_engine_def)
  with reg assms(2) show ?thesis
    by (simp add: crawlOne_def Let_def Resolve_wired split: res.splits)
qed

definition counts :: "nat \<Rightarrow> event list \<Rightarrow> bool" where
  \<comment> \<open>at most n counts, each under known labels\<close>
  "counts n ls \<longleftrightarrow> length (metrics_in ls) \<le> n \<and> list_all counted (metrics_in ls)"

definition bounded_series :: "event list \<Rightarrow> bool" where
  \<comment> \<open>at most one count, of series that exist and belong to the known ones\<close>
  "bounded_series ls \<longleftrightarrow> length (metrics_in ls) \<le> 1 \<and>
     (\<forall>m \<in> set (metrics_in ls). \<exists>ss. series NewMetrics m = map Ok ss \<and> set ss \<subseteq> set all_series)"

lemma counts_bounded_series: "counts 1 ls \<Longrightarrow> bounded_series ls"
  unfolding counts_def bounded_series_def list_all_iff using counted_series by blast

lemma crawlOne_counts:
  assumes "run_setup (logged S) Sx P toon version cfg = Ok (HttpMode app)" "t \<in> {SelfTenant, mcpTenant}"
  shows "emits (counts 1) (crawlOne (logged S) (app_loader app) u opts t (w, l)) l"
proof -
  obtain x w1 ls where x:
    "Registry_Crawl (logged S) (build_registry (logged S) P toon cfg) RequestCtx u opts (w, l) = (x, (w1, l @ ls))"
    "metrics_in ls = []"
    by (rule wired_crawl)
  show ?thesis
    unfolding crawlOne_wired [OF assms(1) x(1)] emits_def
    using x(2) counted_crawl(1,2) [OF assms(2), of u]
    by (cases x) (auto simp: counts_def)
qed

section \<open>One call, at most one count\<close>

lemma crawlHandler_counts:
  "emits (counts 1) (crawlHandler (logged S) P (build_registry (logged S) P' toon cfg) d mt c a (w, l)) l"
proof -
  let ?u = "string_or_empty (arg_string a ''url'')"
  obtain x w1 ls where x:
    "Registry_Crawl (logged S) (build_registry (logged S) P' toon cfg) c ?u (fetch_options P d a) (w, l) = (x, (w1, l @ ls))"
    "metrics_in ls = []"
    by (rule wired_crawl)
  then show ?thesis
    using counted_crawl(3) [of mcpTenant ?u]
    by (cases x)
       (auto simp: crawlHandler_def Let_def emits_def counts_def observe_def engine_label_wired)
qed

lemma searchHandler_counts:
  "emits (counts 1) (searchHandler (logged S) P (searxng_searcher (logged Sx) s) n mt c a (w, l)) l"
proof (cases "search_time_range a")
  case (Ok tr)
  let ?q = "string_or_empty (arg_string a ''query'')"
  let ?o = "\<lparr>Limit = search_limit P n a, TimeRange = tr, Language = string_or_empty (arg_string a ''language'')\<rparr>"
  obtain x w1 ls where x: "Search (logged Sx) s c ?q ?o (w, l) = (x, (w1, l @ ls))" "metrics_in ls = []"
    using Search_traffic [of c s ?q ?o Sx w l] retry_events_no_metrics
    by (cases "Search (logged Sx) s c ?q ?o (w, l)") (auto simp: emits_def)
  with Ok show ?thesis
    by (cases x)
       (auto simp: searchHandler_def Let_def emits_def counts_def counted_def statusOf_def searxng_searcher_def)
qed (auto simp: searchHandler_def Let_def emits_def counts_def)

lemma wired_tool:
  assumes "ms_byName (NewMcpServer (build_tools S Sx P toon cfg) authn version) name = Some tool"
  shows "tool = FetchURL S P (build_registry S P toon cfg) (redditDefaults cfg) True \<or>
    (\<exists>s. tool = WebSearch S P (searxng_searcher Sx s) (SearchMaxResults cfg) True)"
  using assms
  by (auto simp: NewMcpServer_def build_tools_def build_searcher_def split: option.splits if_splits)

lemma dispatch_counts:
  "emits (counts 1) (dispatch (NewMcpServer (build_tools (logged S) (logged Sx) P toon cfg) authn version) c req (w, l)) l"
    (is "emits _ (dispatch ?s _ _ _) _")
proof -
  have handle: "emits (counts 1) (t_Handle tool c a (w, l)) l" if "ms_byName ?s name = Some tool" for tool a name
    using wired_tool [OF that] crawlHandler_counts searchHandler_counts
    by (auto simp: FetchURL_def WebSearch_def)
  have "emits (counts 1) (handleToolsCall ?s c req (w, l)) l"
    using handle
    by (auto simp: handleToolsCall_def emits_def counts_def split: option.splits prod.splits res.splits)
       (metis snd_conv)+
  then show ?thesis by (auto simp: dispatch_def emits_def counts_def)
qed

end
