(* ===== verification/Reddit_Example.thy ===== *)
theory Reddit_Example
  imports Reddit_Engine
begin

text \<open>
  A crawl of a small thread from end to end, evaluated on the model: crawl4ai answers 200 with
  the envelope that \<open>getJS\<close> prints around the thread's JSON.  It shows that the hypotheses of the
  crawl properties can hold, so that they are not empty statements.
\<close>

section \<open>ASCII documents\<close>

fun ascii_json :: "json \<Rightarrow> bool" where
  "ascii_json (JNum l) = list_all is_ascii l"
| "ascii_json (JStr s) = list_all is_ascii s"
| "ascii_json (JArr vs) = list_all ascii_json vs"
| "ascii_json (JObj kvs) = list_all (\<lambda>(k, v). list_all is_ascii k \<and> ascii_json v) kvs"
| "ascii_json j = True"

lemma is_ascii_hex_digit: "n < 16 \<Longrightarrow> is_ascii (hex_digit n)"
  by (simp add: hex_digit_def is_ascii_def)

lemma escape_ascii_ascii: "is_ascii c \<Longrightarrow> list_all is_ascii (escape_ascii c)"
  by (simp add: escape_ascii_def u_escape_def is_ascii_hex_digit) (simp add: is_ascii_def)

lemma encode_string_ascii: "list_all is_ascii s \<Longrightarrow> list_all is_ascii (encode_string s)"
proof -
  assume "list_all is_ascii s"
  then have "list_all is_ascii (encode_body s)"
    by (induction s) (simp_all add: encode_body.simps escape_ascii_ascii)
  then show ?thesis by (simp add: encode_string_def is_ascii_def)
qed

lemma join_with_ascii:
  "list_all is_ascii sep \<Longrightarrow> list_all (list_all is_ascii) ws \<Longrightarrow> list_all is_ascii (join_with sep ws)"
  by (induction sep ws rule: join_with.induct) auto

lemma is_ascii_json_syntax [simp]:
  "is_ascii (CHR '','')" "is_ascii (CHR '':'')" "is_ascii (CHR ''['')" "is_ascii (CHR '']'')"
  "is_ascii (CHR ''{'')" "is_ascii (CHR ''}'')"
  "list_all is_ascii ''true''" "list_all is_ascii ''false''" "list_all is_ascii ''null''"
  by code_simp+

lemma Marshal_ascii: "ascii_json j \<Longrightarrow> list_all is_ascii (Marshal j)"
proof (induction j)
  case (JArr vs)
  then have "list_all (list_all is_ascii) (map Marshal vs)" by (auto simp: list_all_iff)
  then show ?case by (simp add: join_with_ascii)
next
  case (JObj kvs)
  then have "list_all (list_all is_ascii) (map (\<lambda>(k, v). encode_string k @ '':'' @ Marshal v) kvs)"
    using encode_string_ascii by (fastforce simp: list_all_iff)
  then show ?case by (simp add: join_with_ascii)
next
  case (JBool b)
  show ?case by (cases b) (simp_all add: is_ascii_def)
qed (simp_all add: encode_string_ascii, simp_all add: is_ascii_def)

section \<open>One answer of crawl4ai\<close>

definition c4a_ok :: "string \<Rightarrow> json" where
  \<comment> \<open>a crawl4ai response with one script value\<close>
  "c4a_ok out = JObj [(''success'', JBool True), (''results'', JArr [JObj [(''success'', JBool True),
     (''js_execution_result'', JObj [(''results'', JArr [JStr out])])]])]"

definition envelope_ok :: "string \<Rightarrow> json" where
  "envelope_ok b = JObj [(''s'', JNum ''200''), (''b'', JStr b)]"

lemma exec_result_ok:
  assumes "valid_utf8 out" "length (Marshal (c4a_ok out)) < 20971520"
  shows "exec_result \<lparr>resp_status = 200, resp_retry_after = [], resp_body = Marshal (c4a_ok out), resp_read_err = None\<rparr> = Ok out"
proof -
  have "json_parse (Marshal (c4a_ok out)) = Some (c4a_ok out)"
    using assms(1) by (intro json_parse_Marshal) (simp add: c4a_ok_def wf_json_eval)
  then have "json_Unmarshal dec_c4aResponse (Marshal (c4a_ok out)) zero_c4aResponse =
      Some \<lparr>c4_Success = True, c4_Error = [], c4_Results =
        [\<lparr>r4_Success = True, r4_StatusCode = 0, r4_ErrorMessage = [], r4_JSResults = [JStr out]\<rparr>]\<rparr>"
    by (simp add: json_Unmarshal_def c4a_ok_def dec_c4aResponse_def dec_c4aResult_def find_field_def into_def
        zero_c4aResponse_def zero_c4aResult_def)
  with assms(2) show ?thesis by (simp add: exec_result_def read_all_limit_def js_result_def)
qed

lemma fetch_result_ok:
  assumes "valid_utf8 b" "json_Valid b"
  shows "fetch_result P (Marshal (envelope_ok b)) = Ok b"
proof -
  have "num_ok ''200''" by code_simp
  then have "json_parse (Marshal (envelope_ok b)) = Some (envelope_ok b)"
    using assms(1) by (intro json_parse_Marshal) (simp add: envelope_ok_def wf_json_eval)
  moreover have "Atoi ''200'' = Some 200"
    by (simp add: Atoi_def is_digit_def in_int64_def min_int64_def max_int64_def)
  ultimately have "json_Unmarshal dec_envelope (Marshal (envelope_ok b)) (0, []) = Some (200, b)"
    by (simp add: json_Unmarshal_def envelope_ok_def dec_envelope_def find_field_def into_def)
  with assms(2) show ?thesis by (simp add: fetch_result_def)
qed

definition c4a_reply :: "json \<Rightarrow> string" where
  \<comment> \<open>what crawl4ai answers when Reddit has sent this document\<close>
  "c4a_reply j = Marshal (c4a_ok (Marshal (envelope_ok (Marshal j))))"

lemma browserExec_once:
  assumes "\<And>c q. sys_http S c q w = (Inr resp, w1)" "url_Parse url \<noteq> None" "url \<noteq> []"
    and "exec_result resp = Ok out" "\<not> retryable_status (resp_status resp)"
  shows "browserExec S url c nav js sid jo w = (Ok out, w1)"
proof -
  have "DoRetry S c ''POST'' url b h (no_config\<lparr>MaxAttempts := 1\<rparr>) w = (Ok (Some resp), w1)" for b h
    using assms(1,2,5) by (simp add: DoRetry_def retry_defaults_def try_once_def retryable_status_def)
  with assms(3,4) show ?thesis by (simp add: browserExec_def)
qed

lemma browserFetch_json:
  assumes "\<And>c q. sys_http S c q w = (reply 200 (c4a_reply j), w1)" "url_Parse url \<noteq> None" "url \<noteq> []"
    and "ascii_json j" "wf_json maxNestingDepth j" "length (c4a_reply j) < 20971520"
  shows "browserFetch S P url c nav js sid jo w = (Ok (Marshal j), w1)"
proof -
  have "ascii_json (envelope_ok (Marshal j))"
    using Marshal_ascii [OF assms(4)] by (simp add: envelope_ok_def) (simp add: is_ascii_def)
  then have v: "valid_utf8 (Marshal (envelope_ok (Marshal j)))" "valid_utf8 (Marshal j)"
    using assms(4) by (intro valid_utf8_ascii Marshal_ascii; simp)+
  have "exec_result \<lparr>resp_status = 200, resp_retry_after = [], resp_body = c4a_reply j, resp_read_err = None\<rparr>
      = Ok (Marshal (envelope_ok (Marshal j)))"
    using exec_result_ok [OF v(1)] assms(6) by (simp add: c4a_reply_def)
  from browserExec_once [OF assms(1) [unfolded reply_def] assms(2,3) this]
  have "browserExec S url c nav js sid jo w = (Ok (Marshal (envelope_ok (Marshal j))), w1)"
    by (simp add: retryable_status_def)
  moreover have "fetch_result P (Marshal (envelope_ok (Marshal j))) = Ok (Marshal j)"
    using v(2) json_parse_Marshal [OF assms(5)] by (intro fetch_result_ok) (simp_all add: json_Valid_def)
  ultimately show ?thesis by (simp add: browserFetch_def)
qed

section \<open>A crawl\<close>

definition quiet_forest :: "rnode list" where
  \<comment> \<open>a reply to a comment that has been removed, and nothing to expand\<close>
  "quiet_forest =
     [RComment (zero_comment\<lparr>rc_ID := ''c1'', rc_ParentID := ''t3_p1'', rc_Author := ''[deleted]'',
         rc_Body := ''[removed]''\<rparr>) ''0''
        [RComment (zero_comment\<lparr>rc_ID := ''c2'', rc_ParentID := ''t1_c1'', rc_Author := ''ann'',
           rc_Body := ''hello''\<rparr>) ''0'' []]]"

definition quiet_thread :: json where
  "quiet_thread = JArr [listing_json [example_post], listing_json (map thing_json quiet_forest)]"

lemma quiet_forest_wf: "list_all wf_node quiet_forest"
  by (simp add: quiet_forest_def zero_comment_def in_int64_def min_int64_def max_int64_def zero_f64_def float_eval)

lemma quiet_forest_gaps: "concat (map open_gaps quiet_forest) = []"
  by (simp add: quiet_forest_def)

lemma example_post_decoded:
  "dec_thing dec_post_data example_post ([], zero_post) =
     Some (''t3'', zero_post\<lparr>rp_ID := ''p1'', rp_Permalink := ''/r/a/comments/p1/''\<rparr>)"
  by (simp add: example_post_def dec_thing_def dec_post_data_def find_field_def into_def)

definition example_engine :: Engine where
  "example_engine = NewEngine ''http://c/'' 0
     \<lparr>KeepDepth = False, KeepCreated = True, MaxRounds = 3, Format = ''toon''\<rparr>"

definition no_options :: EngineOptions where
  "no_options = \<lparr>RedditKeepDepth = False, RedditKeepCreated = False, RedditMaxRounds = 0, RedditFormat = []\<rparr>"

definition example_reply :: string where
  "example_reply = c4a_reply quiet_thread"

lemma quiet_thread_json: "ascii_json quiet_thread" "wf_json maxNestingDepth quiet_thread" "length (c4a_reply quiet_thread) < 20971520"
proof -
  show "ascii_json quiet_thread" by code_simp
  have "num_ok ''0''" by code_simp
  then show "wf_json maxNestingDepth quiet_thread"
    by (simp add: quiet_thread_def quiet_forest_def listing_json_def replies_json_def zero_comment_def
         example_post_def wf_json_eval)
  have "length (c4a_reply quiet_thread) < 10000" by code_simp
  then show "length (c4a_reply quiet_thread) < 20971520" by simp
qed

lemma quiet_thread_parsed:
  "json_parse (Marshal quiet_thread) =
     Some (JArr (listing_json (example_post # []) # listing_json (map thing_json quiet_forest) # []))"
  using json_parse_Marshal [OF quiet_thread_json(2)] by (simp only: quiet_thread_def)

lemma example_ParseThread: "\<exists>t. ParseThread P (Marshal quiet_thread) opts = Ok t \<and> th_Gaps t = []"
  using ParseThread_tree [OF quiet_thread_parsed _ example_post_decoded quiet_forest_wf, of P opts]
  by (auto simp: quiet_forest_gaps)

lemma example_fetch:
  "FetchThread (steady (reply 200 example_reply)) P ''http://c/'' c p () = (Ok (Marshal quiet_thread), ())"
proof -
  have "url_Parse ''http://c/'' \<noteq> None" by code_simp
  from browserFetch_json [OF _ this _ quiet_thread_json, where S = "steady (reply 200 example_reply)"] show ?thesis
    by (simp add: FetchThread_def example_reply_def Let_def)
qed

lemma example_address:
  "IsShareURL ''https://www.reddit.com/r/a/comments/p1'' = False"
  "NormalizePermalink ''https://www.reddit.com/r/a/comments/p1'' = Ok ''/r/a/comments/p1''"
  "slotFor (''https://reddit.com'' @ ''/r/a/comments/p1'') = Ok ''reddit.com''"
  by code_simp+

lemma example_crawl:
  "\<exists>doc. fst (Crawl (steady (reply 200 example_reply)) amd64 (\<lambda>_. Inr ''post'') example_engine RequestCtx
     ''https://www.reddit.com/r/a/comments/p1'' no_options ()) = Ok doc \<and> PageContent doc = ''post''"
proof -
  let ?S = "steady (reply 200 example_reply)" and ?url = "''https://www.reddit.com/r/a/comments/p1''"
  note facts = example_address
  have E: "re_crawl4aiURL example_engine = ''http://c/''" by (simp add: example_engine_def NewEngine_def)
  note fetch = example_fetch
  let ?opts = "resolveOptions example_engine no_options"
  obtain t where t: "ParseThread amd64 (Marshal quiet_thread) ?opts = Ok t" "th_Gaps t = []"
    using example_ParseThread by blast
  have fmt: "Format ?opts = ''toon''" "nat (MaxRounds ?opts) = 3"
    by (simp_all add: resolveOptions_def example_engine_def NewEngine_def no_options_def Let_def)
  have expand: "expandGaps ?S amd64 ''http://c/'' c t ?opts () = (Ok (t, 0), ())" for c
    using t(2) fmt(2) by (simp add: expandGaps_def numeral_3_eq_3)
  have "\<exists>doc. crawl_document (\<lambda>_. Inr ''post'') ?opts t = Ok doc \<and> PageContent doc = ''post''"
    by (simp add: crawl_document_def encode_def fmt(1))
  then obtain doc where "crawl_document (\<lambda>_. Inr ''post'') ?opts t = Ok doc" "PageContent doc = ''post''" by blast
  then have "fst (crawl_thread ?S amd64 (\<lambda>_. Inr ''post'') ''http://c/'' c ?opts p ()) = Ok doc" for c p
    by (simp add: crawl_thread_def fetch t(1) expand)
  then have "fst (with_slot ?S (''https://reddit.com'' @ ''/r/a/comments/p1'')
      (crawl_thread ?S amd64 (\<lambda>_. Inr ''post'') ''http://c/'' c ?opts p) ()) = Ok doc" for c p
    by (simp only: with_slot_result [OF facts(3)] steady_simps)
  then have "fst (Crawl ?S amd64 (\<lambda>_. Inr ''post'') example_engine RequestCtx ?url no_options ()) = Ok doc"
    by (simp only: Crawl_def Let_def canonical_url_def facts if_False andThen.simps wrap_err.simps E)
  with \<open>PageContent doc = ''post''\<close> show ?thesis by blast
qed

theorem Crawl_document_witness:
  "\<exists>doc. PageContent doc = ''post'' \<and> Metadata doc ''status_code'' = Some ''200'' \<and>
     fst (Crawl (steady (reply 200 example_reply)) amd64 (\<lambda>_. Inr ''post'') example_engine RequestCtx
       ''https://www.reddit.com/r/a/comments/p1'' no_options ()) = Ok doc"
proof -
  obtain doc where doc: "fst (Crawl (steady (reply 200 example_reply)) amd64 (\<lambda>_. Inr ''post'') example_engine RequestCtx
       ''https://www.reddit.com/r/a/comments/p1'' no_options ()) = Ok doc" "PageContent doc = ''post''"
    using example_crawl by blast
  from Crawl_document [OF doc(1)] have "Metadata doc ''status_code'' = Some ''200''"
    unfolding Let_def by (elim exE conjE)
  with doc show ?thesis by (intro exI [of _ doc] conjI)
qed

end
