(* ===== verification/Reddit_Complete.thy ===== *)
theory Reddit_Complete
  imports Reddit_Example
begin

text \<open>
  A Reddit crawl from end to end: what its document contains, in terms of the tree of comments that
  Reddit sent and of the expansions that followed.  The parts are in \<open>Reddit_Parser\<close> (the tree),
  \<open>Reddit_Merge\<close> (one round) and \<open>Reddit_Engine\<close> (the rounds and the document).
\<close>

section \<open>Expansion\<close>

text \<open>What holds of every comment that a tree walk gives holds of every comment of a thread.\<close>

lemma add_unseen_in: "c \<in> set (add_unseen seen cs) \<Longrightarrow> c \<in> set cs"
  by (induction seen cs rule: add_unseen.induct) (auto split: if_splits)

lemma expand_loop_all:
  assumes "\<And>cs. list_all A (fst (walkChildren P opts cs))"
    and "fst (expand_loop S P url c opts link n round rounds th w) = Ok (th', r)" "list_all A (th_Comments th)"
  shows "list_all A (th_Comments th')"
  using assms(2,3)
proof (induction n arbitrary: round rounds th w)
  case (Suc n)
  obtain batch used where b: "collect_batch 0 (th_Gaps th) [] [] = (batch, used)" by fastforce
  obtain x w1 where f: "FetchMoreChildren S P url c link batch w = (x, w1)" by fastforce
  show ?case
  proof (cases "batch = [] \<or> (\<exists>e. x = Fail e) \<or> (\<exists>m. x = Panic m) \<or>
      (\<exists>json. x = Ok json \<and> (\<exists>e. ParseMoreChildren P json opts = Fail e))")
    case True
    with Suc.prems b f show ?thesis by (auto split: if_splits)
  next
    case False
    then obtain json where json: "batch \<noteq> []" "x = Ok json" "\<And>e. ParseMoreChildren P json opts \<noteq> Fail e"
      by (cases x) auto
    with ParseMoreChildren_no_panic [of P json opts] obtain nc ng where p: "ParseMoreChildren P json opts = Ok (nc, ng)"
      by (cases "ParseMoreChildren P json opts") auto
    let ?th = "MergeExpanded th nc ng batch used"
    have "list_all A nc"
      using p assms(1) by (auto simp: ParseMoreChildren_def split: option.splits) (metis fst_conv)
    then have all: "list_all A (th_Comments ?th)"
      using Suc.prems(2) add_unseen_in by (fastforce simp: MergeExpanded_def list_all_iff)
    show ?thesis
    proof (cases "nc = [] \<and> ng = []")
      case True
      with Suc.prems(1) b f json p have "th' = ?th" by simp
      with all show ?thesis by simp
    next
      case more: False
      then have "fst (expand_loop S P url c opts link n (round + 1) (round + 1) ?th w1) = Ok (th', r)"
        using Suc.prems(1) b f json p by (auto simp: Let_def split: if_splits)
      from Suc.IH [OF this all] show ?thesis .
    qed
  qed
qed simp

lemma expandGaps_all:
  "(\<And>cs. list_all A (fst (walkChildren P opts cs))) \<Longrightarrow> fst (expandGaps S P url c th opts w) = Ok (th', r) \<Longrightarrow>
     list_all A (th_Comments th) \<Longrightarrow> list_all A (th_Comments th')"
  unfolding expandGaps_def by (rule expand_loop_all)

lemma expandGaps_quiet:
  assumes "open_ids (th_Gaps th) = [] \<or> MaxRounds opts \<le> 0"
  shows "expandGaps S P url c th opts w = (Ok (th, 0), w)"
proof (cases "nat (MaxRounds opts)")
  case (Suc n)
  then have "open_ids (th_Gaps th) = []" using assms by auto
  then have "fst (collect_batch 0 (th_Gaps th) [] []) = []" by (simp add: collect_batch_ids maxBatch_def)
  then show ?thesis by (cases "collect_batch 0 (th_Gaps th) [] []") (simp add: expandGaps_def Suc)
qed (simp add: expandGaps_def)

section \<open>The document\<close>

lemma Crawl_thread:
  assumes "canonical_url S (re_crawl4aiURL E) (WithTimeout ctx (re_timeout E)) u w = (Ok u', w0)"
    and "NormalizePermalink u' = Ok p" "slotFor (''https://reddit.com'' @ p) = Ok h"
    and "FetchThread S P (re_crawl4aiURL E) (WithTimeout ctx (re_timeout E)) p (sys_acquire S h w0) = (Ok raw, w1)"
    and "ParseThread P raw (resolveOptions E eo) = Ok t"
    and "expandGaps S P (re_crawl4aiURL E) (WithTimeout ctx (re_timeout E)) t (resolveOptions E eo) w1 = (Ok (t', r), w2)"
  shows "fst (Crawl S P toon E ctx u eo w) = crawl_document toon (resolveOptions E eo) t'"
  using assms(1,2,4-6)
  by (simp add: Crawl_def Let_def with_slot_result [OF assms(3)] crawl_thread_def del: append_Cons)

section \<open>Properties\<close>



end
