(* ===== verification/Reddit_Expansion.thy ===== *)
theory Reddit_Expansion
  imports Reddit_Complete
begin

text \<open>
  What the expansion of a thread achieves.  The specification is a graph: every collapsed id stands
  for some live comments and for further collapsed ids, and a complete thread has the comments of
  every id that can be reached from the open ids of the tree.  \<open>expandGaps\<close> (\<open>engine.go\<close>) is a
  worklist search of that graph in batches of a hundred with a bounded number of rounds; the lemmas
  give its invariant and the number of rounds that is enough.
\<close>

section \<open>The graph of collapsed ids\<close>

fun live_ids :: "rnode \<Rightarrow> string list" where
  "live_ids (RComment d lit rs) = (if isRemovedComment d then [] else [rc_ID d]) @ concat (map live_ids rs)"
| "live_ids (RMore d) = []"

definition things_json :: "json list \<Rightarrow> rnode list \<Rightarrow> json" where
  "things_json errs ns = JObj [(''json'', JObj [(''errors'', JArr errs),
     (''data'', JObj [(''things'', JArr (map thing_json ns))])])]"

definition tells :: "(string \<Rightarrow> string list) \<Rightarrow> (string \<Rightarrow> string list) \<Rightarrow> string list \<Rightarrow> string \<Rightarrow> bool" where
  \<comment> \<open>the text holds the live comments under these ids, and each id collapsed under them once\<close>
  "tells live hides ids raw \<longleftrightarrow> (\<exists>errs ns. json_parse raw = Some (things_json errs ns) \<and> list_all wf_node ns \<and>
     set (concat (map live_ids ns)) = (\<Union>i \<in> set ids. set (live i)) \<and>
     distinct (open_ids (concat (map open_gaps ns))) \<and>
     set (open_ids (concat (map open_gaps ns))) = (\<Union>i \<in> set ids. set (hides i)))"

definition serves_more :: "('w \<Rightarrow> bool) \<Rightarrow> 'w sys \<Rightarrow> platform \<Rightarrow> string \<Rightarrow> ctx \<Rightarrow> string \<Rightarrow>
    (string \<Rightarrow> string list) \<Rightarrow> (string \<Rightarrow> string list) \<Rightarrow> string set \<Rightarrow> bool" where
  \<comment> \<open>in the states W, which the calls keep, every batch of ids of U is answered as the graph says\<close>
  "serves_more W S P url c link live hides U \<longleftrightarrow>
     (\<forall>ids w. W w \<and> ids \<noteq> [] \<and> set ids \<subseteq> U \<longrightarrow>
        (\<exists>raw w1. FetchMoreChildren S P url c link ids w = (Ok raw, w1) \<and> W w1 \<and> tells live hides ids raw))"

definition collapsed :: "(string \<Rightarrow> string list) \<Rightarrow> string list \<Rightarrow> string set" where
  "collapsed hides ids = {j. \<exists>i \<in> set ids. (\<lambda>a b. b \<in> set (hides a))\<^sup>*\<^sup>* i j}"

definition ranked :: "(string \<Rightarrow> string list) \<Rightarrow> string set \<Rightarrow> (string \<Rightarrow> nat) \<Rightarrow> (string \<Rightarrow> nat) \<Rightarrow> bool" where
  \<comment> \<open>no id lies under itself: h bounds how deep the ids under one are nested, sz how many there are\<close>
  "ranked hides U h sz \<longleftrightarrow> (\<forall>i \<in> U. set (hides i) \<subseteq> U \<and> (\<forall>j \<in> set (hides i). h j < h i) \<and>
     Suc (weight sz (hides i)) \<le> sz i)"

definition rounds_needed :: "(string \<Rightarrow> nat) \<Rightarrow> (string \<Rightarrow> nat) \<Rightarrow> string list \<Rightarrow> nat" where
  "rounds_needed h sz ids = (if ids = [] then 0 else weight sz ids div maxBatch + Suc (Max (h ` set ids)))"

definition fruitful :: "(string \<Rightarrow> string list) \<Rightarrow> (string \<Rightarrow> string list) \<Rightarrow> string set \<Rightarrow> bool" where
  \<comment> \<open>no full batch yields nothing at all\<close>
  "fruitful live hides U \<longleftrightarrow> (\<forall>ids. set ids \<subseteq> U \<and> length ids = maxBatch \<longrightarrow>
     (\<exists>i \<in> set ids. live i \<noteq> [] \<or> hides i \<noteq> []))"

lemma live_ids_comments: "map c_ID (live_comments P opts n) = live_ids n"
proof (induction n)
  case (RComment d lit rs)
  then have "map c_ID (concat (map (live_comments P opts) rs)) = concat (map live_ids rs)"
    by (induction rs) auto
  then show ?case by (simp add: makeComment_def)
qed simp

lemma tells_parsed:
  assumes "tells live hides ids raw"
  obtains nc ng where "ParseMoreChildren P raw opts = Ok (nc, ng)"
    "set (map c_ID nc) = (\<Union>i \<in> set ids. set (live i))" "distinct (open_ids ng)"
    "set (open_ids ng) = (\<Union>i \<in> set ids. set (hides i))"
proof -
  obtain errs ns where ns: "json_parse raw = Some (things_json errs ns)" "list_all wf_node ns"
      "set (concat (map live_ids ns)) = (\<Union>i \<in> set ids. set (live i))"
      "distinct (open_ids (concat (map open_gaps ns)))"
      "set (open_ids (concat (map open_gaps ns))) = (\<Union>i \<in> set ids. set (hides i))"
    using assms by (auto simp: tells_def)
  have "map c_ID (concat (map (live_comments P opts) ns)) = concat (map live_ids ns)"
    by (simp add: map_concat comp_def live_ids_comments)
  with that [OF ParseMoreChildren_forest [OF ns(1) [unfolded things_json_def] ns(2)]] ns(3-5) show ?thesis by simp
qed

section \<open>One round\<close>

lemma strip_at_open:
  "set (open_ids (gs[i := strip_gap F (gs ! i)])) \<subseteq> set (open_ids gs) \<and>
   set (open_ids gs) - F \<subseteq> set (open_ids (gs[i := strip_gap F (gs ! i)]))"
proof (induction gs arbitrary: i)
  case (Cons g gs)
  show ?case
  proof (cases i)
    case (Suc k)
    with Cons.IH [of k] show ?thesis by (simp only: list_update.simps nth_Cons_Suc nat.case open_ids_simps) auto
  qed (auto split: if_splits)
qed simp

lemma strip_used_open:
  "set (open_ids (strip_used F is gs)) \<subseteq> set (open_ids gs) \<and>
   set (open_ids gs) - F \<subseteq> set (open_ids (strip_used F is gs))"
proof (induction F "is" gs rule: strip_used.induct)
  case (2 F i "is" gs)
  let ?gs = "if length gs \<le> i then gs else gs[i := strip_gap F (gs ! i)]"
  have "set (open_ids ?gs) \<subseteq> set (open_ids gs) \<and> set (open_ids gs) - F \<subseteq> set (open_ids ?gs)"
    using strip_at_open [of gs i F] by (simp only: split: if_split) blast
  with 2 show ?case unfolding strip_used.simps by blast
qed simp

lemma weight_mono: "(\<And>x. x \<in> set xs \<Longrightarrow> f x \<le> g x) \<Longrightarrow> weight f xs \<le> weight g xs"
  by (induction xs) (auto intro: add_mono)

lemma weight_union:
  assumes "distinct xs" "set xs = (\<Union>i \<in> set ids. set (m i))"
  shows "weight f xs \<le> weight (\<lambda>i. weight f (m i)) ids"
proof -
  have one: "sum f (set ys) \<le> weight f ys" for ys
    by (induction ys) (auto simp: sum.insert_if)
  have "sum f (\<Union>i \<in> set ids. set (m i)) \<le> weight (\<lambda>i. weight f (m i)) ids"
  proof (induction ids)
    case (Cons i ids)
    have "sum f (set (m i) \<union> (\<Union>j \<in> set ids. set (m j))) \<le> sum f (set (m i)) + sum f (\<Union>j \<in> set ids. set (m j))"
      by (simp add: sum_Un_nat)
    with Cons one [of "m i"] show ?case by simp
  qed simp
  with assms show ?thesis by (simp add: sum_list_distinct_conv_sum_set)
qed

text \<open>The open ids after a round: what was not asked for, and what the answer collapses.\<close>

lemma round_open:
  assumes "collect_batch 0 (th_Gaps th) [] [] = (batch, used)"
  defines "old \<equiv> open_ids (th_Gaps th)"
  obtains kept where "open_ids (th_Gaps (MergeExpanded th nc ng batch used)) = kept @ open_ids ng" "batch = take maxBatch old" "set kept \<subseteq> set old"
    "set old - set batch \<subseteq> set kept" "\<And>f. weight f kept + weight f batch \<le> weight f old"
    "length old \<le> maxBatch \<Longrightarrow> kept = []"
proof
  let ?kept = "open_ids (filter keep_gap (strip_used (set batch) used (th_Gaps th)))"
  show "open_ids (th_Gaps (MergeExpanded th nc ng batch used)) = ?kept @ open_ids ng" by (simp add: MergeExpanded_def)
  show batch: "batch = take maxBatch old"
    using collect_batch_ids [of "[]" 0 "th_Gaps th" "[]"] assms(1) by (simp add: old_def maxBatch_def)
  show "set ?kept \<subseteq> set old" "set old - set batch \<subseteq> set ?kept"
    using strip_used_open [of "set batch" used "th_Gaps th"] by (simp_all add: old_def)
  show le: "weight f ?kept + weight f batch \<le> weight f old" for f
    unfolding old_def by (rule merge_progress [OF assms(1)])
  show "?kept = []" if "length old \<le> maxBatch"
    using le [of "\<lambda>_. 1"] that batch by (simp add: sum_list_triv)
qed

lemma rounds_decrease:
  assumes "ranked hides U h sz" "set old \<subseteq> U" "old \<noteq> []" "set kept \<subseteq> set old"
    and "weight sz kept + weight sz (take maxBatch old) \<le> weight sz old"
    and "length old \<le> maxBatch \<Longrightarrow> kept = []"
    and "distinct ng" "set ng = (\<Union>i \<in> set (take maxBatch old). set (hides i))"
  shows "Suc (rounds_needed h sz (kept @ ng)) \<le> rounds_needed h sz old"
proof (cases "kept @ ng = []")
  case False
  let ?batch = "take maxBatch old" and ?new = "kept @ ng"
  have U: "set ?batch \<subseteq> U" using assms(2) set_take_subset by fastforce
  have "weight (\<lambda>i. Suc (weight sz (hides i))) ?batch \<le> weight sz ?batch"
    using assms(1) U by (intro weight_mono) (auto simp: ranked_def)
  moreover have "weight (\<lambda>i. Suc (weight sz (hides i))) xs = length xs + weight (\<lambda>i. weight sz (hides i)) xs" for xs
    by (induction xs) auto
  moreover note weight_union [OF assms(7,8), of sz]
  ultimately have w: "weight sz ?new + length ?batch \<le> weight sz old" using assms(5) by simp
  have deep: "\<exists>i \<in> set old. h j < h i" if "j \<in> set ng" for j
    using that assms(1,8) U set_take_subset [of maxBatch old] by (fastforce simp: ranked_def)
  have top: "i \<in> set old \<Longrightarrow> h i \<le> Max (h ` set old)" for i by simp
  show ?thesis
  proof (cases "length old \<le> maxBatch")
    case True
    then have "?new = ng" using assms(6) by simp
    moreover have "h j < Max (h ` set old)" if "j \<in> set ng" for j
      using deep [OF that] top by (meson less_le_trans)
    ultimately have "Max (h ` set ?new) < Max (h ` set old)" using False by simp
    moreover have "weight sz ?new div maxBatch \<le> weight sz old div maxBatch" using w by (intro div_le_mono) simp
    ultimately show ?thesis unfolding rounds_needed_def if_not_P [OF False] if_not_P [OF assms(3)] by linarith
  next
    case full: False
    have "weight sz ?new + maxBatch \<le> weight sz old" using w full by (simp add: min_def)
    then have "(weight sz ?new + maxBatch) div maxBatch \<le> weight sz old div maxBatch" by (rule div_le_mono)
    then have "Suc (weight sz ?new div maxBatch) \<le> weight sz old div maxBatch" by (simp add: maxBatch_def)
    moreover have "h j \<le> Max (h ` set old)" if "j \<in> set ?new" for j
    proof (cases "j \<in> set ng")
      case True
      from deep [OF True] obtain i where i: "i \<in> set old" "h j < h i" by blast
      show ?thesis by (rule less_imp_le [OF less_le_trans [OF i(2) top [OF i(1)]]])
    qed (use that assms(4) top in auto)
    then have "Max (h ` set ?new) \<le> Max (h ` set old)" using False by (intro Max.boundedI) auto
    ultimately show ?thesis unfolding rounds_needed_def if_not_P [OF False] if_not_P [OF assms(3)] by linarith
  qed
qed (use assms(3) in \<open>simp add: rounds_needed_def\<close>)

section \<open>The invariant of the search\<close>

definition searched :: "(string \<Rightarrow> string list) \<Rightarrow> (string \<Rightarrow> string list) \<Rightarrow> string set \<Rightarrow> string list \<Rightarrow> string set \<Rightarrow>
    string list \<Rightarrow> string set \<Rightarrow> bool" where
  \<comment> \<open>cs, the comment ids, are the initial ones and those of the ids asked for (D); everything
     collapsed under an id asked for has been asked for or is open\<close>
  "searched live hides C0 I0 cs open D \<longleftrightarrow>
     cs = C0 \<union> (\<Union>i \<in> D. set (live i)) \<and> set I0 \<subseteq> D \<union> set open \<and>
     (\<forall>i \<in> D. set (hides i) \<subseteq> D \<union> set open) \<and> D \<union> set open \<subseteq> collapsed hides I0"

lemma searched_start: "searched live hides C0 I0 C0 I0 {}"
  by (auto simp: searched_def collapsed_def)

lemma collapsed_step: "i \<in> collapsed hides ids \<Longrightarrow> j \<in> set (hides i) \<Longrightarrow> j \<in> collapsed hides ids"
  by (auto simp: collapsed_def intro: rtranclp.rtrancl_into_rtrancl)

lemma searched_round:
  assumes "searched live hides C0 I0 cs open D" "set new = set kept \<union> (\<Union>i \<in> B. set (hides i))"
    and "set kept \<subseteq> set open" "set open - B \<subseteq> set kept" "B \<subseteq> set open"
    and "cs' = cs \<union> (\<Union>i \<in> B. set (live i))"
  shows "searched live hides C0 I0 cs' new (D \<union> B)"
  unfolding searched_def
proof (intro conjI)
  have s: "set I0 \<subseteq> D \<union> set open" "\<forall>i \<in> D. set (hides i) \<subseteq> D \<union> set open" "D \<union> set open \<subseteq> collapsed hides I0"
    using assms(1) by (simp_all add: searched_def)
  have open_new: "D \<union> set open \<subseteq> (D \<union> B) \<union> set new" using assms(2,4) by blast
  show "cs' = C0 \<union> (\<Union>i \<in> D \<union> B. set (live i))" using assms(1,6) by (auto simp: searched_def)
  show "set I0 \<subseteq> D \<union> B \<union> set new" using s(1) open_new by blast
  show "\<forall>i \<in> D \<union> B. set (hides i) \<subseteq> D \<union> B \<union> set new" using s(2) open_new assms(2) by blast
  have "set (hides i) \<subseteq> collapsed hides I0" if "i \<in> B" for i
    using that s(3) assms(5) collapsed_step by blast
  with s(3) assms(2,3,5) show "D \<union> B \<union> set new \<subseteq> collapsed hides I0" by blast
qed

lemma searched_end:
  assumes "searched live hides C0 I0 cs [] D"
  shows "cs = C0 \<union> (\<Union>i \<in> collapsed hides I0. set (live i))"
proof -
  have d: "set I0 \<subseteq> D" "\<forall>i \<in> D. set (hides i) \<subseteq> D" "D \<subseteq> collapsed hides I0"
    using assms by (auto simp: searched_def)
  have "j \<in> D" if "i \<in> set I0" "(\<lambda>a b. b \<in> set (hides a))\<^sup>*\<^sup>* i j" for i j
    using that(2) by (induction) (use that(1) d in auto)
  then have "collapsed hides I0 = D" using d(3) by (auto simp: collapsed_def)
  with assms show ?thesis by (simp add: searched_def)
qed

section \<open>The loop\<close>

abbreviation comment_ids :: "Thread \<Rightarrow> string set" where
  "comment_ids th \<equiv> set (map c_ID (th_Comments th))"

lemma expand_loop_completes:
  assumes "serves_more W S P url c link live hides U" "ranked hides U h sz" "fruitful live hides U"
    and "W w" "set (open_ids (th_Gaps th)) \<subseteq> U"
    and "searched live hides C0 I0 (comment_ids th) (open_ids (th_Gaps th)) D"
    and "rounds_needed h sz (open_ids (th_Gaps th)) \<le> n"
  shows "\<exists>th' r D'. fst (expand_loop S P url c opts link n round rounds th w) = Ok (th', r) \<and>
    open_ids (th_Gaps th') = [] \<and> searched live hides C0 I0 (comment_ids th') [] D'"
  using assms(4-7)
proof (induction n arbitrary: round rounds th w D)
  case 0
  then have "open_ids (th_Gaps th) = []" by (simp add: rounds_needed_def split: if_splits)
  with 0 show ?case by auto
next
  case (Suc n)
  let ?old = "open_ids (th_Gaps th)"
  obtain batch used where b: "collect_batch 0 (th_Gaps th) [] [] = (batch, used)" by fastforce
  show ?case
  proof (cases "?old = []")
    case True
    then have "batch = []" using collect_batch_ids [of "[]" 0 "th_Gaps th" "[]"] b by (simp add: maxBatch_def)
    with b True Suc.prems(3) show ?thesis by auto
  next
    case False
    have batch: "batch = take maxBatch ?old"
      using collect_batch_ids [of "[]" 0 "th_Gaps th" "[]"] b by (simp add: maxBatch_def)
    then have ne: "batch \<noteq> []" and sub: "set batch \<subseteq> set ?old"
      using False by (simp_all add: maxBatch_def set_take_subset)
    obtain raw w1 where f: "FetchMoreChildren S P url c link batch w = (Ok raw, w1)" "W w1" "tells live hides batch raw"
      using assms(1) Suc.prems(1,2) ne sub unfolding serves_more_def by (meson subset_trans)
    obtain nc ng where p: "ParseMoreChildren P raw opts = Ok (nc, ng)" "set (map c_ID nc) = (\<Union>i \<in> set batch. set (live i))"
        "distinct (open_ids ng)" "set (open_ids ng) = (\<Union>i \<in> set batch. set (hides i))"
      using tells_parsed [OF f(3)] by metis
    let ?th = "MergeExpanded th nc ng batch used"
    let ?new = "open_ids (th_Gaps ?th)"
    obtain kept where k: "?new = kept @ open_ids ng" "set kept \<subseteq> set ?old" "set ?old - set batch \<subseteq> set kept"
        "\<And>f. weight f kept + weight f batch \<le> weight f ?old" "length ?old \<le> maxBatch \<Longrightarrow> kept = []"
      using round_open [OF b] by metis
    have cs: "comment_ids ?th = comment_ids th \<union> (\<Union>i \<in> set batch. set (live i))"
      using add_unseen_ids [of "comment_ids th" nc] p(2) by (auto simp: MergeExpanded_def)
    have inv: "searched live hides C0 I0 (comment_ids ?th) ?new (D \<union> set batch)"
      by (rule searched_round [OF Suc.prems(3) _ k(2,3) sub cs]) (simp add: k(1) p(4))
    have "Suc (rounds_needed h sz ?new) \<le> rounds_needed h sz ?old"
      unfolding k(1) using rounds_decrease [OF assms(2) Suc.prems(2) False k(2) _ k(5) p(3)] k(4) p(4) batch by simp
    then have n: "rounds_needed h sz ?new \<le> n" using Suc.prems(4) by simp
    have U: "set ?new \<subseteq> U"
    proof -
      have "set (hides i) \<subseteq> U" if "i \<in> set batch" for i
      proof -
        have "i \<in> U" using that sub Suc.prems(2) by blast
        with assms(2) show ?thesis by (simp add: ranked_def)
      qed
      then show ?thesis using k(1,2) p(4) Suc.prems(2) by auto
    qed
    show ?thesis
    proof (cases "nc = [] \<and> ng = []")
      case True
      have "length ?old \<le> maxBatch"
      proof (rule ccontr)
        assume "\<not> length ?old \<le> maxBatch"
        then have "length batch = maxBatch" using batch by simp
        then obtain i where "i \<in> set batch" "live i \<noteq> [] \<or> hides i \<noteq> []"
          using assms(3) sub Suc.prems(2) unfolding fruitful_def by blast
        with True p(2,4) show False by (cases "live i"; cases "hides i") auto
      qed
      then have "?new = []" using True k(1,5) by simp
      moreover from this inv have "searched live hides C0 I0 (comment_ids ?th) [] (D \<union> set batch)" by simp
      moreover have "fst (expand_loop S P url c opts link (Suc n) round rounds th w) = Ok (?th, round + 1)"
        using b f(1) p(1) ne True by simp
      ultimately show ?thesis by blast
    next
      case more: False
      have "expand_loop S P url c opts link (Suc n) round rounds th w =
          expand_loop S P url c opts link n (round + 1) (round + 1) ?th w1"
        using b f(1) p(1) ne more by (auto simp: Let_def)
      with Suc.IH [OF f(2) U inv n] show ?thesis by metis
    qed
  qed
qed

lemma expandGaps_completes:
  assumes "serves_more W S P url c (kindPostPrefix @ post_ID (th_Post th)) live hides U" "ranked hides U h sz"
    and "fruitful live hides U" "W w" "set (open_ids (th_Gaps th)) \<subseteq> U"
    and "int (rounds_needed h sz (open_ids (th_Gaps th))) \<le> MaxRounds opts"
  shows "\<exists>th' r. fst (expandGaps S P url c th opts w) = Ok (th', r) \<and> open_ids (th_Gaps th') = [] \<and>
    comment_ids th' = comment_ids th \<union> (\<Union>i \<in> collapsed hides (open_ids (th_Gaps th)). set (live i))"
proof -
  have "rounds_needed h sz (open_ids (th_Gaps th)) \<le> nat (MaxRounds opts)" using assms(6) by simp
  from expand_loop_completes [OF assms(1-5) searched_start this] searched_end show ?thesis
    unfolding expandGaps_def by metis
qed

section \<open>A crawl\<close>

text \<open>
  The loop takes an answer without a live comment and without a gap for the end of the thread.  When
  the hundred ids of a batch are all removed comments it stops, whatever \<open>MaxRounds\<close> allows, and the
  ids after them stay collapsed.
\<close>

lemma expand_stops_on_removed_batch:
  assumes "collect_batch 0 (th_Gaps th) [] [] = (batch, used)" "batch \<noteq> []"
    and "FetchMoreChildren S P url c link batch w = (Ok raw, w1)" "ParseMoreChildren P raw opts = Ok ([], [])"
  shows "\<exists>th'. expand_loop S P url c opts link (Suc n) round rounds th w = (Ok (th', round + 1), w1) \<and>
    th_Comments th' = th_Comments th \<and> set (drop maxBatch (open_ids (th_Gaps th))) - set batch \<subseteq> set (open_ids (th_Gaps th'))"
proof -
  let ?th = "MergeExpanded th [] [] batch used"
  have "set (open_ids (th_Gaps th)) - set batch \<subseteq> set (open_ids (th_Gaps ?th))"
    using round_open [OF assms(1), of "[]" "[]"] by (metis append_Nil2 open_ids_simps(1))
  then have "set (drop maxBatch (open_ids (th_Gaps th))) - set batch \<subseteq> set (open_ids (th_Gaps ?th))"
    using set_drop_subset by fastforce
  with assms show ?thesis by (intro exI [of _ ?th]) (simp add: MergeExpanded_def Let_def)
qed

section \<open>Properties\<close>


text \<open>A thread with one collapsed comment: crawl4ai first sends the thread, then what it was asked for.\<close>

definition first_then :: "(go_error + http_response) \<Rightarrow> (go_error + http_response) \<Rightarrow> bool sys" where
  \<comment> \<open>an upstream that answers the first request one way and all others another way\<close>
  "first_then a b = \<lparr>
     sys_http = (\<lambda>c q w. (if w then b else a, True)), sys_wait = (\<lambda>c d w. (None, w)), sys_rand = (\<lambda>n w. (0, w)),
     sys_lookup = (\<lambda>h w. (None, w)), sys_acquire = (\<lambda>h w. w), sys_release = (\<lambda>h w. w), sys_observe = (\<lambda>m w. w) \<rparr>"

lemma first_then_simps [simp]:
  "sys_http (first_then a b) c q w = (if w then b else a, True)" "sys_acquire (first_then a b) h w = w"
  by (simp_all add: first_then_def)

definition open_forest :: "rnode list" where
  "open_forest = quiet_forest @ [RMore (zero_more\<lparr>rm_Count := 1, rm_ParentID := ''t3_p1'', rm_Children := [''c9'']\<rparr>)]"

definition open_thread :: json where
  "open_thread = JArr [listing_json [example_post], listing_json (map thing_json open_forest)]"

definition hidden_forest :: "rnode list" where
  "hidden_forest = [RComment (zero_comment\<lparr>rc_ID := ''c9'', rc_ParentID := ''t3_p1'', rc_Author := ''bob'',
     rc_Body := ''late''\<rparr>) ''0'' []]"

definition example_upstream :: "bool sys" where
  "example_upstream = first_then (reply 200 (c4a_reply open_thread)) (reply 200 (c4a_reply (things_json [] hidden_forest)))"

lemma open_thread_json: "ascii_json open_thread" "wf_json maxNestingDepth open_thread" "length (c4a_reply open_thread) < 20971520"
proof -
  show "ascii_json open_thread" by code_simp
  have "num_ok ''0''" "num_ok ''1''" by code_simp+
  then show "wf_json maxNestingDepth open_thread"
    by (simp add: open_thread_def open_forest_def quiet_forest_def listing_json_def replies_json_def zero_comment_def
         zero_more_def example_post_def wf_json_eval)
  have "length (c4a_reply open_thread) < 10000" by code_simp
  then show "length (c4a_reply open_thread) < 20971520" by simp
qed

lemma hidden_json:
  "ascii_json (things_json [] hidden_forest)" "wf_json maxNestingDepth (things_json [] hidden_forest)"
  "length (c4a_reply (things_json [] hidden_forest)) < 20971520"
proof -
  show "ascii_json (things_json [] hidden_forest)" by code_simp
  have "num_ok ''0''" by code_simp
  then show "wf_json maxNestingDepth (things_json [] hidden_forest)"
    by (simp add: things_json_def hidden_forest_def replies_json_def zero_comment_def wf_json_eval)
  have "length (c4a_reply (things_json [] hidden_forest)) < 10000" by code_simp
  then show "length (c4a_reply (things_json [] hidden_forest)) < 20971520" by simp
qed

lemma open_forest_wf: "list_all wf_node open_forest" "list_all wf_node hidden_forest"
  using quiet_forest_wf
  by (simp_all add: open_forest_def hidden_forest_def zero_comment_def zero_more_def in_int64_def min_int64_def
      max_int64_def zero_f64_def float_eval)

lemma open_forest_ids: "open_ids (concat (map open_gaps open_forest)) = [''c9'']"
  by (simp add: open_forest_def quiet_forest_gaps makeGap_def zero_more_def)

lemma example_upstream_fetch:
  "FetchThread example_upstream P ''http://c/'' c p False = (Ok (Marshal open_thread), True)"
  "FetchMoreChildren example_upstream P ''http://c/'' c link ids True = (Ok (Marshal (things_json [] hidden_forest)), True)"
proof -
  have url: "url_Parse ''http://c/'' \<noteq> None" by code_simp
  show "FetchThread example_upstream P ''http://c/'' c p False = (Ok (Marshal open_thread), True)"
    unfolding FetchThread_def Let_def
    by (rule browserFetch_json [OF _ url _ open_thread_json]) (simp_all add: example_upstream_def)
  show "FetchMoreChildren example_upstream P ''http://c/'' c link ids True = (Ok (Marshal (things_json [] hidden_forest)), True)"
    unfolding FetchMoreChildren_def Let_def
    by (rule browserFetch_json [OF _ url _ hidden_json]) (simp_all add: example_upstream_def)
qed

lemma example_upstream_serves:
  "serves_more (\<lambda>w. w) example_upstream P ''http://c/'' c link (\<lambda>i. [''c9'']) (\<lambda>i. []) {''c9''}"
  unfolding serves_more_def
proof (intro allI impI, elim conjE)
  fix ids :: "string list" and w :: bool
  assume w: "w" and ids: "ids \<noteq> []" "set ids \<subseteq> {''c9''}"
  have "tells (\<lambda>i. [''c9'']) (\<lambda>i. []) ids (Marshal (things_json [] hidden_forest))"
    unfolding tells_def
    using ids(1) open_forest_wf(2) json_parse_Marshal [OF hidden_json(2)]
    by (intro exI [of _ "[]"] exI [of _ hidden_forest]) (simp add: hidden_forest_def isRemovedComment_def zero_comment_def)
  with w show "\<exists>raw w1. FetchMoreChildren example_upstream P ''http://c/'' c link ids w = (Ok raw, w1) \<and> w1 \<and>
      tells (\<lambda>i. [''c9'']) (\<lambda>i. []) ids raw"
    by (intro exI [of _ "Marshal (things_json [] hidden_forest)"] exI [of _ True]) (simp add: example_upstream_fetch)
qed


end
