(* ===== verification/Go_Json_Parsed.thy ===== *)
theory Go_Json_Parsed
  imports Go_Json_Roundtrip
begin

text \<open>
  Whatever the parser accepts is a well-formed value: its strings are UTF-8, its numbers are number
  literals and its nesting is within the limit.  A value that comes in and goes out again, such as
  the id of a message, is therefore read back unchanged.
\<close>

section \<open>Numbers\<close>

text \<open>A number that was read is a number by itself.\<close>

definition starts_in :: "string \<Rightarrow> string \<Rightarrow> bool" where
  "starts_in cs s \<longleftrightarrow> s = [] \<or> hd s \<in> set cs"

lemma starts_in_append: "starts_in cs a \<Longrightarrow> starts_in cs b \<Longrightarrow> starts_in cs (a @ b)"
  by (cases a) (auto simp: starts_in_def)

lemma digits1_prefix: "digits1 s = Some (w, t) \<Longrightarrow> starts_in ''.eE'' q \<Longrightarrow> digits1 (w @ q) = Some (w, q)"
proof -
  assume "digits1 s = Some (w, t)"
  then have w: "\<forall>c \<in> set w. is_digit c" "w \<noteq> []"
    by (auto simp: digits1_def split: if_splits dest: set_takeWhileD)
  assume "starts_in ''.eE'' q"
  then have "q = [] \<or> \<not> is_digit (hd q)" by (auto simp: starts_in_def is_digit_def)
  with w show ?thesis by (cases q; cases w) (auto simp: digits1_def takeWhile_append2 dropWhile_append2)
qed

lemma digits1_digit: "digits1 s = Some (w, t) \<Longrightarrow> \<exists>c u. w = c # u \<and> is_digit c"
  by (cases w) (auto simp: digits1_def split: if_splits dest: set_takeWhileD, metis list.set_intros(1) set_takeWhileD)

lemma number_int_prefix:
  assumes "number_int s = Some (w, t)" "starts_in ''.eE'' q"
  shows "number_int (w @ q) = Some (w, q)"
proof (cases s)
  case (Cons c u)
  show ?thesis
  proof (cases "c = CHR ''0''")
    case False
    with Cons assms(1) have d: "digits1 s = Some (w, t)" by (simp add: number_int_def)
    obtain v where "w = c # v" using d Cons by (auto simp: digits1_def split: if_splits)
    with False digits1_prefix [OF d assms(2)] show ?thesis by (simp add: number_int_def)
  qed (use Cons assms in \<open>auto simp: number_int_def\<close>)
qed (use assms in \<open>simp add: number_int_def\<close>)

lemma starts_in_mono: "starts_in cs s \<Longrightarrow> set cs \<subseteq> set ds \<Longrightarrow> starts_in ds s"
  by (auto simp: starts_in_def)

lemma number_frac_prefix:
  assumes "number_frac s = Some (w, t)" "starts_in ''eE'' q"
  shows "number_frac (w @ q) = Some (w, q) \<and> starts_in ''.'' w"
proof (cases "w = []")
  case True
  with assms(2) show ?thesis by (cases q) (auto simp: number_frac_def starts_in_def)
next
  case False
  with assms(1) obtain d u where d: "digits1 u = Some (d, t)" "w = CHR ''.'' # d"
    by (auto simp: number_frac_def split: list.splits if_splits)
  with digits1_prefix [OF d(1) starts_in_mono [OF assms(2)]] show ?thesis
    by (simp add: number_frac_def starts_in_def)
qed

lemma number_exp_prefix:
  assumes "number_exp s = Some (w, t)"
  shows "number_exp w = Some (w, []) \<and> starts_in ''eE'' w"
proof (cases "w = []")
  case False
  have d: "digits1 v = Some (v, []) \<and> v \<noteq> [] \<and> is_digit (hd v)" if "digits1 u = Some (v, t)" for u v
    using digits1_prefix [OF that, of "[]"] digits1_digit [OF that] by (auto simp: starts_in_def)
  from False assms obtain c v where v: "c \<in> set ''eE''" "digits1 v = Some (v, [])" "v \<noteq> []" "is_digit (hd v)"
    "w = c # v \<or> (\<exists>g \<in> set ''+-''. w = c # g # v)"
    by (auto simp: number_exp_def split: list.splits if_splits dest!: d)
  moreover from v(3,4) obtain x y where "v = x # y" "x \<noteq> CHR ''+''" "x \<noteq> CHR ''-''"
    by (cases v; fastforce simp: is_digit_def)
  ultimately show ?thesis by (auto simp: number_exp_def starts_in_def)
qed (simp add: number_exp_def starts_in_def)

lemma number_num_ok:
  assumes "number s = Some (l, t)"
  shows "num_ok l"
proof -
  obtain sign s0 where s0: "(case s of c # t \<Rightarrow> if c = CHR ''-'' then ([c], t) else ([], s) | [] \<Rightarrow> ([], s)) = (sign, s0)"
    by fastforce
  then have sign: "sign = [] \<or> sign = ''-''" by (auto split: list.splits if_splits)
  obtain i s1 f s2 e where n: "number_int s0 = Some (i, s1)" "number_frac s1 = Some (f, s2)"
      "number_exp s2 = Some (e, t)" "l = sign @ i @ f @ e"
    using assms s0 by (auto simp: number_def split: option.splits)
  have e: "number_exp e = Some (e, [])" "starts_in ''eE'' e" using number_exp_prefix [OF n(3)] by simp_all
  have f: "number_frac (f @ e) = Some (f, e)" "starts_in ''.'' f" using number_frac_prefix [OF n(2) e(2)] by simp_all
  have "starts_in ''.eE'' (f @ e)"
    by (intro starts_in_append starts_in_mono [OF f(2)] starts_in_mono [OF e(2)]) simp_all
  with n(1) have i: "number_int (i @ f @ e) = Some (i, f @ e)" by (rule number_int_prefix)
  obtain c u where c: "i = c # u" "c \<noteq> CHR ''-''"
    using n(1) digits1_digit by (cases i) (fastforce simp: number_int_def is_digit_def split: list.splits if_splits)+
  from sign e f i c show ?thesis by (auto simp: num_ok_def number_def n(4))
qed

section \<open>Values\<close>

lemma scalar_wf: "scalar s = Some (v, t) \<Longrightarrow> wf_json d v"
  by (auto simp: scalar_def json_literals_def intro: number_num_ok string_body_valid split: if_splits option.splits)

lemma wf_json_JObj: "wf_json d (JObj kvs) \<longleftrightarrow> 0 < d \<and> list_all (\<lambda>p. valid_utf8 (fst p) \<and> wf_json (d - 1) (snd p)) kvs"
  by (auto simp: list_all_iff)

lemma json_value_wf:
  "json_value d s = Some (v, t) \<Longrightarrow> wf_json d v"
  "json_elements d s = Some (vs, t) \<Longrightarrow> list_all (wf_json d) vs"
  "json_members d s = Some (kvs, t) \<Longrightarrow> list_all (\<lambda>p. valid_utf8 (fst p) \<and> wf_json d (snd p)) kvs"
proof (induction d s and d s and d s arbitrary: v t and vs t and kvs t rule: json_value_json_elements_json_members.induct)
  case (1 d s)
  from 1(3) show ?case
    by (subst (asm) json_value.simps)
       (use 1(1,2) in \<open>auto simp: wf_json_JObj simp del: wf_json.simps(4) dest: scalar_wf split: if_splits\<close>)
next
  case (2 d s)
  from 2(3) show ?case
    by (subst (asm) json_elements.simps) (use 2(1,2) in \<open>auto split: if_splits option.splits prod.splits\<close>)
next
  case (3 d s)
  from 3(3) show ?case
    by (subst (asm) json_members.simps)
       (use 3(1,2) in \<open>auto split: if_splits option.splits prod.splits dest: string_body_valid\<close>)
qed

lemma json_parse_wf: "json_parse s = Some v \<Longrightarrow> wf_json maxNestingDepth v"
  by (auto simp: json_parse_def dest: json_value_wf split: option.splits if_splits)

theorem json_parse_again: "json_parse s = Some v \<Longrightarrow> json_parse (Marshal v) = Some v"
  by (intro json_parse_Marshal json_parse_wf)

end
