(* ===== verification/Mcp_Transport.thy ===== *)
theory Mcp_Transport
  imports Mcp_Server Go_Json_Parsed
begin

text \<open>
  The two transports of \<open>internal/transport/mcp/server.go\<close> side by side: the same message gets
  the same response over standard input and over HTTP, and what a client reads from a line of
  standard output is the response the server meant.
\<close>

section \<open>One message over two transports\<close>

definition refused :: "string \<Rightarrow> bool" where
  \<comment> \<open>the message is answered without being dispatched\<close>
  "refused line = (case json_Unmarshal dec_rpcRequest line zero_rpcRequest of
     None \<Rightarrow> True | Some req \<Rightarrow> rq_JSONRPC req \<noteq> ''2.0'')"

fun http_answer :: "string \<Rightarrow> rpcResponse option res \<times> 'w \<Rightarrow> http_reply res \<times> 'w" where
  \<comment> \<open>what standard output would carry, as an HTTP reply\<close>
  "http_answer line (Ok None, w) = (Ok \<lparr>out_status = 202, out_headers = [], out_body = []\<rparr>, w)"
| "http_answer line (Ok (Some resp), w) =
     (Ok (json_reply (if refused line then 400 else 200) (response_json resp)), w)"
| "http_answer line (Fail e, w) = (Fail e, w)"
| "http_answer line (Panic m, w) = (Panic m, w)"

lemma serveHTTPPost_line:
  assumes "json_parse (in_body r) = Some v" "length (in_body r) \<le> maxPost" "in_read_err r = None"
  shows "serveHTTPPost s r w = http_answer (in_body r) (handle_line s RequestCtx (in_body r) w)"
proof -
  have "json_parse [] = None" by code_simp
  then have "in_body r \<noteq> []" using assms(1) by auto
  moreover have "json_Unmarshal dec_rpcRequest (in_body r) zero_rpcRequest = dec_rpcRequest v zero_rpcRequest"
    by (simp add: json_Unmarshal_def assms(1))
  ultimately show ?thesis
    by (auto simp: serveHTTPPost_def handle_line_def refused_def Decode_whole [OF assms]
        split: option.splits prod.splits res.splits)
qed

section \<open>What a client reads\<close>

definition dec_rpcError :: "rpcError decoder" where
  "dec_rpcError = dec_struct
     [(''code'', into er_Code er_Code_update dec_int), (''message'', into er_Message er_Message_update dec_string)]"

definition zero_rpcError :: rpcError where
  "zero_rpcError = \<lparr>er_Code = 0, er_Message = []\<rparr>"

fun dec_error_ptr :: "rpcError option decoder" where
  "dec_error_ptr JNull e = Some None"
| "dec_error_ptr j e = map_option Some (dec_rpcError j (case e of None \<Rightarrow> zero_rpcError | Some x \<Rightarrow> x))"

definition read_response :: "string \<Rightarrow> (string \<times> rpcResponse) option" where
  \<comment> \<open>the version and the rpcResponse that a line decodes to\<close>
  "read_response line = json_Unmarshal (dec_struct
     [(''jsonrpc'', into fst apfst dec_string),
      (''id'', into snd apsnd (into rs_ID rs_ID_update dec_raw)),
      (''result'', into snd apsnd (into rs_Result rs_Result_update dec_raw)),
      (''error'', into snd apsnd (into rs_Error rs_Error_update dec_error_ptr))]) line
     ([], \<lparr>rs_ID = None, rs_Result = None, rs_Error = None\<rparr>)"

definition repair_response :: "rpcResponse \<Rightarrow> rpcResponse" where
  "repair_response r = \<lparr>rs_ID = rs_ID r, rs_Result = map_option repair_json (rs_Result r),
     rs_Error = map_option (er_Message_update repair) (rs_Error r)\<rparr>"

definition wf_response :: "rpcResponse \<Rightarrow> bool" where
  "wf_response r \<longleftrightarrow> (\<forall>i. rs_ID r = Some i \<longrightarrow> wf_json (maxNestingDepth - 1) i) \<and>
     (\<forall>v. rs_Result r = Some v \<longrightarrow> plain_json (maxNestingDepth - 1) v) \<and>
     (\<forall>e. rs_Error r = Some e \<longrightarrow> er_Code e \<in> error_codes)"

lemma repair_ascii: "list_all is_ascii s \<Longrightarrow> repair s = s"
  by (rule repair_id [OF valid_utf8_ascii])

lemma repair_names:
  "repair ''jsonrpc'' = ''jsonrpc''" "repair ''2.0'' = ''2.0''" "repair ''id'' = ''id''"
  "repair ''result'' = ''result''" "repair ''error'' = ''error''" "repair ''code'' = ''code''"
  "repair ''message'' = ''message''"
  by (simp_all add: repair_ascii is_ascii_def)

lemma error_codes_Atoi: "c \<in> error_codes \<Longrightarrow> Atoi (Itoa c) = Some c"
  by (rule Atoi_Itoa) (auto simp: error_codes_def codeParseError_def codeInvalidRequest_def codeMethodNotFound_def
      codeInvalidParams_def codeInternalError_def in_int64_def min_int64_def max_int64_def)

lemma response_plain: "wf_response r \<Longrightarrow> plain_json maxNestingDepth (response_json r)"
  using wf_json_plain [of "maxNestingDepth - 1"]
  by (auto simp: wf_response_def response_json_def error_json_def maxNestingDepth_def split: option.splits)

lemma read_response_Marshal:
  assumes "wf_response r"
  shows "read_response (Marshal (response_json r)) = Some (''2.0'', repair_response r)"
proof -
  have i: "repair_json i = i" if "rs_ID r = Some i" for i
    using assms that wf_json_plain by (auto simp: wf_response_def)
  have e: "er_Code e \<in> error_codes" if "rs_Error r = Some e" for e
    using assms that by (simp add: wf_response_def)
  show ?thesis
    unfolding read_response_def json_Unmarshal_def json_parse_repair [OF response_plain [OF assms]]
    by (cases "rs_ID r"; cases "rs_Result r"; cases "rs_Error r")
       (simp_all add: response_json_def error_json_def repair_names find_field_def into_def i e repair_response_def
        dec_rpcError_def zero_rpcError_def error_codes_Atoi)
qed

section \<open>Every response is well formed\<close>

lemma plain_json_mono: "plain_json d j \<Longrightarrow> d \<le> e \<Longrightarrow> plain_json e j"
proof (induction j arbitrary: d e)
  case (JArr vs)
  then show ?case by (auto simp: list_all_iff)
next
  case (JObj kvs)
  then show ?case by (fastforce simp: list_all_iff)
qed simp_all

lemma plain_json_one_line: "plain_json d j \<Longrightarrow> one_line_json j"
proof (induction j arbitrary: d)
  case (JArr vs)
  then show ?case by (auto simp: list_all_iff)
next
  case (JObj kvs)
  then show ?case by (fastforce simp: list_all_iff)
qed (auto simp: num_ok_def dest: number_one_line)

definition wf_tools :: "'w McpServer \<Rightarrow> bool" where
  \<comment> \<open>the schemas of the tools are JSON\<close>
  "wf_tools s \<longleftrightarrow> list_all (\<lambda>t. plain_json 1000 (t_InputSchema t)) (ms_tools s)"

lemma wf_tools_plain: "wf_tools s \<Longrightarrow> plain_tools s"
  by (auto simp: wf_tools_def plain_tools_def list_all_iff dest: plain_json_one_line)

lemma dec_request_wf:
  assumes "json_Unmarshal dec_rpcRequest line zero_rpcRequest = Some req"
  shows "\<forall>i. rq_ID req = Some i \<longrightarrow> wf_json (maxNestingDepth - 1) i"
proof -
  obtain j where j: "json_parse line = Some j" "dec_rpcRequest j zero_rpcRequest = Some req"
    using assms by (auto simp: json_Unmarshal_def split: option.splits)
  show ?thesis
  proof (cases j)
    case (JObj kvs)
    have kvs: "\<And>k v. (k, v) \<in> set kvs \<Longrightarrow> wf_json (maxNestingDepth - 1) v"
      using json_parse_wf [OF j(1)] JObj by (auto simp: list_all_iff)
    show ?thesis
      by (rule dec_members_inv [where Q = "\<lambda>r. \<forall>i. rq_ID r = Some i \<longrightarrow> wf_json (maxNestingDepth - 1) i",
            OF j(2) [unfolded dec_rpcRequest_def JObj dec_struct.simps]])
         (auto simp: zero_rpcRequest_def into_def dest: kvs)
  qed (use j in \<open>auto simp: dec_rpcRequest_def zero_rpcRequest_def\<close>)
qed

lemma schema_plain: "wf_tools s \<Longrightarrow> t \<in> set (ms_tools s) \<Longrightarrow> 1000 \<le> d \<Longrightarrow> plain_json d (t_InputSchema t)"
  by (auto simp: wf_tools_def list_all_iff intro: plain_json_mono)

lemma json_of_map_plain: "0 < d \<Longrightarrow> plain_json d (json_of_map m)"
  by (simp add: json_of_map_def list_all_iff)

lemma dispatch_wf:
  assumes "fst (dispatch s c req w) = Ok resp" "wf_tools s"
    and "\<forall>i. rq_ID req = Some i \<longrightarrow> wf_json (maxNestingDepth - 1) i"
  shows "wf_response resp"
proof -
  have "(\<forall>v. rs_Result resp = Some v \<longrightarrow> plain_json (maxNestingDepth - 1) v) \<and>
      (\<forall>e. rs_Error resp = Some e \<longrightarrow> er_Code e \<in> error_codes)"
    using assms(1) schema_plain [OF assms(2)]
    by (auto simp: dispatch_def handleInitialize_def handleToolsList_def handleToolsCall_def ok_def errorResp_def
        tool_schema_def json_of_map_plain list_all_iff maxNestingDepth_def
        split: if_splits option.splits prod.splits res.splits)
  with dispatch_id [OF assms(1)] assms(3) show ?thesis by (simp add: wf_response_def)
qed

lemma errorResp_wf:
  "c \<in> error_codes \<Longrightarrow> \<forall>i. rid = Some i \<longrightarrow> wf_json (maxNestingDepth - 1) i \<Longrightarrow> wf_response (errorResp rid c m)"
  by (simp add: wf_response_def errorResp_def)

lemma handle_line_wf:
  assumes "fst (handle_line s c line w) = Ok (Some resp)" "wf_tools s"
  shows "wf_response resp"
proof (cases "json_Unmarshal dec_rpcRequest line zero_rpcRequest")
  case None
  with assms show ?thesis by (auto simp: handle_line_def intro: errorResp_wf split: if_splits)
next
  case (Some req)
  note i = dec_request_wf [OF Some]
  show ?thesis
  proof (cases "rq_JSONRPC req = ''2.0''")
    case True
    with assms(1) Some have "fst (dispatch s c req w) = Ok resp"
      by (auto simp: handle_line_def split: if_splits prod.splits res.splits)
    from dispatch_wf [OF this assms(2) i] show ?thesis .
  next
    case False
    with assms(1) Some show ?thesis using errorResp_wf [OF _ i]
      by (auto simp: handle_line_def split: if_splits)
  qed
qed

lemma serve_lines_wf: "wf_tools s \<Longrightarrow> list_all wf_response (fst (serve_lines s c ctxErr n lines w))"
proof (induction lines arbitrary: n w)
  case (Cons line lines)
  then show ?case
    using handle_line_wf [of s c "drop_cr line" w]
    by (auto split: option.splits prod.splits res.splits) (metis fst_conv)+
qed simp

section \<open>Properties\<close>

text \<open>
  C32: The transports agree: a body that is one JSON text of at most 1 MiB, posted to /mcp by an
  authenticated client, has the effect that the same line has on standard input and is
  answered with the same response; status 202 stands for no answer and 400 for a message that is
  not a JSON-RPC 2.0 request.
\<close>

theorem transport_equivalence:
  assumes "Authenticate (ms_auth s) (in_authorization r) = Inr tenant" "in_method r = ''POST''"
    and "json_parse (in_body r) = Some v" "length (in_body r) \<le> maxPost" "in_read_err r = None"
  shows "serve_mcp s ''/mcp'' fl con es r w =
    Some (http_answer (in_body r) (handle_line s RequestCtx (in_body r) w))"
  using assms(1,2) serveHTTPPost_line [OF assms(3-5)]
  by (simp add: serve_mcp_def requireAuth_def ServeHTTP_def)

definition ping_text :: string where
  "ping_text = json_text ''{`jsonrpc`:`2.0`,`id`:1,`method`:`ping`}''"

lemma ping_text_parsed: "json_parse ping_text =
    Some (JObj [(''jsonrpc'', JStr ''2.0''), (''id'', JNum ''1''), (''method'', JStr ''ping'')])"
  unfolding ping_text_def by code_simp

lemma ping_text_line:
  "handle_line example_server c ping_text w = (Ok (Some (ok (Some (JNum ''1'')) (JObj []))), w)"
  "refused ping_text = False"
proof -
  have "json_Unmarshal dec_rpcRequest ping_text zero_rpcRequest = Some example_ping"
    by (simp add: json_Unmarshal_def ping_text_parsed dec_rpcRequest_def find_field_def into_def
        zero_rpcRequest_def example_ping_def)
  moreover have "ping_text \<noteq> []" by (simp add: ping_text_def json_text_def)
  ultimately show "handle_line example_server c ping_text w = (Ok (Some (ok (Some (JNum ''1'')) (JObj []))), w)"
    "refused ping_text = False"
    by (simp_all add: handle_line_def refused_def example_ping_def dispatch_def)
qed

theorem transport_equivalence_witness:
  "serve_mcp example_server ''/mcp'' True True [] \<lparr>in_method = ''POST'', in_authorization = ''Bearer secret'',
     in_query = [], in_body = ping_text, in_read_err = None\<rparr> () =
   Some (Ok (json_reply 200 (response_json (ok (Some (JNum ''1'')) (JObj [])))), ())"
proof -
  let ?r = "\<lparr>in_method = ''POST'', in_authorization = ''Bearer secret'', in_query = [], in_body = ping_text,
     in_read_err = None\<rparr>"
  obtain t where "Authenticate (ms_auth example_server) (in_authorization ?r) = Inr t"
    using NewSharedBearer_exact [of "''secret''" "''Bearer secret''"]
    by (cases "Authenticate (ms_auth example_server) (in_authorization ?r)")
      (auto simp: example_server_def NewMcpServer_def)
  from transport_equivalence [OF this, where fl = True and con = True and es = "[]" and w = "()"]
    ping_text_parsed ping_text_line show ?thesis
    by (simp add: ping_text_def json_text_def maxPost_def)
qed

text \<open>
  C33: What a client reads is what the server meant: each line of standard output decodes to
  a response with version 2.0 and the id, the result or the error that the dispatch produced,
  in the same order and no other lines, where a text of a result that is not UTF-8 arrives
  with U+FFFD in place of the bad bytes.
\<close>

theorem ServeStdio_readback:
  assumes "wf_tools s"
  shows "map read_response (raw_lines (fst (ServeStdio s c ctxErr input inErr w))) =
    map (\<lambda>r. Some (''2.0'', repair_response r)) (fst (serve_lines s c ctxErr 0 (raw_lines input) w))"
  using serve_lines_wf [OF assms, of c ctxErr 0 "raw_lines input" w] read_response_Marshal
  by (auto simp: ServeStdio_framing [OF wf_tools_plain [OF assms]] list_all_iff)

theorem ServeStdio_readback_witness:
  "map read_response (raw_lines (fst (ServeStdio example_server RequestCtx (\<lambda>_. None) ping_text None ()))) =
     [Some (''2.0'', \<lparr>rs_ID = Some (JNum ''1''), rs_Result = Some (JObj []), rs_Error = None\<rparr>)]"
proof -
  have wf: "wf_tools example_server" by (simp add: wf_tools_def example_server_def NewMcpServer_def)
  have "raw_lines ping_text = [ping_text]" "drop_cr ping_text = ping_text"
    unfolding ping_text_def by code_simp+
  moreover have "length ping_text < maxLine" by (simp add: ping_text_def json_text_def maxLine_def)
  ultimately have "fst (serve_lines example_server RequestCtx (\<lambda>_. None) 0 (raw_lines ping_text) ()) =
      [ok (Some (JNum ''1'')) (JObj [])]"
    by (simp add: ping_text_line)
  with ServeStdio_readback [OF wf, of RequestCtx "\<lambda>_. None" ping_text None "()"] show ?thesis
    by (simp add: repair_response_def ok_def)
qed

end
