(* ===== verification/Spec2Isabelle.thy ===== *)
theory Spec2Isabelle
  imports Accounting Reddit_Expansion Mcp_Transport
begin

text \<open>
  A verification development for omnifeed, a proxy that renders web pages and Reddit threads for
  language models.  It puts a pool of browsers (crawl4ai) behind two HTTP interfaces, the Open
  WebUI loader and an MCP server, and offers web search through a SearXNG instance.

  \<^bold>\<open>The program.\<close>  A request names a URL.  The registry (\<open>internal/engine/registry.go\<close>) rejects
  addresses that are not safe targets and gives the others to the first engine that claims them:
  Reddit addresses to the Reddit engine, the rest to the crawl4ai engine.  The Reddit engine
  normalises the address to a permalink, takes a slot of the per-domain limiter, fetches the thread
  as JSON with a script run in the browser, expands collapsed branches in rounds and encodes the
  result.  The crawl4ai engine asks for the page itself and refuses bot walls.  Both post to crawl4ai
  through a client that retries.  The loader runs the URLs of a request in parallel goroutines; the
  MCP server answers JSON-RPC over standard input or HTTP and offers the tools fetch_url and
  web_search.  Readiness probes and metrics have a listener of their own.

  \<^bold>\<open>Theories.\<close>  The language and its standard library, as far as the program uses them:
  \<^item> \<open>Go_Prelude\<close>: strings as byte lists, \<open>strings\<close> and \<open>strconv\<close>, 64-bit integers; the collections
    \<open>go_result\<close> and \<open>go_string\<close>;
  \<^item> \<open>Go_Net\<close>, \<open>Go_Url\<close>, \<open>Go_Regexp\<close>, \<open>Go_Text\<close>, \<open>Go_Float\<close>, \<open>Go_Http\<close>: IP addresses, URLs, leftmost-first
    regular expressions, UTF-8, reading a number literal as a \<open>float64\<close>, requests and replies;
  \<^item> \<open>Go_Json\<close>, \<open>Go_Json_Strings\<close>, \<open>Go_Json_Roundtrip\<close>, \<open>Go_Json_Parsed\<close>, \<open>Go_Json_Lines\<close>: the JSON decoder
    with its nesting limit and the encoder, that parsing undoes encoding up to bytes that are not
    UTF-8, that parsed values are well formed, and that encoded text is one line;
  \<^item> \<open>Go_World\<close>: the environment, below.

  The program, theory by file:
  \<^item> \<open>Domain_Model\<close>: \<open>internal/domain\<close>; records, the failure taxonomy, errors with their unwrap chain;
  \<^item> \<open>Ssrf\<close>, \<open>Retry\<close>, \<open>Limiter\<close>: \<open>internal/httpx\<close>; \<open>ValidateURL\<close>, \<open>DoRetry\<close>, \<open>DomainLimiter\<close>;
  \<^item> \<open>Antibot\<close>, \<open>Auth\<close>, \<open>Config\<close>: the packages of these names; \<open>Metrics\<close>: \<open>metrics.go\<close> of
    \<open>internal/observability\<close>, and \<open>Observability\<close>: the rest of it;
  \<^item> \<open>Reddit_Url\<close>, \<open>Reddit_Text\<close>, \<open>Reddit_Parser\<close>, \<open>Reddit_Merge\<close>: \<open>parser.go\<close> and \<open>types.go\<close> of
    \<open>internal/engine/reddit\<close>; \<open>Reddit_Fetcher\<close>: \<open>fetcher.go\<close>; \<open>Reddit_Engine\<close>: \<open>engine.go\<close>;
    \<open>Reddit_Example\<close>: a crawl evaluated from end to end; \<open>Reddit_Complete\<close> and \<open>Reddit_Expansion\<close>: what a
    document contains, and when nothing is missing;
  \<^item> \<open>Crawl4ai_Engine\<close>, \<open>Registry\<close>, \<open>Searxng\<close>: \<open>internal/engine/crawl4ai\<close>, \<open>internal/engine/registry.go\<close>,
    \<open>internal/search/searxng\<close>; \<open>Crawl_Concurrency\<close>: crawls that run together and share the limiter;
  \<^item> \<open>Mcp_Server\<close>, \<open>Mcp_Tools\<close>, \<open>Openwebui\<close>: \<open>internal/transport\<close>; \<open>Mcp_Transport\<close>: its MCP transports side by
    side, and what a client reads;
  \<^item> \<open>Omnifeed\<close>: \<open>cmd/omnifeed/main.go\<close>; \<open>Accounting\<close>: what is counted, over all components; and this
    theory, the properties of the whole.

  Functions and types keep the names they have in the code, with a prefix where two packages share
  one (\<open>Registry_Crawl\<close>, \<open>Crawl4ai_Crawl\<close>, \<open>NewLoader\<close>); a struct is a record, whose field names carry
  a prefix when they would clash.

  \<^bold>\<open>Modelling.\<close>  A function that returns a value and an error returns an \<open>'a res\<close>: \<open>Ok\<close>, \<open>Fail\<close> or \<open>Panic\<close>.
  What the program asks of the outside (an HTTP exchange, a timer, a random number, a name lookup, a
  limiter slot, a metric) is a field of the record \<open>'w sys\<close>, an argument of the definitions; theorems
  hold for every such record and every state \<open>'w\<close>.  \<open>logged S\<close> is \<open>S\<close> with a list of the calls made, and
  the traffic theorems say which calls a component adds to that list.  Concurrency is a step
  relation in four places: requests at the limiter (\<open>lstep\<close>), whole crawls that share it (\<open>cstep\<close>),
  goroutines and wait group of a loader request (\<open>gstep\<close>), listeners and shutdown (\<open>rstep\<close>).  A
  goroutine of the loader may find the world in any state, so that the others are free to do anything
  meanwhile.  Inside one crawl the limiter appears as \<open>sys_acquire\<close> and \<open>sys_release\<close>; \<open>cstep\<close> plays the
  logs of any number of crawls against the limiter, so that its behaviour under them is proved and
  not assumed.  Time is read from the environment as explicit instants in nanoseconds.

  Parameters stand for what is not in the repository: the TOON encoder, the lower-casing of text
  outside ASCII, the value of an out-of-range conversion from \<open>float64\<close> (\<open>platform\<close>, with the instance
  \<open>amd64\<close>), the version stamp.  The hypothesis \<open>rand_in_range\<close> is the documented range of
  \<open>rand.Int63n\<close>.  The text of errors of \<open>encoding/json\<close>, \<open>net/url\<close> and \<open>strconv\<close> is one fixed string each.
  The raw id of a JSON-RPC message is kept as the value it denotes.

  \<^bold>\<open>Contracts.\<close>  Each interface of the code is a record of operations or a function, and its contract a
  locale: \<open>authenticator_contract\<close> (one tenant, one error), \<open>engine_contract\<close> (a document names its
  source and status) with its extensions \<open>proxied_engine\<close> (all requests go to one address) and
  \<open>slotted_engine\<close> (requests are sent from the slot of their host, and the slot is given back),
  \<open>searcher_contract\<close> (no more results than the limit).  They are interpreted on both authenticators,
  on the two engines, on the registry as \<open>main\<close> builds it (\<open>wired\<close>, \<open>wired_proxied\<close>,
  \<open>wired_slotted\<close>) and on the SearXNG
  searcher; the loader and the tools are proved against the contracts.

  \<^bold>\<open>What is shown.\<close>
  \<^item> Security: who is let in (\<open>start_fails_closed\<close>, \<open>serve_mcp_guarded\<close>, \<open>loader_admission\<close>), how
    every request ends (\<open>served_total\<close>), which
    addresses are accepted and that nothing else is fetched (\<open>ValidateURL_accepts_iff\<close>,
    \<open>isReservedIP_blocks\<close>, \<open>Registry_guards\<close>, \<open>mcp_fetch_guarded\<close>), that data cannot leave a string of
    the browser script (\<open>jsLit_contained\<close>).
  \<^item> Traffic: how many requests a crawl sends, where, and inside which slot (\<open>Crawl_traffic\<close>),
    and that each crawl is counted once, under one of 44 series (\<open>loader_crawl_accounted\<close>,
    \<open>metric_series_bounded\<close>).
  \<^item> Results: comment trees against a recursive specification (\<open>ParseThread_forest\<close>,
    \<open>walkChildren_output\<close>), merging without loss or doubles, progress of every expansion round,
    the document of a crawl from the tree Reddit sent (\<open>Crawl_complete\<close>) and, with enough rounds, from
    all that Reddit holds of the thread (\<open>Crawl_expands_all\<close>), normal forms and round trips
    of permalinks and texts, one document per URL in order (\<open>loader_documents\<close>), one answer per message
    (\<open>ServeStdio_answers\<close>) that a client reads back (\<open>ServeStdio_readback\<close>), retrying as a search for
    the first final reply (\<open>DoRetry_first_final\<close>).
  \<^item> Agreement: a message gets the same response on both MCP transports (\<open>transport_equivalence\<close>), and
    the loader and fetch_url deliver the same document (\<open>transports_same_document\<close>).
  \<^item> Concurrency: the limiter's capacity, spacing and progress; with the configuration of the process,
    how many crawls of a host are at a request at once (\<open>host_parallelism\<close>) and that all of them can
    end (\<open>crawls_complete\<close>); the wait group's bound, the order of the shutdown (\<open>listeners_invariant\<close>).
  \<^item> Where the code does not do what it means to: \<open>loader_crash\<close>, \<open>web_search_limit_overflow\<close>,
    \<open>DoRetry_retry_after_overflow_panics\<close>, and the lemmas \<open>nocreated_ignored\<close>, \<open>failure_exits_zero\<close>,
    \<open>zero_concurrency_blocks\<close>, \<open>limiter_overlap\<close>, \<open>threadSession_comments_subreddit\<close>,
    \<open>initialized_unanswered\<close>, \<open>NormalizePermalink_query_injection\<close>, \<open>expand_stops_on_removed_batch\<close>.

  \<^bold>\<open>Bounds.\<close>  The loops of the code are structural recursions here: over the retries left
  (\<open>retry_loop\<close>) and the rounds left (\<open>expand_loop\<close>), both counted by the code itself, over lists, or over
  the nesting the JSON decoder still allows, 10000 as in the library.  The walk over a comment tree
  terminates because the JSON value it descends into gets smaller.  The one fuel, in the check for
  valid UTF-8, is the length of the text, and enough because every rune takes a byte
  (\<open>utf8_fuel_enough\<close>).  A thread needs as many rounds as its collapsed ids are nested deep plus one for
  every full batch of a hundred (\<open>rounds_needed\<close>); the code allows 40 at most, and with fewer than it
  needs the rest of the thread stays in its gaps.

  \<^bold>\<open>Not modelled.\<close>  What Prometheus does with a series, what its page and the pprof pages show, log output
  and HTTP server timeouts are behaviour of other people's code without an effect on the rest;
  the release that the linker stamps in place of \<open>Version\<close> is a parameter.  \<open>http.ServeMux\<close> redirects
  paths that are not clean before they reach a route; \<open>routes\<close> is about clean paths.
\<close>

section \<open>Authentication\<close>


definition keyed_env :: "string \<Rightarrow> string" where
  "keyed_env key = (if key = ''OMNIFEED_CRAWL4AI_URL'' then ''http://c:11235/crawl''
     else if key = ''OMNIFEED_API_KEY'' then ''secret'' else [])"


section \<open>What reaches the network\<close>



text \<open>
  C19: The metrics cannot be made to grow, nor to panic: whatever is crawled and whatever message the
  MCP server is sent, one crawl and one message count at most once each, every count has as many
  labels as its collectors expect, and all counts together open at most 44 series.
\<close>

theorem metric_series_bounded:
  assumes "run_setup (logged S) (logged Sx) P toon version cfg = Ok (HttpMode app)"
    and "Authenticate (ow_auth (app_loader app)) header = Inr tenant"
  shows "length all_series = 44 \<and>
    emits bounded_series (crawlOne (logged S) (app_loader app) u opts tenant (w, l)) l \<and>
    emits bounded_series (dispatch (app_mcp app) c req (w, l)) l"
proof (intro conjI length_all_series)
  have "tenant \<in> {SelfTenant, mcpTenant}" using auth.tenant [OF assms(2)] by simp
  from crawlOne_counts [OF assms(1) this]
  show "emits bounded_series (crawlOne (logged S) (app_loader app) u opts tenant (w, l)) l"
    by (rule emits_weaken) (rule counts_bounded_series)
next
  obtain a where "app_mcp app = NewMcpServer (build_tools (logged S) (logged Sx) P toon cfg) a version"
    using assms(1) by (auto simp: run_setup_def Let_def or_return_Ok split: if_splits)
  then show "emits bounded_series (dispatch (app_mcp app) c req (w, l)) l"
    using emits_weaken [OF dispatch_counts counts_bounded_series] by simp
qed

theorem metric_series_bounded_witness:
  "\<exists>app. run_setup (logged (steady (reply 200 []))) (logged (steady (reply 200 []))) amd64 (\<lambda>_. Inr [])
      Version (example_cfg True) = Ok (HttpMode app) \<and>
    emits bounded_series (crawlOne (logged (steady (reply 200 []))) (app_loader app) ''http://a.b/'' no_options SelfTenant ((), [])) []"
proof -
  let ?S = "logged (steady (reply 200 []))"
  obtain app where app: "run_setup ?S ?S amd64 (\<lambda>_. Inr []) Version (example_cfg True) = Ok (HttpMode app)"
    by (rule example_app)
  from run_setup_Http [OF app] have "ow_auth (app_loader app) = NewSharedBearer ''secret''"
    by (auto simp: choose_auth_Ok example_cfg_def)
  then have "Authenticate (ow_auth (app_loader app)) (''Bearer '' @ ''secret'') = Inr SelfTenant"
    unfolding NewSharedBearer_def by (simp only: SharedBearer_accepts)
  from metric_series_bounded [OF app this] app show ?thesis by blast
qed

definition fetch_request :: "json option \<Rightarrow> string \<Rightarrow> rpcRequest" where
  \<comment> \<open>the message that calls fetch_url with an address and no options\<close>
  "fetch_request i u = \<lparr>rq_JSONRPC = ''2.0'', rq_ID = i, rq_Method = ''tools/call'',
     rq_Params = Some (JObj [(''name'', JStr ''fetch_url''), (''arguments'', JObj [(''url'', JStr u)])])\<rparr>"

lemma fetch_request_handled:
  "dispatch (NewMcpServer (build_tools S Sx P toon cfg) authn version) c (fetch_request i u) w =
     (case crawlHandler S P (build_registry S P toon cfg) (redditDefaults cfg) True c [''url'' \<mapsto> JStr u] w of
        (Panic m, w1) \<Rightarrow> (Panic m, w1)
      | (Fail err, w1) \<Rightarrow> (case As_ParamError err of
            Some msg \<Rightarrow> (Ok (errorResp i codeInvalidParams msg), w1)
          | None \<Rightarrow> (Ok (errorResp i codeInternalError ''fetch_url failed''), w1))
      | (Ok r, w1) \<Rightarrow> (Ok (ok i (JObj [(''_meta'', json_of_map (tr_Meta r)),
           (''content'', JArr [JObj [(''text'', JStr (tr_Text r)), (''type'', JStr ''text'')]])])), w1))"
proof -
  have name: "ms_byName (NewMcpServer (build_tools S Sx P toon cfg) authn version) ''fetch_url'' =
      Some (FetchURL S P (build_registry S P toon cfg) (redditDefaults cfg) True)"
    by (simp add: NewMcpServer_def build_tools_def FetchURL_def WebSearch_def split: option.splits)
  have params: "dec_toolCallParams (JObj [(''name'', JStr ''fetch_url''), (''arguments'', JObj [(''url'', JStr u)])]) ([], Map.empty) =
      Some (''fetch_url'', [''url'' \<mapsto> JStr u])"
    by (simp add: dec_toolCallParams_def find_field_def into_def)
  obtain x w1 where "crawlHandler S P (build_registry S P toon cfg) (redditDefaults cfg) True c [''url'' \<mapsto> JStr u] w = (x, w1)"
    by fastforce
  moreover have "t_Handle (FetchURL S P reg d m) = crawlHandler S P reg d m" for reg d m by (simp add: FetchURL_def)
  ultimately show ?thesis
    by (cases x) (simp_all add: dispatch_def handleToolsCall_def fetch_request_def params name split: option.splits)
qed



section \<open>The standard input server\<close>

text \<open>The tools of the process have well-formed schemas, so its standard output is read back by clients.\<close>

lemma main_tools_wf: "wf_tools (NewMcpServer (build_tools S Sx P toon cfg) authn version)"
  by (auto simp: wf_tools_def NewMcpServer_def build_tools_def FetchURL_def WebSearch_def split: option.splits)

lemma stdio_server_wf:
  assumes "start S Sx P toon version getenv mcpStdio = Inr (StdioMode srv)"
  shows "wf_tools srv"
  using assms main_tools_wf
  by (auto simp: start_def run_setup_def Let_def or_return_Ok split: res.splits if_splits)

section \<open>Two ways to one document\<close>

lemma default_options: "buildEngineOptions srv [] =
  \<lparr>RedditKeepDepth = KeepDepth (ow_redditDefaults srv), RedditKeepCreated = KeepCreated (ow_redditDefaults srv),
   RedditMaxRounds = MaxRounds (ow_redditDefaults srv), RedditFormat = Format (ow_redditDefaults srv)\<rparr>"
proof -
  have "query_Get [] k = []" for k by (simp add: query_Get_def query_pairs_def)
  then show ?thesis by (simp add: buildEngineOptions_def Let_def)
qed

text \<open>
  C9: The loader and the MCP server are two ways to the same document.  Started from one
  configuration, a loader crawl without query parameters and a fetch_url call with only an address
  come to the same crawl of the registry: its document is what the loader returns and, text and
  metadata, what the tool returns; its error is the loader's error document and an error response;
  and its panic is a panic of both.
\<close>

theorem transports_same_document:
  assumes "run_setup S Sx P toon version cfg = Ok (HttpMode app)" "u \<noteq> []"
  shows "let r = fst (dispatch (app_mcp app) RequestCtx (fetch_request i u) w);
      l = fst (crawlOne S (app_loader app) u (buildEngineOptions (app_loader app) []) tenant w)
    in case fst (Registry_Crawl S (ow_registry (app_loader app)) RequestCtx u (buildEngineOptions (app_loader app) []) w) of
        Ok doc \<Rightarrow> l = Ok \<lparr>ld_PageContent = PageContent doc, ld_Metadata = Metadata doc\<rparr> \<and>
          r = Ok (ok i (JObj [(''_meta'', json_of_map (Metadata doc)),
            (''content'', JArr [JObj [(''text'', JStr (PageContent doc)), (''type'', JStr ''text'')]])]))
      | Fail e \<Rightarrow> l = Ok \<lparr>ld_PageContent = ''Error crawling URL (see server logs for details)'',
            ld_Metadata = [''source'' \<mapsto> u, ''error'' \<mapsto> ''true'']\<rparr> \<and>
          (\<exists>code msg. r = Ok (errorResp i code msg))
      | Panic m \<Rightarrow> l = Panic m \<and> r = Panic m"
proof -
  obtain a where app: "app_mcp app = NewMcpServer (build_tools S Sx P toon cfg) a version"
      "ow_registry (app_loader app) = build_registry S P toon cfg"
      "ow_redditDefaults (app_loader app) = redditDefaults cfg"
    using assms(1) by (auto simp: run_setup_def Let_def or_return_Ok NewLoader_def split: if_splits)
  let ?o = "buildEngineOptions (app_loader app) []"
  have opts: "fetch_options P (redditDefaults cfg) [''url'' \<mapsto> JStr u] = ?o"
    by (simp add: default_options app(3) fetch_options_def arg_string_def arg_float_def)
  obtain x w1 where "Registry_Crawl S (build_registry S P toon cfg) RequestCtx u ?o w = (x, w1)" by fastforce
  with assms(2) show ?thesis
    unfolding Let_def app(1) fetch_request_handled
    by (cases x)
       (auto simp: app(2) crawlOne_def crawlHandler_def string_or_empty_def arg_string_def opts Let_def split: option.splits)
qed

theorem transports_same_document_witness:
  "\<exists>app. run_setup (steady (reply 200 [])) (steady (reply 200 [])) amd64 (\<lambda>_. Inr []) Version (example_cfg True) = Ok (HttpMode app) \<and>
    (\<exists>code msg. fst (dispatch (app_mcp app) RequestCtx (fetch_request None ''http://127.0.0.1/'') ()) = Ok (errorResp None code msg))"
proof -
  let ?S = "steady (reply 200 [])"
  obtain app where app: "run_setup ?S ?S amd64 (\<lambda>_. Inr []) Version (example_cfg True) = Ok (HttpMode app)"
    by (rule example_app)
  let ?o = "buildEngineOptions (app_loader app) []"
  have "ow_registry (app_loader app) = build_registry ?S amd64 (\<lambda>_. Inr []) (example_cfg True)"
    using app by (auto simp: run_setup_def Let_def or_return_Ok NewLoader_def split: if_splits)
  then have "rg_blockPrivate (ow_registry (app_loader app))"
    by (simp add: build_registry_def BlockPrivateIPs_def example_cfg_def)
  moreover have "\<not> safe_target (\<lambda>_. None) ''http://127.0.0.1/''" by code_simp
  then have "fst (ValidateURL ?S ''http://127.0.0.1/'' True ()) \<noteq> None" by (simp add: ValidateURL_block_iff)
  ultimately obtain e where "fst (Registry_Crawl ?S (ow_registry (app_loader app)) RequestCtx ''http://127.0.0.1/'' ?o ()) = Fail e"
    by (cases "ValidateURL ?S ''http://127.0.0.1/'' True ()") (auto simp: Registry_Crawl_def)
  with transports_same_document [OF app, of "''http://127.0.0.1/''" None "()"] app show ?thesis
    by (auto simp: Let_def)
qed

section \<open>How a request ends\<close>



section \<open>Crawls that run at the same time\<close>


lemma example_log:
  "crawl_log (Registry_Crawl (logged (steady (reply 200 []))) (build_registry (logged (steady (reply 200 []))) amd64 (\<lambda>_. Inr [])
     (example_cfg False))) RequestCtx (''https://a.b/'', no_options, ()) =
   [EvAcquire ''a.b'', EvHttp RequestCtx (crawl_http ''http://c:11235/crawl'' ''https://a.b/''), EvRelease ''a.b'']"
proof -
  let ?S = "logged (steady (reply 200 []))"
  have url: "url_Parse ''http://c:11235/crawl'' \<noteq> None" "\<not> IsRedditURL ''https://a.b/''" by code_simp+
  have host: "slotFor ''https://a.b/'' = Ok ''a.b''" by code_simp
  have "well_formed_target ''https://a.b/''" by code_simp
  then obtain w1 where "ValidateURL ?S ''https://a.b/'' False ((), []) = (None, w1)"
    using ValidateURL_open_iff [of ?S "''https://a.b/''" "((), [])"] by (cases "ValidateURL ?S ''https://a.b/'' False ((), [])") auto
  moreover have "w1 = ((), [])" if "ValidateURL ?S ''https://a.b/'' False ((), []) = (None, w1)" for w1
    using that by (auto simp: ValidateURL_def Let_def split: if_splits option.splits)
  ultimately have v: "ValidateURL ?S ''https://a.b/'' False ((), []) = (None, ((), []))" by blast
  have "snd (crawl_exchange ?S amd64 ''http://c:11235/crawl'' RequestCtx ''https://a.b/'' ((), l)) =
      ((), l @ [EvHttp RequestCtx (crawl_http ''http://c:11235/crawl'' ''https://a.b/'')])" for l
    using url(1)
    by (simp add: crawl_exchange_def DoRetry_def Let_def try_once_def reply_def numeral_3_eq_3 crawl_http_def
        split: prod.splits)
  then obtain r where "crawl_exchange ?S amd64 ''http://c:11235/crawl'' RequestCtx ''https://a.b/'' ((), [EvAcquire ''a.b'']) =
      (r, ((), [EvAcquire ''a.b''] @ [EvHttp RequestCtx (crawl_http ''http://c:11235/crawl'' ''https://a.b/'')]))"
    by (metis prod.collapse)
  with v host url(2) show ?thesis
    by (simp add: crawl_log_def Registry_Crawl_def Resolve_wired crawl4ai_engine_def Crawl4ai_Crawl_def
        with_slot_def Acquire_def example_cfg_def split: prod.splits)
qed

abbreviation example_jobs :: "(string \<times> EngineOptions \<times> unit) list" where
  "example_jobs \<equiv> [(''https://a.b/'', no_options, ())]"

abbreviation example_crawl :: "unit crawl_fun" where
  "example_crawl \<equiv> Registry_Crawl (logged (steady (reply 200 [])))
     (build_registry (logged (steady (reply 200 []))) amd64 (\<lambda>_. Inr []) (example_cfg False))"

lemma example_sending:
  "\<exists>s. creachable 2 1500000000 (map (crawl_log example_crawl RequestCtx) example_jobs) s \<and> sending s 0"
proof -
  let ?q = "EvHttp RequestCtx (crawl_http ''http://c:11235/crawl'' ''https://a.b/'')"
  let ?progs = "[[EvAcquire ''a.b'', ?q, EvRelease ''a.b'']]"
  let ?a = "cinit ?progs"
  let ?l1 = "(linit 1)\<lparr>procs := [Waiting ''a.b'']\<rparr>"
  let ?b = "?a\<lparr>cr_limiter := ?l1, cr_progs := [[?q, EvRelease ''a.b'']]\<rparr>"
  let ?l2 = "?l1\<lparr>sem := (sem ?l1)(''a.b'' := 1), procs := [Checking ''a.b'']\<rparr>"
  let ?c = "?b\<lparr>cr_limiter := ?l2\<rparr>"
  let ?l3 = "?l2\<lparr>procs := [Holding ''a.b'']\<rparr>"
  let ?d = "?c\<lparr>cr_limiter := ?l3\<rparr>"
  have 1: "cstep 2 1500000000 ?a ?b"
    using cstep.acquire [of 0 ?a "''a.b''" "[?q, EvRelease ''a.b'']" ?l1 2 1500000000] lstep.call [of 0 "linit 1" 2 1500000000 "''a.b''"]
    by (simp add: cinit_def linit_def)
  have 2: "cstep 2 1500000000 ?b ?c"
    using cstep.inside [of 2 1500000000 ?b ?l2] lstep.enter [of 0 ?l1 "''a.b''" 2 1500000000] by (simp add: linit_def)
  have 3: "cstep 2 1500000000 ?c ?d"
    using cstep.inside [of 2 1500000000 ?c ?l3] lstep.go [of 0 ?l2 "''a.b''" 1500000000 2] by (simp add: linit_def sleep_time_def)
  have "creachable 2 1500000000 ?progs ?d"
    unfolding creachable_def using 1 2 3 by (meson converse_rtranclp_into_rtranclp rtranclp.rtrancl_refl)
  moreover have "sending ?d 0" by (simp add: sending_def)
  ultimately show ?thesis by (auto simp: example_log)
qed


text \<open>
  C13: No crawl waits for ever: with a positive concurrency, from every state that any number of crawls
  can get into together there is a way on in which all of them end and have given back their slots;
  and every step, the passing of time apart, lowers a count that is zero exactly at that end, so
  that they cannot go round in circles either.
\<close>

theorem crawls_complete:
  assumes "creachable (PerDomainConcurrency cfg) (PerDomainDelay cfg)
      (map (crawl_log (Registry_Crawl (logged S) (build_registry (logged S) P toon cfg)) c) jobs) s"
    and "1 \<le> PerDomainConcurrency cfg"
  shows "(\<exists>s'. (cstep (PerDomainConcurrency cfg) (PerDomainDelay cfg))\<^sup>*\<^sup>* s s' \<and> finished s') \<and>
    (\<forall>s'. cstep (PerDomainConcurrency cfg) (PerDomainDelay cfg) s s' \<longrightarrow> work s' < work s \<or> later s s') \<and>
    (work s = 0 \<longleftrightarrow> finished s)"
  using wired_slotted.running_finish [OF assms] wired_slotted.running_work [OF assms(1)] work_0 by blast

theorem crawls_complete_witness:
  "\<exists>s s'. creachable 2 1500000000 (map (crawl_log example_crawl RequestCtx) example_jobs) s \<and> sending s 0 \<and>
     (cstep 2 1500000000)\<^sup>*\<^sup>* s s' \<and> finished s'"
proof -
  have cfg: "PerDomainConcurrency (example_cfg False) = 2" "PerDomainDelay (example_cfg False) = 1500000000"
    by (simp_all add: example_cfg_def)
  obtain s where s: "creachable 2 1500000000 (map (crawl_log example_crawl RequestCtx) example_jobs) s" "sending s 0"
    using example_sending by blast
  from crawls_complete [of "example_cfg False", unfolded cfg, OF s(1)] s show ?thesis by fastforce
qed

section \<open>What does not work as meant\<close>

text \<open>
  C38: The loader can be crashed by one request: the thread address with an escaped percent sign
  passes every check of the endpoint, and its crawl panics in a goroutine, which ends the process.
\<close>

theorem loader_crash:
  assumes "run_setup S Sx P toon version cfg = Ok (HttpMode app)"
    and "fst (crawl_prepare S (app_loader app) r w) = Inr j"
    and "job_urls j = [''https://www.reddit.com/r/a%25zz/comments/abc'']"
  shows "served S app r w mainMux ''/crawl'' ProcessEnds"
proof -
  let ?u = "''https://www.reddit.com/r/a%25zz/comments/abc''" and ?srv = "app_loader app"
  have reg: "ow_registry ?srv = build_registry S P toon cfg" "ow_blockPrivate ?srv = BlockPrivateIPsCfg cfg"
    using run_setup_Http [OF assms(1)] by blast+
  obtain w0 where "fst (ValidateURL S ?u (BlockPrivateIPsCfg cfg) w0) = None"
    using crawl_prepare_Inr [OF assms(2)] assms(3) reg(2) by force
  then obtain w1 where v: "ValidateURL S ?u (BlockPrivateIPsCfg cfg) w0 = (None, w1)"
    by (cases "ValidateURL S ?u (BlockPrivateIPsCfg cfg) w0") simp
  have match: "IsRedditURL ?u" by code_simp
  then have "Resolve (build_registry S P toon cfg) ?u =
      Some (reddit_engine S P toon (NewEngine (Crawl4AIURL cfg) (RedditTimeout cfg) (redditDefaults cfg)))"
    by (simp add: Resolve_def build_registry_def BlockPrivateIPs_def Fallback_def Register_def NewRegistry_def reddit_engine_def
        del: One_nat_def)
  with v have "fst (Registry_Crawl S (ow_registry ?srv) RequestCtx ?u (job_opts j) w0) = Panic ''nil pointer dereference''"
    unfolding reg(1) Registry_Crawl_def block_build by (simp only: prod.case option.case reddit_engine_def engine.select_convs Crawl_percent)
  then have "fst (crawlOne S ?srv ?u (job_opts j) (job_tenant j) w0) = Panic ''nil pointer dereference''"
    by (cases "Registry_Crawl S (ow_registry ?srv) RequestCtx ?u (job_opts j) w0") (simp only: crawlOne_def Let_def fst_conv prod.case res.case)
  then have g: "goroutine S ?srv j 0 (Panic ''nil pointer dereference'')"
    unfolding goroutine_def assms(3) by (intro exI [of _ w0]) (simp only: nth_Cons_0)
  let ?run = "goroutine S ?srv j"
  let ?s = "(ginit 1)\<lparr>g_next := 1, g_running := [0], g_count := 1\<rparr>"
  have "gstep ?run 1 (ginit 1) ?s" using gstep.spawn [of "ginit 1" 1 ?run] by (simp add: ginit_def)
  moreover have "gstep ?run 1 ?s (?s\<lparr>g_phase := Crashed\<rparr>)"
    using g by (intro gstep.crash [where i = 0]) (simp_all add: ginit_def)
  ultimately have "greachable ?run 1 (?s\<lparr>g_phase := Crashed\<rparr>)"
    unfolding greachable_def by (meson converse_rtranclp_into_rtranclp rtranclp.rtrancl_refl)
  then have "crawl_outcome S ?srv r w None"
    using assms(2,3) by (intro crawl_outcome.crashed [where j = j and s = "?s\<lparr>g_phase := Crashed\<rparr>"]) simp_all
  then show ?thesis by (rule served.crawl_panic)
qed

theorem loader_crash_witness:
  "\<exists>app. run_setup (steady (reply 200 [])) (steady (reply 200 [])) amd64 (\<lambda>_. Inr []) Version (example_cfg False) = Ok (HttpMode app) \<and>
     served (steady (reply 200 [])) app (example_post_of ''https://www.reddit.com/r/a%25zz/comments/abc'') () mainMux ''/crawl'' ProcessEnds"
proof -
  let ?S = "steady (reply 200 [])" and ?u = "''https://www.reddit.com/r/a%25zz/comments/abc''"
  obtain app where app: "run_setup ?S ?S amd64 (\<lambda>_. Inr []) Version (example_cfg False) = Ok (HttpMode app)"
    by (rule example_app)
  have url: "list_all is_ascii ?u" "length ?u < 1000" "well_formed_target ?u" by code_simp+
  have srv: "ow_auth (app_loader app) = NewSharedBearer ''secret''" "\<not> ow_blockPrivate (app_loader app)"
    "1 \<le> ow_maxURLsPerReq (app_loader app)"
    using run_setup_Http [OF app] app
    by (auto simp: example_cfg_def choose_auth_def run_setup_def NewLoader_def or_return_Ok split: if_splits)
  from example_prepare [OF url srv] obtain j where j: "fst (crawl_prepare ?S (app_loader app) (example_post_of ?u) ()) = Inr j"
    "job_urls j = [?u]" by blast
  from loader_crash [OF app j] app show ?thesis by blast
qed

text \<open>
  The query parameter \<open>nocreated=1\<close> has no effect: with the options that main wires in, the
  Reddit engine keeps the creation times whatever the query of the request is.
\<close>

theorem nocreated_ignored:
  assumes "run_setup S Sx P toon version cfg = Ok (HttpMode app)"
  shows "KeepCreated (resolveOptions (NewEngine (Crawl4AIURL cfg) (RedditTimeout cfg) (redditDefaults cfg))
    (buildEngineOptions (app_loader app) q))"
  by (simp add: resolveOptions_def NewEngine_def redditDefaults_def Let_def)

theorem nocreated_ignored_witness:
  "\<exists>app. run_setup (steady (reply 200 [])) (steady (reply 200 [])) amd64 (\<lambda>_. Inr []) Version (example_cfg False) = Ok (HttpMode app) \<and>
     \<not> RedditKeepCreated (buildEngineOptions (app_loader app) ''nocreated=1'') \<and>
     KeepCreated (resolveOptions (NewEngine ''http://c:11235/crawl'' 0 (redditDefaults (example_cfg False)))
       (buildEngineOptions (app_loader app) ''nocreated=1''))"
proof -
  let ?S = "steady (reply 200 [])"
  obtain app where app: "run_setup ?S ?S amd64 (\<lambda>_. Inr []) Version (example_cfg False) = Ok (HttpMode app)"
    by (rule example_app)
  have "query_Get ''nocreated=1'' ''nocreated'' = ''1''" "query_Get ''nocreated=1'' ''expand'' = []"
    by code_simp+
  then have "\<not> RedditKeepCreated (buildEngineOptions (app_loader app) ''nocreated=1'')"
    by (simp add: buildEngineOptions_def Let_def)
  with nocreated_ignored [OF app, of "''nocreated=1''"] app show ?thesis
    by (intro exI [of _ app]) (simp add: example_cfg_def)
qed

text \<open>
  A configured concurrency of zero is accepted, and then no crawl of any host ever gets past
  the limiter.
\<close>

definition zero_env :: "string \<Rightarrow> string" where
  "zero_env key = (if key = ''OMNIFEED_CRAWL4AI_URL'' then ''http://c:11235/crawl''
     else if key = ''OMNIFEED_PER_DOMAIN_CONCURRENCY'' then ''0'' else [])"

theorem zero_concurrency_blocks:
  "\<exists>cfg. Load amd64 zero_env = Ok cfg \<and>
     (\<forall>n s p h. lreachable (PerDomainConcurrency cfg) (PerDomainDelay cfg) n s \<longrightarrow> p < length (procs s) \<longrightarrow>
        procs s ! p \<noteq> Holding h)"
proof -
  have lower: "ToLower (pl_lower amd64) ''toon'' = ''toon''" by code_simp
  have zero: "Atoi ''0'' = Some 0"
    by (simp add: Atoi_def is_digit_def in_int64_def min_int64_def max_int64_def)
  obtain cfg where cfg: "Load amd64 zero_env = Ok cfg" "PerDomainConcurrency cfg = 0"
    by (simp add: Load_def envBool_def envInt_def envDuration_def parsed_def env_def zero_env_def zero)
       (simp add: validate_def lower)
  have "procs s ! p \<noteq> Holding h" if "lreachable 0 md n s" "p < length (procs s)" for md n s p h
  proof
    assume "procs s ! p = Holding h"
    then have "procs s ! p \<in> set (filter (holds_unit h) (procs s))" using nth_mem [OF that(2)] by simp
    then have "0 < units s h" by (cases "filter (holds_unit h) (procs s)") auto
    moreover have "units s h \<le> 0" using sem_inv_reachable [OF that(1), of h] unfolding sem_inv_def by linarith
    ultimately show False by linarith
  qed
  with cfg show ?thesis by auto
qed

section \<open>Starting and stopping\<close>

text \<open>
  C40: However signals, failing listeners and shutdowns interleave: the readiness endpoints say that
  the process is shutting down before any listener is shut down, the error channel never blocks
  a failing listener, and the process ends only when no listener serves any more; from every state
  it can be brought to that end, and nothing happens after it.
\<close>

theorem listeners_invariant:
  assumes "rreachable specs s"
  shows "length (rs_errs s) \<le> length specs \<and> (\<forall>k. rs_stage s = Draining k \<longrightarrow> rs_marked s) \<and>
    (exit_code s \<noteq> None \<longrightarrow> rs_marked s \<and> rs_serving s = {} \<and> (\<forall>s'. \<not> rstep (length specs) s s')) \<and>
    (\<exists>s'. (rstep (length specs))\<^sup>*\<^sup>* s s' \<and> exit_code s' \<noteq> None) \<and>
    (\<forall>i \<in> rs_serving s. rstep (length specs) s
       (s\<lparr>rs_serving := rs_serving s - {i}, rs_errs := rs_errs s @ [i], rs_failed := True\<rparr>))"
proof -
  have inv: "rinv (length specs) s" using assms by (rule rinv_reachable)
  have "length (rs_errs s) < length specs" if "i \<in> rs_serving s" for i
  proof -
    have "rs_serving s \<noteq> {}" using that by blast
    then have "0 < card (rs_serving s)" using inv by (auto simp: rinv_def card_gt_0_iff)
    then show ?thesis using inv by (simp add: rinv_def)
  qed
  moreover have "\<exists>s'. (rstep (length specs))\<^sup>*\<^sup>* s s' \<and> exit_code s' \<noteq> None"
    using listeners_stop [OF inv] by (simp add: exit_code_def) (metis option.distinct(1))
  ultimately show ?thesis
    using inv stopped_final [OF inv]
    by (cases "rs_stage s") (auto simp: rinv_def exit_code_def intro: rstep.listen_fails)
qed

theorem listeners_invariant_witness:
  "length (rs_errs (rinit [loader_spec])) \<le> 1"
  using listeners_invariant [of "[loader_spec]" "rinit [loader_spec]"]
  by (simp add: rreachable_def)

text \<open>
  A listener that cannot listen ends the process with exit status 0: the error is logged, and
  nil is what main gets.
\<close>

theorem failure_exits_zero:
  "\<exists>s. rreachable [loader_spec] s \<and> rs_failed s \<and> exit_code s = Some 0"
proof -
  let ?specs = "[loader_spec]"
  let ?a = "rinit ?specs"
  let ?b = "?a\<lparr>rs_serving := rs_serving ?a - {0}, rs_errs := rs_errs ?a @ [0], rs_failed := True\<rparr>"
  let ?c = "?b\<lparr>rs_errs := [], rs_stage := Draining 0, rs_marked := True\<rparr>"
  let ?d = "?c\<lparr>rs_serving := rs_serving ?c - {0}, rs_stage := Draining (0 + 1)\<rparr>"
  let ?e = "?d\<lparr>rs_stage := Stopped\<rparr>"
  have s1: "rstep 1 ?a ?b" by (rule rstep.listen_fails) (simp_all add: rinit_def loader_spec_def)
  have s2: "rstep 1 ?b ?c" by (rule rstep.receive [where e = 0]) (simp_all add: rinit_def)
  have s3: "rstep 1 ?c ?d" by (rule rstep.shutdown) (simp_all add: rinit_def)
  have s4: "rstep 1 ?d ?e" by (rule rstep.drained) (auto simp: rinit_def)
  have "(rstep 1)\<^sup>*\<^sup>* ?a ?e"
    using s1 s2 s3 s4 by (meson converse_rtranclp_into_rtranclp rtranclp.rtrancl_refl)
  then have "rreachable ?specs ?e" by (simp add: rreachable_def)
  then show ?thesis by (intro exI [of _ ?e]) (simp add: exit_code_def exit_status_def)
qed

end
